(* ===== verification/Prelude.thy ===== *)
theory Prelude
  imports Complex_Main "HOL-Library.Word" "HOL-Library.Multiset"
begin

text \<open>
  Shared vocabulary of the development: the byte and string types of the SDK, the
  errors its functions throw, the error-passing combinators that stand for \<open>throw\<close>
  and early return, insertion-ordered JavaScript objects, and the locale of
  encodings with a decoder, which every textual and binary format of the program
  instantiates.
\<close>

section \<open>Types and errors\<close>

type_synonym byte = "8 word"
type_synonym bytes = "byte list"

text \<open>
  A thrown value. \<open>Error\<close> and \<open>RangeError\<close> are the classes the SDK
  throws itself and carry the message of the source; where that message interpolates
  an arbitrary JavaScript value the model keeps the fixed part of it.
  \<open>HostError\<close> is what a built-in or a third-party call throws (\<open>BigInt\<close> on
  a non-integer, \<open>findProgramAddressSync\<close> without a viable bump); its text names
  that call.
\<close>

datatype error =
    Error string
  | RangeError string
  | HostError string

type_synonym 'a result = "error + 'a"

section \<open>Error passing\<close>

named_theorems ok_iff \<open>when a checked computation returns a value\<close>

definition bindE :: "'e + 'a \<Rightarrow> ('a \<Rightarrow> 'e + 'b) \<Rightarrow> 'e + 'b" where
  "bindE m f = (case m of Inl e \<Rightarrow> Inl e | Inr x \<Rightarrow> f x)"

text \<open>\<open>checkE b e m\<close> is \<open>if (!b) throw e;\<close> followed by \<open>m\<close>.\<close>

definition checkE :: "bool \<Rightarrow> 'e \<Rightarrow> 'e + 'a \<Rightarrow> 'e + 'a" where
  "checkE b e m = (if b then m else Inl e)"

text \<open>\<open>catchE m g\<close> is \<open>try { m } catch (e) { g e }\<close>.\<close>

definition catchE :: "'e + 'a \<Rightarrow> ('e \<Rightarrow> 'f + 'a) \<Rightarrow> 'f + 'a" where
  "catchE m g = (case m of Inl e \<Rightarrow> g e | Inr x \<Rightarrow> Inr x)"

text \<open>\<open>mapE f xs\<close> is \<open>xs.map(f)\<close> where \<open>f\<close> may throw: the first failure in
  list order ends it.\<close>

fun mapE :: "('a \<Rightarrow> 'e + 'b) \<Rightarrow> 'a list \<Rightarrow> 'e + 'b list" where
  "mapE f [] = Inr []"
| "mapE f (x # xs) = bindE (f x) (\<lambda>y. bindE (mapE f xs) (\<lambda>ys. Inr (y # ys)))"

text \<open>\<open>foldE f s xs\<close> is \<open>for (const x of xs) s = f(s, x)\<close> where the body may throw.\<close>

fun foldE :: "('s \<Rightarrow> 'a \<Rightarrow> 'e + 's) \<Rightarrow> 's \<Rightarrow> 'a list \<Rightarrow> 'e + 's" where
  "foldE f s [] = Inr s"
| "foldE f s (x # xs) = bindE (f s x) (\<lambda>s'. foldE f s' xs)"

lemma bindE_simps [simp]:
  "bindE (Inl e) f = Inl e"
  "bindE (Inr x) f = f x"
  by (simp_all add: bindE_def)

lemma bindE_cong [fundef_cong]:
  "m = m' \<Longrightarrow> (\<And>x. m' = Inr x \<Longrightarrow> f x = g x) \<Longrightarrow> bindE m f = bindE m' g"
  by (auto simp: bindE_def split: sum.splits)

lemma bindE_ok [simp, ok_iff]:
  "bindE m f = Inr y \<longleftrightarrow> (\<exists>x. m = Inr x \<and> f x = Inr y)"
  by (auto simp: bindE_def split: sum.splits)

lemma bindE_err:
  "bindE m f = Inl e \<longleftrightarrow> m = Inl e \<or> (\<exists>x. m = Inr x \<and> f x = Inl e)"
  by (auto simp: bindE_def split: sum.splits)

lemma checkE_simps [simp]:
  "checkE True e m = m"
  "checkE False e m = Inl e"
  by (simp_all add: checkE_def)

lemma checkE_ok [simp, ok_iff]: "checkE b e m = Inr y \<longleftrightarrow> b \<and> m = Inr y"
  by (simp add: checkE_def)

lemma catchE_simps [simp]:
  "catchE (Inl e) g = g e"
  "catchE (Inr x) g = Inr x"
  by (simp_all add: catchE_def)

lemma mapE_ok [ok_iff]: "mapE f xs = Inr ys \<longleftrightarrow> list_all2 (\<lambda>x y. f x = Inr y) xs ys"
  by (induction xs arbitrary: ys) (auto simp: list_all2_Cons1)

lemma mapE_length: "mapE f xs = Inr ys \<Longrightarrow> length ys = length xs"
  by (auto simp: mapE_ok dest: list_all2_lengthD)

lemma mapE_map: "(\<And>x. x \<in> set xs \<Longrightarrow> f x = Inr (g x)) \<Longrightarrow> mapE f xs = Inr (map g xs)"
  by (induction xs) auto

lemma mapE_cong [fundef_cong]:
  assumes "xs = ys" "\<And>x. x \<in> set ys \<Longrightarrow> f x = g x"
  shows "mapE f xs = mapE g ys"
proof -
  have "set zs \<subseteq> set ys \<Longrightarrow> mapE f zs = mapE g zs" for zs
  proof (induction zs)
    case (Cons z zs)
    have "f z = g z" by (rule assms(2)) (use Cons.prems in simp)
    moreover have "mapE f zs = mapE g zs" by (rule Cons.IH) (use Cons.prems in simp)
    ultimately show ?case by (simp only: mapE.simps)
  qed simp
  then show ?thesis by (simp add: assms(1))
qed

lemma mapE_set: "mapE f xs = Inr ys \<Longrightarrow> y \<in> set ys \<Longrightarrow> \<exists>x\<in>set xs. f x = Inr y"
  by (induction xs arbitrary: ys) auto

lemma mapE_set': "mapE f xs = Inr ys \<Longrightarrow> x \<in> set xs \<Longrightarrow> \<exists>y\<in>set ys. f x = Inr y"
  by (induction xs arbitrary: ys) auto

lemma mapE_failed: "mapE f xs = Inl e \<Longrightarrow> \<exists>x\<in>set xs. f x = Inl e"
  by (induction xs) (auto simp: bindE_err)

lemma mapE_nth: "mapE f xs = Inr ys \<Longrightarrow> i < length xs \<Longrightarrow> f (xs ! i) = Inr (ys ! i)"
  by (auto simp: mapE_ok list_all2_conv_all_nth)

lemma foldE_invariant:
  assumes "foldE f s xs = Inr s'" and "I s"
    and "\<And>s x t. I s \<Longrightarrow> x \<in> set xs \<Longrightarrow> f s x = Inr t \<Longrightarrow> I t"
  shows "I s'"
  using assms
proof (induction xs arbitrary: s)
  case (Cons x xs)
  from Cons.prems(1) obtain t where t: "f s x = Inr t" "foldE f t xs = Inr s'" by auto
  show ?case
  proof (rule Cons.IH [OF t(2)])
    show "I t" by (rule Cons.prems(3) [OF Cons.prems(2) _ t(1)]) simp
    show "I v" if "I u" "y \<in> set xs" "f u y = Inr v" for u y v
      by (rule Cons.prems(3) [OF that(1) _ that(3)]) (simp add: that(2))
  qed
qed simp

lemma foldE_append: "foldE f s (xs @ ys) = bindE (foldE f s xs) (\<lambda>t. foldE f t ys)"
  by (induction xs arbitrary: s) (auto simp: bindE_def split: sum.splits)

section \<open>JavaScript objects used as dictionaries\<close>

text \<open>
  A \<open>Record<string, T>\<close> is the list of its entries in enumeration order. The keys the
  SDK stores are Base58 addresses, never array indices, so that order is insertion
  order: assigning an existing key keeps its place, a new key goes last.
\<close>

type_synonym 'v object = "(string \<times> 'v) list"

definition get :: "'v object \<Rightarrow> string \<Rightarrow> 'v option" where
  "get obj k = map_of obj k"

fun put :: "'v object \<Rightarrow> string \<Rightarrow> 'v \<Rightarrow> 'v object" where
  "put [] k v = [(k, v)]"
| "put ((k', v') # obj) k v = (if k' = k then (k, v) # obj else (k', v') # put obj k v)"

abbreviation keys :: "'v object \<Rightarrow> string list" where
  "keys obj \<equiv> map fst obj"

lemma get_Nil [simp]: "get [] k = None"
  by (simp add: get_def)

lemma get_Cons [simp]: "get ((k, v) # obj) k' = (if k' = k then Some v else get obj k')"
  by (simp add: get_def)

lemma get_None_iff: "get obj k = None \<longleftrightarrow> k \<notin> set (keys obj)"
  by (simp add: get_def map_of_eq_None_iff)

lemma get_mem: "get obj k = Some v \<Longrightarrow> (k, v) \<in> set obj"
  by (simp add: get_def map_of_SomeD)

lemma get_iff_mem: "distinct (keys obj) \<Longrightarrow> get obj k = Some v \<longleftrightarrow> (k, v) \<in> set obj"
  by (simp add: get_def)

lemma get_key: "get obj k = Some v \<Longrightarrow> k \<in> set (keys obj)"
  by (force dest: get_mem)

lemma get_put [simp]: "get (put obj k v) k' = (if k' = k then Some v else get obj k')"
  by (induction obj k v rule: put.induct) auto

lemma keys_put: "keys (put obj k v) = (if k \<in> set (keys obj) then keys obj else keys obj @ [k])"
  by (induction obj k v rule: put.induct) auto

lemma set_keys_put [simp]: "set (keys (put obj k v)) = insert k (set (keys obj))"
  unfolding keys_put by auto

lemma distinct_put [simp, intro]: "distinct (keys obj) \<Longrightarrow> distinct (keys (put obj k v))"
  unfolding keys_put by auto

lemma put_new: "k \<notin> set (keys obj) \<Longrightarrow> put obj k v = obj @ [(k, v)]"
  by (induction obj k v rule: put.induct) auto

lemma set_put_new: "k \<notin> set (keys obj) \<Longrightarrow> set (put obj k v) = insert (k, v) (set obj)"
  by (simp add: put_new)

section \<open>Encodings\<close>

text \<open>
  The contract shared by every format of the SDK: \<open>enc\<close> writes the values that satisfy
  \<open>valid\<close>, \<open>dec\<close> reads them back, and what \<open>dec\<close> accepts is canonical (exactly
  what \<open>enc\<close> writes).
\<close>

locale codec =
  fixes enc :: "'a \<Rightarrow> 'b"
    and dec :: "'b \<Rightarrow> 'a option"
    and valid :: "'a \<Rightarrow> bool"
  assumes dec_enc: "valid x \<Longrightarrow> dec (enc x) = Some x"
begin

lemma enc_inject: "valid x \<Longrightarrow> valid y \<Longrightarrow> enc x = enc y \<longleftrightarrow> x = y"
  by (metis dec_enc option.inject)

lemma enc_inj_on: "inj_on enc (Collect valid)"
  by (rule inj_onI) (simp add: enc_inject)

lemma map_enc_inject:
  assumes "list_all valid xs" "list_all valid ys"
  shows "map enc xs = map enc ys \<longleftrightarrow> xs = ys"
proof -
  have "inj_on enc (set xs \<union> set ys)"
    by (rule inj_on_subset [OF enc_inj_on]) (use assms in \<open>auto simp: list_all_iff\<close>)
  then show ?thesis by (simp add: inj_on_map_eq_map)
qed

end

text \<open>A codec onto byte (or character) lists of one fixed length: its values can be laid
  out one after another without separators.\<close>

locale fixed_codec = codec enc dec valid
  for enc :: "'a \<Rightarrow> 'c list" and dec :: "'c list \<Rightarrow> 'a option" and valid :: "'a \<Rightarrow> bool" +
  fixes width :: nat
  assumes enc_length: "valid x \<Longrightarrow> length (enc x) = width"
begin

lemma prefix_inject:
  assumes "valid x" "valid y"
  shows "enc x @ u = enc y @ v \<longleftrightarrow> x = y \<and> u = v"
  using assms enc_length enc_inject by auto

lemma concat_length:
  "list_all valid xs \<Longrightarrow> length (concat (map enc xs)) = width * length xs"
  by (induction xs) (auto simp: enc_length)

lemma concat_inject:
  assumes "0 < width" "list_all valid xs" "list_all valid ys"
    and "concat (map enc xs) = concat (map enc ys)"
  shows "xs = ys"
  using assms(2-)
proof (induction xs arbitrary: ys)
  case Nil
  then have "width * length ys = 0"
    using concat_length [of ys] by (metis list.size(3) concat.simps(1) list.map(1))
  with \<open>0 < width\<close> show ?case by simp
next
  case (Cons x xs)
  have "width * length ys = width * length (x # xs)"
    using concat_length [of ys] concat_length [of "x # xs"] Cons.prems by metis
  with \<open>0 < width\<close> obtain y ys' where ys: "ys = y # ys'"
    by (cases ys) simp_all
  have v: "valid x" "valid y" "list_all valid xs" "list_all valid ys'"
    using Cons.prems unfolding ys by simp_all
  have "enc x @ concat (map enc xs) = enc y @ concat (map enc ys')"
    using Cons.prems(3) unfolding ys by simp
  then have "x = y" "concat (map enc xs) = concat (map enc ys')"
    using prefix_inject [OF v(1,2)] by blast+
  with Cons.IH [OF v(3,4)] ys show ?case by simp
qed

end

section \<open>Lists\<close>

lemma fixed_take_drop:
  "length a = n \<Longrightarrow> take n (a @ b) = a" "length a = n \<Longrightarrow> drop n (a @ b) = b"
  by auto

lemma sorted_wrt_before:
  "distinct xs \<Longrightarrow> i < length xs \<Longrightarrow> xs ! i \<notin> set (take i xs)"
  by (metis distinct_take id_take_nth_drop not_distinct_conv_prefix)

section \<open>Sorting with a comparison\<close>

text \<open>\<open>Array.prototype.sort\<close> is stable; \<open>le x y\<close> says that the comparator does not
  put \<open>y\<close> before \<open>x\<close>.\<close>

fun insert_by :: "('a \<Rightarrow> 'a \<Rightarrow> bool) \<Rightarrow> 'a \<Rightarrow> 'a list \<Rightarrow> 'a list" where
  "insert_by le x [] = [x]"
| "insert_by le x (y # ys) = (if le x y then x # y # ys else y # insert_by le x ys)"

fun sort_by :: "('a \<Rightarrow> 'a \<Rightarrow> bool) \<Rightarrow> 'a list \<Rightarrow> 'a list" where
  "sort_by le [] = []"
| "sort_by le (x # xs) = insert_by le x (sort_by le xs)"

lemma set_insert_by [simp]: "set (insert_by le x xs) = insert x (set xs)"
  by (induction xs) auto

lemma set_sort_by [simp]: "set (sort_by le xs) = set xs"
  by (induction xs) auto

lemma length_insert_by [simp]: "length (insert_by le x xs) = Suc (length xs)"
  by (induction xs) auto

lemma length_sort_by [simp]: "length (sort_by le xs) = length xs"
  by (induction xs) auto

lemma mset_sort_by [simp]: "mset (sort_by le xs) = mset xs"
proof -
  have "mset (insert_by le x ys) = add_mset x (mset ys)" for x ys
    by (induction ys) auto
  then show ?thesis by (induction xs) auto
qed

lemma distinct_insert_by [simp]: "distinct (insert_by le x xs) \<longleftrightarrow> x \<notin> set xs \<and> distinct xs"
  by (induction xs) auto

lemma distinct_sort_by [simp]: "distinct (sort_by le xs) \<longleftrightarrow> distinct xs"
  by (induction xs) auto

locale comparison =
  fixes le :: "'a \<Rightarrow> 'a \<Rightarrow> bool"
  assumes total: "le x y \<or> le y x"
    and trans: "le x y \<Longrightarrow> le y z \<Longrightarrow> le x z"
begin

lemma sorted_insert_by: "sorted_wrt le xs \<Longrightarrow> sorted_wrt le (insert_by le x xs)"
  by (induction xs) (use total trans in auto)

lemma sorted_sort_by: "sorted_wrt le (sort_by le xs)"
  by (induction xs) (auto intro: sorted_insert_by)

lemma sort_by_sorted: "sorted_wrt le xs \<Longrightarrow> sort_by le xs = xs"
proof (induction xs)
  case (Cons x xs)
  then show ?case by (cases xs) auto
qed simp

lemma sort_by_idem: "sort_by le (sort_by le xs) = sort_by le xs"
  by (rule sort_by_sorted [OF sorted_sort_by])

end

section \<open>Partial joins\<close>

text \<open>
  Combining two records of the same thing: \<open>join x y\<close> is their union, or nothing when they
  contradict each other. \<open>join x y = Some y\<close> says that \<open>y\<close> extends \<open>x\<close>.
\<close>

locale partial_join =
  fixes join :: "'a \<Rightarrow> 'a \<Rightarrow> 'a option"
  assumes join_idem: "join x x = Some x"
    and join_commute: "join x y = join y x"
    and join_assoc: "Option.bind (join x y) (\<lambda>u. join u z) = Option.bind (join y z) (\<lambda>v. join x v)"
begin

lemma join_upper: "join x y = Some z \<Longrightarrow> join x z = Some z \<and> join y z = Some z"
proof (rule conjI)
  assume z: "join x y = Some z"
  show "join x z = Some z"
    using join_assoc [of x x y] by (simp add: join_idem z)
  have "join z y = Some z"
    using join_assoc [of x y y] by (simp add: join_idem z)
  then show "join y z = Some z" by (simp add: join_commute)
qed

lemma join_least:
  assumes "join x u = Some u" "join y u = Some u"
  shows "\<exists>z. join x y = Some z \<and> join z u = Some u"
  using join_assoc [of x y u] assms by (cases "join x y") simp_all

lemma join_trans: "join x y = Some y \<Longrightarrow> join y z = Some z \<Longrightarrow> join x z = Some z"
  using join_assoc [of x y z] by simp

lemma join_antisym: "join x y = Some y \<Longrightarrow> join y x = Some x \<Longrightarrow> x = y"
  using join_commute [of x y] by simp

end

text \<open>An absent record contradicts nothing.\<close>

fun lift_join :: "('a \<Rightarrow> 'a \<Rightarrow> 'a option) \<Rightarrow> 'a option \<Rightarrow> 'a option \<Rightarrow> 'a option option" where
  "lift_join join None y = Some y"
| "lift_join join (Some a) None = Some (Some a)"
| "lift_join join (Some a) (Some b) = map_option Some (join a b)"

lemma lift_join_None [simp]: "lift_join join x None = Some x"
  by (cases x) simp_all

context partial_join
begin

lemma partial_join_lift: "partial_join (lift_join join)"
proof
  show "lift_join join x x = Some x" for x by (cases x) (simp_all add: join_idem)
  show "lift_join join x y = lift_join join y x" for x y
    by (cases x; cases y) (simp_all add: join_commute)
  show "Option.bind (lift_join join x y) (\<lambda>u. lift_join join u z) =
      Option.bind (lift_join join y z) (\<lambda>v. lift_join join x v)" for x y z
  proof (cases "x = None \<or> y = None \<or> z = None")
    case True
    then show ?thesis by (cases x; cases y; cases z) simp_all
  next
    case False
    then obtain a b c where "x = Some a" "y = Some b" "z = Some c" by auto
    then show ?thesis using join_assoc [of a b c]
      by (cases "join a b"; cases "join b c") simp_all
  qed
qed

end

definition flat_join :: "'a \<Rightarrow> 'a \<Rightarrow> 'a option" where
  "flat_join x y = (if x = y then Some x else None)"

interpretation flat: partial_join flat_join
  by unfold_locales (auto simp: flat_join_def)

interpretation field: partial_join "lift_join flat_join"
  by (rule flat.partial_join_lift)

end
