(* ===== verification/JsValue.thy ===== *)
theory JsValue
  imports Prelude
begin

text \<open>
  The part of JavaScript the SDK depends on: dynamically typed values, numbers,
  the text formats of the standard library (decimal integers, \<open>BigInt(string)\<close>,
  \<open>Buffer.toString("hex")\<close>, little-endian 64-bit integers), and the record of
  host functions that are not part of the repository (SHA-256, Base58, program-address
  search, locale comparison).
\<close>

section \<open>Values\<close>

text \<open>
  A finite double is a rational number; the model does not restrict which rationals are
  doubles, so what is proved holds for all of them.
\<close>

datatype jsnum = Finite rat | NaN | PosInfinity | NegInfinity

text \<open>
  A value as the SDK can receive it. \<open>JBytes\<close> is a \<open>Uint8Array\<close> or
  \<open>Buffer\<close>, \<open>JPubKey\<close> an object with \<open>toBase58\<close> and \<open>toBuffer\<close>
  methods (the bytes are what \<open>toBuffer\<close> returns), \<open>JBN\<close> a \<open>bn.js\<close>
  integer. \<open>JObject\<close> is a plain object, its own enumerable properties in
  enumeration order; \<open>JOther\<close> is any other object (a class instance, a Map).
  Characters are code units below 256.
\<close>

datatype jsval =
    JUndefined
  | JNull
  | JBool bool
  | JNumber jsnum
  | JBigInt int
  | JString string
  | JArray "jsval list"
  | JObject "(string \<times> jsval) list"
  | JBytes bytes
  | JPubKey bytes
  | JBN int
  | JOther

abbreviation jint :: "int \<Rightarrow> jsval" where
  "jint i \<equiv> JNumber (Finite (of_int i))"

text \<open>\<open>Number.isInteger\<close> on a number.\<close>

definition is_integer :: "rat \<Rightarrow> bool" where
  "is_integer r \<longleftrightarrow> of_int \<lfloor>r\<rfloor> = r"

lemma is_integer_of_int [simp]: "is_integer (of_int i)"
  by (simp add: is_integer_def)

lemma is_integer_literals [simp]: "is_integer 0" "is_integer 1" "is_integer (numeral n)"
  using is_integer_of_int [of 0] is_integer_of_int [of 1] is_integer_of_int [of "numeral n"]
  by simp_all

lemma is_integerE:
  assumes "is_integer r" obtains i where "r = of_int i"
  using assms by (metis is_integer_def)

text \<open>Property read \<open>o[k]\<close> of a plain object.\<close>

definition read_prop :: "(string \<times> jsval) list \<Rightarrow> string \<Rightarrow> jsval" where
  "read_prop obj k = (case get obj k of None \<Rightarrow> JUndefined | Some v \<Rightarrow> v)"

definition truthy :: "jsval \<Rightarrow> bool" where
  "truthy v = (case v of
      JUndefined \<Rightarrow> False | JNull \<Rightarrow> False | JBool b \<Rightarrow> b
    | JNumber n \<Rightarrow> n \<noteq> Finite 0 \<and> n \<noteq> NaN
    | JBigInt i \<Rightarrow> i \<noteq> 0 | JString s \<Rightarrow> s \<noteq> [] | _ \<Rightarrow> True)"

text \<open>A check of the dynamic type that throws otherwise.\<close>

lemma jsval_case_ok [ok_iff]:
  "(case v of JBool b \<Rightarrow> f b | _ \<Rightarrow> Inl e) = Inr y \<longleftrightarrow> (\<exists>b. v = JBool b \<and> f b = Inr y)"
  "(case v of JString s \<Rightarrow> g s | _ \<Rightarrow> Inl e) = Inr y \<longleftrightarrow> (\<exists>s. v = JString s \<and> g s = Inr y)"
  "(case v of JArray vs \<Rightarrow> h vs | _ \<Rightarrow> Inl e) = Inr y \<longleftrightarrow> (\<exists>vs. v = JArray vs \<and> h vs = Inr y)"
  "(case v of JObject es \<Rightarrow> k es | _ \<Rightarrow> Inl e) = Inr y \<longleftrightarrow> (\<exists>es. v = JObject es \<and> k es = Inr y)"
  by (cases v; simp)+

section \<open>The host\<close>

text \<open>
  Code outside the repository: Node's \<open>createHash("sha256")\<close>, the \<open>PublicKey\<close>
  class of web3.js (\<open>toBase58\<close>, the constructor on a string, and
  \<open>findProgramAddressSync\<close>), \<open>localeCompare\<close>, the conversion of numbers
  that are not plain integers and of composite values to strings, and the rounding of
  decimal fractions, exponents and long integers to doubles.
  Every definition that reaches this code takes the host as an argument.
\<close>

record host =
  sha256 :: "bytes \<Rightarrow> bytes"
  toBase58 :: "bytes \<Rightarrow> string"
  fromBase58 :: "string \<Rightarrow> bytes option"
  findProgramAddress :: "bytes list \<Rightarrow> bytes \<Rightarrow> (bytes \<times> nat) option"
  localeLe :: "string \<Rightarrow> string \<Rightarrow> bool"
  valueToString :: "jsval \<Rightarrow> string"
  textToNumber :: "string \<Rightarrow> jsnum"

text \<open>The Base58 alphabet of the source's regular expression \<open>[1-9A-HJ-NP-Za-km-z]\<close>.\<close>

definition base58_char :: "char \<Rightarrow> bool" where
  "base58_char c = (let n = of_char c :: nat in
     49 \<le> n \<and> n \<le> 57 \<or> 65 \<le> n \<and> n \<le> 72 \<or> 74 \<le> n \<and> n \<le> 78 \<or> 80 \<le> n \<and> n \<le> 90 \<or>
     97 \<le> n \<and> n \<le> 107 \<or> 109 \<le> n \<and> n \<le> 122)"

definition base58_text :: "string \<Rightarrow> bool" where
  "base58_text s \<longleftrightarrow> 32 \<le> length s \<and> length s \<le> 44 \<and> list_all base58_char s"

text \<open>
  What the SDK relies on, all of it documented behaviour of those libraries: a SHA-256
  digest has 32 bytes; the Base58 text of a 32-byte key has 32 to 44 characters of the
  alphabet and reads back to the key; a key read from text and a program address have 32
  bytes; a bump is a byte; \<open>localeCompare\<close> is a total preorder. Nothing is assumed
  about collisions.
\<close>

definition host_ok :: "host \<Rightarrow> bool" where
  "host_ok H \<longleftrightarrow>
     (\<forall>m. length (sha256 H m) = 32) \<and>
     (\<forall>k. length k = 32 \<longrightarrow> fromBase58 H (toBase58 H k) = Some k \<and> base58_text (toBase58 H k)) \<and>
     (\<forall>s k. fromBase58 H s = Some k \<longrightarrow> length k = 32) \<and>
     (\<forall>ss p a b. findProgramAddress H ss p = Some (a, b) \<longrightarrow> length a = 32 \<and> b < 256) \<and>
     (\<forall>s t. localeLe H s t \<or> localeLe H t s) \<and>
     (\<forall>s t u. localeLe H s t \<longrightarrow> localeLe H t u \<longrightarrow> localeLe H s u)"

lemma host_okD:
  assumes "host_ok H"
  shows sha256_length: "length (sha256 H m) = 32"
    and fromBase58_toBase58: "length k = 32 \<Longrightarrow> fromBase58 H (toBase58 H k) = Some k"
    and toBase58_text: "length k = 32 \<Longrightarrow> base58_text (toBase58 H k)"
    and fromBase58_length: "fromBase58 H s = Some k \<Longrightarrow> length k = 32"
    and findProgramAddress_length: "findProgramAddress H ss p = Some (a, b) \<Longrightarrow> length a = 32"
    and findProgramAddress_bump: "findProgramAddress H ss p = Some (a, b) \<Longrightarrow> b < 256"
  using assms unfolding host_ok_def by blast+

lemma toBase58_inject:
  "host_ok H \<Longrightarrow> length j = 32 \<Longrightarrow> length k = 32 \<Longrightarrow> toBase58 H j = toBase58 H k \<longleftrightarrow> j = k"
  by (metis fromBase58_toBase58 option.inject)

end
