(* ===== verification/TextCodec.thy ===== *)
theory TextCodec
  imports JsValue
begin

text \<open>
  The text and byte formats of the standard library the SDK writes and reads: decimal
  integers (\<open>toString\<close>), \<open>BigInt(string)\<close>, hexadecimal buffers, and the
  little-endian 64-bit writes of \<open>Buffer\<close>. Each is shown to be a codec.
\<close>

section \<open>Digits\<close>

definition digit_char :: "nat \<Rightarrow> char" where
  "digit_char n = ''0123456789abcdef'' ! n"

text \<open>The value of a digit, letters counting from ten in either case.\<close>

definition digit_val :: "char \<Rightarrow> nat" where
  "digit_val c = (let n = of_char c :: nat in
     if 48 \<le> n \<and> n \<le> 57 then n - 48
     else if 97 \<le> n \<and> n \<le> 122 then n - 87
     else if 65 \<le> n \<and> n \<le> 90 then n - 55
     else 99)"

definition is_digit :: "nat \<Rightarrow> char \<Rightarrow> bool" where
  "is_digit r c \<longleftrightarrow> digit_val c < r"

definition radix_value :: "nat \<Rightarrow> string \<Rightarrow> nat" where
  "radix_value r cs = foldl (\<lambda>a c. r * a + digit_val c) 0 cs"

lemma less_16_cases: "(n::nat) < 16 \<Longrightarrow> n \<in> {0, 1, 2, 3, 4, 5, 6, 7, 8, 9, 10, 11, 12, 13, 14, 15}"
  unfolding insert_iff empty_iff by arith

lemma digit_val_char [simp]: "n < 16 \<Longrightarrow> digit_val (digit_char n) = n"
  by (drule less_16_cases) (elim insertE emptyE; simp add: digit_char_def digit_val_def)

lemma is_digit_char [simp]: "n < 16 \<Longrightarrow> is_digit r (digit_char n) \<longleftrightarrow> n < r"
  by (simp add: is_digit_def)

lemma digit_char_not_sign: "n < 16 \<Longrightarrow> digit_char n \<noteq> CHR ''-'' \<and> digit_char n \<noteq> CHR ''+''"
  by (drule less_16_cases) (elim insertE emptyE; simp add: digit_char_def)

lemma digit_char_0: "n < 16 \<Longrightarrow> digit_char n = CHR ''0'' \<longleftrightarrow> n = 0"
  by (drule less_16_cases) (elim insertE emptyE; simp add: digit_char_def)

section \<open>Decimal integers\<close>

fun nat_to_decimal :: "nat \<Rightarrow> string" where
  "nat_to_decimal n =
     (if n < 10 then [digit_char n] else nat_to_decimal (n div 10) @ [digit_char (n mod 10)])"

declare nat_to_decimal.simps [simp del]

text \<open>\<open>toString()\<close> of a bigint or a BN.\<close>

definition int_to_decimal :: "int \<Rightarrow> string" where
  "int_to_decimal i = (if i < 0 then CHR ''-'' # nat_to_decimal (nat (- i)) else nat_to_decimal (nat i))"

text \<open>White space that \<open>BigInt(string)\<close> trims, below code unit 256.\<close>

definition is_space :: "char \<Rightarrow> bool" where
  "is_space c \<longleftrightarrow> (of_char c :: nat) \<in> {9, 10, 11, 12, 13, 32, 160}"

definition trim :: "string \<Rightarrow> string" where
  "trim s = rev (dropWhile is_space (rev (dropWhile is_space s)))"

definition digits_value :: "nat \<Rightarrow> string \<Rightarrow> nat option" where
  "digits_value r cs = (if cs \<noteq> [] \<and> list_all (is_digit r) cs then Some (radix_value r cs) else None)"

text \<open>
  \<open>BigInt(s)\<close> (ECMAScript StringToBigInt): white space is trimmed, the empty text is
  zero, a sign goes with decimal digits only, \<open>0x\<close>, \<open>0o\<close> and \<open>0b\<close> introduce
  the other radices; anything else is a SyntaxError.
\<close>

fun parse_bigint :: "string \<Rightarrow> int option" where
  "parse_bigint [] = Some 0"
| "parse_bigint (c # cs) =
     (if c = CHR ''-'' then map_option (\<lambda>n. - int n) (digits_value 10 cs)
      else if c = CHR ''+'' then map_option int (digits_value 10 cs)
      else if c = CHR ''0'' \<and> cs \<noteq> [] \<and> hd cs \<in> {CHR ''x'', CHR ''X''}
        then map_option int (digits_value 16 (tl cs))
      else if c = CHR ''0'' \<and> cs \<noteq> [] \<and> hd cs \<in> {CHR ''o'', CHR ''O''}
        then map_option int (digits_value 8 (tl cs))
      else if c = CHR ''0'' \<and> cs \<noteq> [] \<and> hd cs \<in> {CHR ''b'', CHR ''B''}
        then map_option int (digits_value 2 (tl cs))
      else map_option int (digits_value 10 (c # cs)))"

definition string_to_bigint :: "string \<Rightarrow> int option" where
  "string_to_bigint s = parse_bigint (trim s)"

lemma nat_to_decimal_digits: "list_all (is_digit 10) (nat_to_decimal n)"
proof (induction n rule: nat_to_decimal.induct)
  case (1 n)
  then show ?case by (subst nat_to_decimal.simps) simp
qed

lemma nat_to_decimal_nonempty [simp]: "nat_to_decimal n \<noteq> []"
  by (subst nat_to_decimal.simps) simp

lemma radix_value_snoc: "radix_value r (cs @ [c]) = r * radix_value r cs + digit_val c"
  by (simp add: radix_value_def)

lemma radix_value_nat_to_decimal [simp]: "radix_value 10 (nat_to_decimal n) = n"
proof (induction n rule: nat_to_decimal.induct)
  case (1 n)
  show ?case
  proof (cases "n < 10")
    case True
    then show ?thesis by (subst nat_to_decimal.simps) (simp add: radix_value_def)
  next
    case False
    with 1 have "radix_value 10 (nat_to_decimal (n div 10)) = n div 10" by simp
    with False show ?thesis
      by (subst nat_to_decimal.simps) (simp add: radix_value_snoc)
  qed
qed

lemma digit_not_space: "is_digit 16 c \<Longrightarrow> \<not> is_space c"
  by (auto simp: is_digit_def digit_val_def is_space_def Let_def split: if_splits)

lemma decimal_digit_cases:
  assumes "is_digit 10 c"
  shows "\<not> is_space c" "c \<noteq> CHR ''-''" "c \<noteq> CHR ''+''"
    "c \<notin> {CHR ''x'', CHR ''X''}" "c \<notin> {CHR ''o'', CHR ''O''}" "c \<notin> {CHR ''b'', CHR ''B''}"
  using assms by (auto simp: is_digit_def digit_val_def is_space_def Let_def split: if_splits)

lemma trim_id:
  assumes "s = [] \<or> (\<not> is_space (hd s) \<and> \<not> is_space (last s))"
  shows "trim s = s"
proof (cases s)
  case (Cons c cs)
  with assms have "dropWhile is_space s = s" by simp
  moreover have "dropWhile is_space (rev s) = rev s"
    using assms Cons by (simp only: dropWhile_eq_self_iff hd_rev) simp
  ultimately show ?thesis by (simp add: trim_def)
qed (simp add: trim_def)

lemma parse_decimal_digits:
  assumes "cs \<noteq> []" "list_all (is_digit 10) cs"
  shows "parse_bigint cs = Some (int (radix_value 10 cs))"
proof (cases cs)
  case (Cons c ds)
  have c: "is_digit 10 c" and ds: "list_all (is_digit 10) ds" using assms Cons by auto
  have hd: "is_digit 10 (hd ds)" if "ds \<noteq> []" using ds that by (cases ds) auto
  have letters: "(c = CHR ''0'' \<and> ds \<noteq> [] \<and> hd ds \<in> {CHR ''x'', CHR ''X''}) = False"
    "(c = CHR ''0'' \<and> ds \<noteq> [] \<and> hd ds \<in> {CHR ''o'', CHR ''O''}) = False"
    "(c = CHR ''0'' \<and> ds \<noteq> [] \<and> hd ds \<in> {CHR ''b'', CHR ''B''}) = False"
    using decimal_digit_cases(4-6) [OF hd] by blast+
  have signs: "(c = CHR ''-'') = False" "(c = CHR ''+'') = False"
    using decimal_digit_cases(2,3) [OF c] by blast+
  have "parse_bigint (c # ds) = map_option int (digits_value 10 (c # ds))"
    unfolding parse_bigint.simps signs letters if_False ..
  with assms show ?thesis by (simp only: Cons digits_value_def) simp
qed (use assms in simp)

lemma hd_last_digits:
  assumes "cs \<noteq> []" "list_all (is_digit 10) cs"
  shows "\<not> is_space (hd cs)" "\<not> is_space (last cs)"
  using assms decimal_digit_cases(1) by (auto simp: list_all_iff)

lemma int_to_decimal_nonempty [simp]: "int_to_decimal i \<noteq> []"
  by (simp add: int_to_decimal_def)

text \<open>Printing an integer and reading it with \<open>BigInt\<close> gives it back.\<close>

lemma string_to_bigint_decimal [simp]: "string_to_bigint (int_to_decimal i) = Some i"
proof (cases "i < 0")
  case True
  let ?ds = "nat_to_decimal (nat (- i))"
  have "trim (CHR ''-'' # ?ds) = CHR ''-'' # ?ds"
    by (rule trim_id) (simp add: hd_last_digits nat_to_decimal_digits is_space_def [of "CHR ''-''"])
  with True show ?thesis
    by (simp add: string_to_bigint_def int_to_decimal_def digits_value_def nat_to_decimal_digits)
next
  case False
  have "trim (nat_to_decimal (nat i)) = nat_to_decimal (nat i)"
    by (rule trim_id) (simp add: hd_last_digits nat_to_decimal_digits)
  with False show ?thesis
    by (simp add: string_to_bigint_def int_to_decimal_def parse_decimal_digits nat_to_decimal_digits)
qed

interpretation decimal_text: codec int_to_decimal string_to_bigint "\<lambda>_. True"
  by unfold_locales simp

text \<open>The codec's regular expression \<open>/^(0|[1-9][0-9]*|-[1-9][0-9]*)$/\<close>.\<close>

definition positive_decimal :: "string \<Rightarrow> bool" where
  "positive_decimal cs \<longleftrightarrow> cs \<noteq> [] \<and> hd cs \<noteq> CHR ''0'' \<and> list_all (is_digit 10) cs"

definition canonical_decimal :: "string \<Rightarrow> bool" where
  "canonical_decimal s \<longleftrightarrow>
     s = ''0'' \<or> positive_decimal s \<or> (s \<noteq> [] \<and> hd s = CHR ''-'' \<and> positive_decimal (tl s))"

lemma nat_to_decimal_hd: "0 < n \<Longrightarrow> hd (nat_to_decimal n) \<noteq> CHR ''0''"
proof (induction n rule: nat_to_decimal.induct)
  case (1 n)
  show ?case
  proof (cases "n < 10")
    case True
    with 1 show ?thesis by (subst nat_to_decimal.simps) (simp add: digit_char_0)
  next
    case False
    with 1 have "hd (nat_to_decimal (n div 10)) \<noteq> CHR ''0''" by simp
    with False show ?thesis by (subst nat_to_decimal.simps) simp
  qed
qed

lemma int_to_decimal_0: "int_to_decimal 0 = ''0''"
  by (simp add: int_to_decimal_def nat_to_decimal.simps digit_char_def)

lemma int_to_decimal_canonical: "canonical_decimal (int_to_decimal i)"
proof (cases i "0 :: int" rule: linorder_cases)
  case less
  then show ?thesis
    by (simp add: canonical_decimal_def int_to_decimal_def positive_decimal_def
        nat_to_decimal_hd nat_to_decimal_digits)
next
  case equal
  then show ?thesis by (simp add: canonical_decimal_def int_to_decimal_0)
next
  case greater
  then show ?thesis
    by (simp add: canonical_decimal_def int_to_decimal_def positive_decimal_def
        nat_to_decimal_hd nat_to_decimal_digits)
qed

lemma digit_char_val:
  assumes "is_digit 10 c"
  shows "digit_char (digit_val c) = c"
proof -
  obtain n where c: "c = char_of n" and "48 \<le> n \<and> n \<le> (57 :: nat)"
    using assms by (rule_tac that [of "of_char c"])
      (auto simp: is_digit_def digit_val_def Let_def split: if_splits)
  then have "n = 48 \<or> n = 49 \<or> n = 50 \<or> n = 51 \<or> n = 52 \<or> n = 53 \<or> n = 54 \<or> n = 55 \<or>
      n = 56 \<or> n = 57"
    by presburger
  then have "char_of n = digit_char (digit_val (char_of n))"
    by (elim disjE) (simp_all add: digit_char_def digit_val_def char_of_eq_iff)
  then show ?thesis unfolding c by (rule sym)
qed

lemma radix_value_pos:
  "list_all (is_digit 10) cs \<Longrightarrow> cs \<noteq> [] \<Longrightarrow> hd cs \<noteq> CHR ''0'' \<Longrightarrow> 0 < radix_value 10 cs"
proof (induction cs rule: rev_induct)
  case (snoc c cs)
  show ?case
  proof (cases "cs = []")
    case True
    with snoc.prems have "c \<noteq> CHR ''0''" "digit_char (digit_val c) = c"
      by (simp_all add: digit_char_val)
    then have "digit_val c \<noteq> 0" by (metis digit_char_0 zero_less_numeral)
    with True show ?thesis by (simp add: radix_value_def)
  qed (use snoc in \<open>simp add: radix_value_snoc\<close>)
qed simp

lemma nat_to_decimal_radix_value:
  "list_all (is_digit 10) cs \<Longrightarrow> cs \<noteq> [] \<Longrightarrow> hd cs \<noteq> CHR ''0'' \<Longrightarrow>
    nat_to_decimal (radix_value 10 cs) = cs"
proof (induction cs rule: rev_induct)
  case (snoc c cs)
  have c: "is_digit 10 c" "digit_val c < 10" using snoc.prems by (auto simp: is_digit_def)
  show ?case
  proof (cases "cs = []")
    case True
    with c show ?thesis
      by (subst nat_to_decimal.simps) (simp add: radix_value_def digit_char_val)
  next
    case False
    with snoc.prems have "0 < radix_value 10 cs" by (intro radix_value_pos) auto
    with False c snoc show ?thesis
      by (subst nat_to_decimal.simps) (simp add: radix_value_snoc digit_char_val)
  qed
qed simp

text \<open>The canonical texts are exactly the printed integers.\<close>

lemma canonical_decimal_iff: "canonical_decimal s \<longleftrightarrow> (\<exists>i. s = int_to_decimal i)"
proof
  have print: "\<exists>i>0. cs = nat_to_decimal (nat i)" if "positive_decimal cs" for cs
    using that nat_to_decimal_radix_value [of cs] radix_value_pos [of cs]
    by (intro exI [of _ "int (radix_value 10 cs)"]) (auto simp: positive_decimal_def)
  assume "canonical_decimal s"
  then consider "s = ''0''" | "positive_decimal s"
    | cs where "s = CHR ''-'' # cs" "positive_decimal cs"
    unfolding canonical_decimal_def by (metis list.collapse)
  then show "\<exists>i. s = int_to_decimal i"
  proof cases
    case 1
    then show ?thesis using int_to_decimal_0 by metis
  next
    case 2
    then obtain i where "i > 0" "s = nat_to_decimal (nat i)" using print by blast
    then show ?thesis by (intro exI [of _ i]) (simp add: int_to_decimal_def)
  next
    case 3
    then obtain i where "i > 0" "cs = nat_to_decimal (nat i)" using print by blast
    with 3 show ?thesis by (intro exI [of _ "- i"]) (simp add: int_to_decimal_def)
  qed
qed (auto simp: int_to_decimal_canonical)

section \<open>Hexadecimal\<close>

text \<open>\<open>Buffer.from(bytes).toString("hex")\<close> and \<open>Buffer.from(text, "hex")\<close>: the
  decoder stops at the first pair that is not hexadecimal and drops an odd last digit.\<close>

fun hex_of_bytes :: "bytes \<Rightarrow> string" where
  "hex_of_bytes [] = []"
| "hex_of_bytes (b # bs) =
     digit_char (unat b div 16) # digit_char (unat b mod 16) # hex_of_bytes bs"

fun bytes_of_hex :: "string \<Rightarrow> bytes" where
  "bytes_of_hex (c # d # cs) =
     (if is_digit 16 c \<and> is_digit 16 d
      then of_nat (16 * digit_val c + digit_val d) # bytes_of_hex cs else [])"
| "bytes_of_hex _ = []"

definition is_hex :: "string \<Rightarrow> bool" where
  "is_hex s \<longleftrightarrow> list_all (is_digit 16) s"

lemma unat_byte [simp]: "unat (b :: byte) < 256" "unat (b :: byte) div 16 < 16"
proof -
  show "unat b < 256" using unsigned_less [of b] by (simp add: unat_arith_simps)
  then show "unat b div 16 < 16" by simp
qed

lemma bytes_of_hex_of_bytes [simp]: "bytes_of_hex (hex_of_bytes bs) = bs"
proof (induction bs)
  case (Cons b bs)
  have "16 * (unat b div 16) + unat b mod 16 = unat b" by presburger
  with Cons show ?case by simp
qed simp

lemma length_hex_of_bytes [simp]: "length (hex_of_bytes bs) = 2 * length bs"
  by (induction bs) auto

lemma is_hex_hex_of_bytes [simp]: "is_hex (hex_of_bytes bs)"
  by (induction bs) (auto simp: is_hex_def)

lemma length_bytes_of_hex: "is_hex s \<Longrightarrow> length (bytes_of_hex s) = length s div 2"
  by (induction s rule: bytes_of_hex.induct) (auto simp: is_hex_def)

interpretation hex_text: codec hex_of_bytes "\<lambda>s. Some (bytes_of_hex s)" "\<lambda>_. True"
  by unfold_locales simp

section \<open>Little-endian 64-bit integers\<close>

text \<open>\<open>Buffer.writeBigInt64LE\<close> and \<open>writeBigUInt64LE\<close>: eight bytes, least
  significant first, two's complement when negative.\<close>

definition le64 :: "int \<Rightarrow> bytes" where
  "le64 i = map (\<lambda>k. word_of_int (i div 256 ^ k)) [0..<8]"

definition le64_value :: "bytes \<Rightarrow> int" where
  "le64_value bs = (\<Sum>k<8. uint (bs ! k) * 256 ^ k)"

definition i64_range :: "int \<Rightarrow> bool" where
  "i64_range i \<longleftrightarrow> - (2 ^ 63) \<le> i \<and> i \<le> 2 ^ 63 - 1"

definition u64_range :: "int \<Rightarrow> bool" where
  "u64_range i \<longleftrightarrow> 0 \<le> i \<and> i \<le> 2 ^ 64 - 1"

definition read_u64 :: "bytes \<Rightarrow> int option" where
  "read_u64 bs = (if length bs = 8 then Some (le64_value bs) else None)"

definition read_i64 :: "bytes \<Rightarrow> int option" where
  "read_i64 bs = (if length bs = 8 then
     Some (if le64_value bs < 2 ^ 63 then le64_value bs else le64_value bs - 2 ^ 64) else None)"

lemma length_le64 [simp]: "length (le64 i) = 8"
  by (simp add: le64_def)

lemma base256_sum: "(\<Sum>k<n. (i div 256 ^ k) mod 256 * 256 ^ k) = i mod (256 ^ n :: int)"
proof (induction n)
  case (Suc n)
  have "i mod 256 ^ Suc n = 256 ^ n * (i div 256 ^ n mod 256) + i mod 256 ^ n"
    by (simp add: zmod_zmult2_eq power_Suc2 del: power_Suc)
  with Suc show ?case by simp
qed simp

lemma le64_value_le64 [simp]: "le64_value (le64 i) = i mod 2 ^ 64"
proof -
  have "le64_value (le64 i) = (\<Sum>k<8. (i div 256 ^ k) mod 256 * 256 ^ k)"
    by (simp add: le64_value_def le64_def uint_word_of_int)
  also have "\<dots> = i mod 256 ^ 8" by (rule base256_sum)
  finally show ?thesis by simp
qed

interpretation u64_bytes: fixed_codec le64 read_u64 u64_range 8
  by unfold_locales (simp_all add: read_u64_def u64_range_def)

lemma read_i64_le64: "i64_range i \<Longrightarrow> read_i64 (le64 i) = Some i"
proof (cases "0 \<le> i")
  case False
  assume "i64_range i"
  have "i mod 2 ^ 64 = (i + 2 ^ 64) mod 2 ^ 64" by simp
  also have "\<dots> = i + 2 ^ 64"
    by (rule mod_pos_pos_trivial) (use \<open>i64_range i\<close> False in \<open>simp_all add: i64_range_def\<close>)
  finally have "i mod 2 ^ 64 = i + 2 ^ 64" .
  with False \<open>i64_range i\<close> show ?thesis by (simp add: read_i64_def i64_range_def)
qed (simp add: read_i64_def i64_range_def)

interpretation i64_bytes: fixed_codec le64 read_i64 i64_range 8
  by unfold_locales (simp_all add: read_i64_le64)

section \<open>Code-unit order\<close>

text \<open>The order of JavaScript's default \<open>sort()\<close> on strings.\<close>

fun codeunit_le :: "string \<Rightarrow> string \<Rightarrow> bool" where
  "codeunit_le [] t = True"
| "codeunit_le (c # s) [] = False"
| "codeunit_le (c # s) (d # t) =
     (if c = d then codeunit_le s t else (of_char c :: nat) < of_char d)"

lemma codeunit_le_total: "codeunit_le s t \<or> codeunit_le t s"
proof (induction s t rule: codeunit_le.induct)
  case (3 c s d t)
  have "of_char c < (of_char d :: nat) \<or> of_char d < (of_char c :: nat)" if "c \<noteq> d"
    using that by (metis linorder_neqE_nat of_char_eq_iff)
  with 3 show ?case by auto
qed auto

lemma codeunit_le_refl [simp]: "codeunit_le s s"
  using codeunit_le_total by blast

lemma codeunit_le_trans: "codeunit_le s t \<Longrightarrow> codeunit_le t u \<Longrightarrow> codeunit_le s u"
proof (induction s t arbitrary: u rule: codeunit_le.induct)
  case (3 c s d t)
  then show ?case by (cases u) (auto split: if_splits)
qed auto

lemma codeunit_le_antisym: "codeunit_le s t \<Longrightarrow> codeunit_le t s \<Longrightarrow> s = t"
  by (induction s t rule: codeunit_le.induct) (auto split: if_splits elim: codeunit_le.elims)

interpretation codeunit: comparison codeunit_le
  by unfold_locales (rule codeunit_le_total, rule codeunit_le_trans)

end
