(* ===== verification/Normalization.thy ===== *)
theory Normalization
  imports TextCodec
begin

text \<open>
  \<open>app/sdk/protocol/normalization.ts\<close>: conversion of caller-supplied bytes, keys and
  numbers. A function that may throw returns a \<open>result\<close>; the order of its checks is
  the order of the source.
\<close>

section \<open>Keys and bytes\<close>

definition publicKeyBytes :: "jsval \<Rightarrow> bytes option result" where
  "publicKeyBytes input = (case input of
      JPubKey k \<Rightarrow>
        if length k \<noteq> 32 then Inl (Error ''public key must be exactly 32 bytes'')
        else Inr (Some k)
    | _ \<Rightarrow> Inr None)"

text \<open>The test of the loop body of \<open>validateByteArray\<close>.\<close>

definition is_byte_value :: "jsval \<Rightarrow> bool" where
  "is_byte_value v = (case v of
      JNumber (Finite r) \<Rightarrow> is_integer r \<and> 0 \<le> r \<and> r \<le> 255
    | _ \<Rightarrow> False)"

fun validateByteArray :: "jsval list \<Rightarrow> unit result" where
  "validateByteArray [] = Inr ()"
| "validateByteArray (byte # rest) =
     (if \<not> is_byte_value byte
      then Inl (Error ''byte array values must be integers between 0 and 255'')
      else validateByteArray rest)"

text \<open>\<open>Buffer.from(numbers)\<close>, each number reduced to a byte.\<close>

definition byte_of_value :: "jsval \<Rightarrow> byte" where
  "byte_of_value v = (case v of JNumber (Finite r) \<Rightarrow> word_of_int \<lfloor>r\<rfloor> | _ \<Rightarrow> 0)"

definition fixed32_error :: error where
  "fixed32_error = Error ''expected 32 bytes encoded as 64 hex characters (without 0x) or Base58''"

definition decodeFixed32 :: "host \<Rightarrow> jsval \<Rightarrow> bytes result" where
  "decodeFixed32 H input = (case input of
      JString s \<Rightarrow>
        if length s = 64 \<and> is_hex s then Inr (bytes_of_hex s)
        else if base58_text s then
          (case fromBase58 H s of
             Some key \<Rightarrow> if toBase58 H key = s then Inr key else Inl fixed32_error
           | None \<Rightarrow> Inl fixed32_error)
        else Inl fixed32_error
    | _ \<Rightarrow> Inl fixed32_error)"

definition decodeHex :: "string \<Rightarrow> bytes result" where
  "decodeHex input =
     (if \<not> (even (length input) \<and> is_hex input)
      then Inl (Error ''hex input must contain complete byte pairs without a prefix'')
      else Inr (bytes_of_hex input))"

definition to32Bytes :: "host \<Rightarrow> jsval \<Rightarrow> bytes result" where
  "to32Bytes H input =
     bindE (case input of
         JBytes bs \<Rightarrow> Inr bs
       | JArray vs \<Rightarrow> bindE (validateByteArray vs) (\<lambda>_. Inr (map byte_of_value vs))
       | _ \<Rightarrow> decodeFixed32 H input)
     (\<lambda>buf. if length buf \<noteq> 32 then Inl (Error ''hash must be exactly 32 bytes'') else Inr buf)"

definition toBytes :: "host \<Rightarrow> jsval \<Rightarrow> bytes result" where
  "toBytes H input =
     (if input = JUndefined then Inr [] else
      bindE (publicKeyBytes input) (\<lambda>keyBytes.
        case keyBytes of
          Some k \<Rightarrow> Inr k
        | None \<Rightarrow> (case input of
              JBytes bs \<Rightarrow> Inr bs
            | JArray vs \<Rightarrow> bindE (validateByteArray vs) (\<lambda>_. Inr (map byte_of_value vs))
            | JString s \<Rightarrow> decodeHex s
            | _ \<Rightarrow> to32Bytes H input)))"

text \<open>A \<open>PublicKey\<close> is modelled by its 32 bytes.\<close>

definition accountPublicKey :: "host \<Rightarrow> jsval \<Rightarrow> bytes result" where
  "accountPublicKey H input =
     bindE (publicKeyBytes input) (\<lambda>keyBytes.
       case keyBytes of Some k \<Rightarrow> Inr k | None \<Rightarrow> to32Bytes H input)"

section \<open>Integers\<close>

text \<open>\<open>value.toString()\<close>. Numbers that are not integers below \<open>10^21\<close> and composite
  values go through the host.\<close>

definition valueString :: "host \<Rightarrow> jsval \<Rightarrow> string result" where
  "valueString H v = (case v of
      JUndefined \<Rightarrow> Inl (HostError ''toString'')
    | JNull \<Rightarrow> Inl (HostError ''toString'')
    | JBool b \<Rightarrow> Inr (if b then ''true'' else ''false'')
    | JNumber (Finite r) \<Rightarrow>
        Inr (if is_integer r \<and> \<bar>r\<bar> < 10 ^ 21 then int_to_decimal \<lfloor>r\<rfloor> else valueToString H v)
    | JBigInt i \<Rightarrow> Inr (int_to_decimal i)
    | JBN i \<Rightarrow> Inr (int_to_decimal i)
    | JString s \<Rightarrow> Inr s
    | JPubKey k \<Rightarrow> Inr (toBase58 H k)
    | _ \<Rightarrow> Inr (valueToString H v))"

text \<open>\<open>BigInt(text)\<close>; the constructor throws a SyntaxError on other texts.\<close>

definition bigintOfString :: "string \<Rightarrow> int result" where
  "bigintOfString s = (case string_to_bigint s of Some i \<Rightarrow> Inr i | None \<Rightarrow> Inl (HostError ''BigInt''))"

definition numberToU64 :: "jsval \<Rightarrow> int result" where
  "numberToU64 value = (case value of
      JNumber (Finite r) \<Rightarrow>
        if r < 0 then Inl (Error ''value must be non-negative'')
        else let max = 2 ^ 64 - 1; truncated = \<lfloor>r\<rfloor>
             in Inr (if truncated > max then max else truncated)
    | _ \<Rightarrow> Inl (Error ''value must be a finite number''))"

definition toBigInt :: "host \<Rightarrow> jsval \<Rightarrow> int result" where
  "toBigInt H value = (case value of
      JNumber n \<Rightarrow> (case n of
          Finite r \<Rightarrow> if is_integer r then Inr \<lfloor>r\<rfloor> else Inl (HostError ''BigInt'')
        | _ \<Rightarrow> Inl (HostError ''BigInt''))
    | JBigInt i \<Rightarrow> Inr i
    | _ \<Rightarrow> bindE (valueString H value) bigintOfString)"

text \<open>Wire integer checks shared by hashing and Anchor encoding.\<close>

definition asI64 :: "host \<Rightarrow> jsval \<Rightarrow> int result" where
  "asI64 H value = bindE (toBigInt H value) (\<lambda>integer.
     if integer < - (2 ^ 63) \<or> integer > 2 ^ 63 - 1
     then Inl (RangeError ''value must fit in i64'') else Inr integer)"

definition asU64 :: "host \<Rightarrow> jsval \<Rightarrow> int result" where
  "asU64 H value = bindE (toBigInt H value) (\<lambda>integer.
     if integer < 0 then Inl (RangeError ''value must be non-negative'')
     else if integer > 2 ^ 64 - 1 then Inl (RangeError ''value must fit in u64'')
     else Inr integer)"

definition toI64Bytes :: "host \<Rightarrow> jsval \<Rightarrow> bytes result" where
  "toI64Bytes H value = bindE (asI64 H value) (\<lambda>i. Inr (le64 i))"

definition toU64Bytes :: "host \<Rightarrow> jsval \<Rightarrow> bytes result" where
  "toU64Bytes H value = bindE (asU64 H value) (\<lambda>i. Inr (le64 i))"

text \<open>Every truthy value of the model has a \<open>toString\<close> method, so the source's
  \<open>toNumber\<close> fallback is never reached.\<close>

definition coerceNumericLike :: "host \<Rightarrow> jsval \<Rightarrow> jsval result" where
  "coerceNumericLike H value = (case value of
      JNumber n \<Rightarrow> Inr value
    | JBigInt i \<Rightarrow> Inr value
    | _ \<Rightarrow>
        if truthy value
        then bindE (valueString H value) (\<lambda>s. bindE (bigintOfString s) (\<lambda>i. Inr (JBigInt i)))
        else Inl (Error ''unsupported numeric value''))"

definition coerceBigInt :: "host \<Rightarrow> jsval \<Rightarrow> int result" where
  "coerceBigInt H value = bindE (coerceNumericLike H value) (toBigInt H)"

section \<open>Bytes: what is accepted\<close>

named_theorems norm_simps \<open>normalization of well-formed inputs\<close>

lemma validateByteArray_ok [ok_iff]: "validateByteArray vs = Inr u \<longleftrightarrow> list_all is_byte_value vs"
  by (induction vs) auto

text \<open>The number that denotes a byte.\<close>

definition jbyte :: "byte \<Rightarrow> jsval" where
  "jbyte b = jint (uint b)"

lemma byte_of_jbyte [simp]: "byte_of_value (jbyte b) = b"
proof -
  have "\<lfloor>of_int (uint b) :: rat\<rfloor> = uint b" by (rule floor_of_int)
  then show ?thesis unfolding jbyte_def byte_of_value_def jsval.case jsnum.case by simp
qed

lemma is_byte_value_jbyte [simp]: "is_byte_value (jbyte b)"
proof -
  have "is_integer (of_int (uint b))" "0 \<le> uint b" "uint b \<le> 255"
    using uint_bounded [of b] by (simp_all del: of_int_uint)
  then show ?thesis unfolding jbyte_def is_byte_value_def jsval.case jsnum.case
    by (metis of_int_0_le_iff of_int_le_iff of_int_numeral)
qed

lemma is_byte_value_iff: "is_byte_value v \<longleftrightarrow> v = jbyte (byte_of_value v)"
proof
  assume "is_byte_value v"
  then obtain r where v: "v = JNumber (Finite r)" and r: "is_integer r" "0 \<le> r" "r \<le> 255"
    by (auto simp: is_byte_value_def split: jsval.splits jsnum.splits)
  from r(1) obtain i where i: "r = of_int i" by (rule is_integerE)
  with r have "0 \<le> i" "i \<le> 255" by simp_all
  then have "uint (word_of_int i :: byte) = i"
    by (simp add: uint_word_of_int)
  with v i show "v = jbyte (byte_of_value v)"
    by (simp add: byte_of_value_def jbyte_def del: of_int_uint)
qed (metis is_byte_value_jbyte)

lemma byte_values_iff:
  "list_all is_byte_value vs \<longleftrightarrow> vs = map jbyte (map byte_of_value vs)"
  by (induction vs) (simp_all flip: is_byte_value_iff)

lemma list_all_jbyte [simp]: "list_all is_byte_value (map jbyte bs)"
  by (simp add: list.pred_map comp_def list_all_iff)

lemma map_byte_of_jbyte [simp]: "map byte_of_value (map jbyte bs) = bs"
  by (simp add: comp_def)

lemma to32Bytes_length: "to32Bytes H v = Inr b \<Longrightarrow> length b = 32"
  by (auto simp: to32Bytes_def split: if_splits)

lemma to32Bytes_JBytes [simp, norm_simps]:
  "length b = 32 \<Longrightarrow> to32Bytes H (JBytes b) = Inr b"
  by (simp add: to32Bytes_def)

lemma to32Bytes_JArray [simp, norm_simps]:
  "length b = 32 \<Longrightarrow> to32Bytes H (JArray (map jbyte b)) = Inr b"
  by (simp add: to32Bytes_def validateByteArray_ok comp_def)

lemma to32Bytes_hex [simp, norm_simps]:
  "length b = 32 \<Longrightarrow> to32Bytes H (JString (hex_of_bytes b)) = Inr b"
  by (simp add: to32Bytes_def decodeFixed32_def)

lemma to32Bytes_base58 [norm_simps]:
  assumes "host_ok H" "length b = 32"
  shows "to32Bytes H (JString (toBase58 H b)) = Inr b"
proof -
  have "base58_text (toBase58 H b)" "length (toBase58 H b) \<noteq> 64"
    using toBase58_text [OF assms] by (auto simp: base58_text_def)
  then show ?thesis
    using assms by (simp add: to32Bytes_def decodeFixed32_def fromBase58_toBase58)
qed

lemma decodeFixed32_ok:
  assumes "host_ok H"
  shows "decodeFixed32 H v = Inr b \<longleftrightarrow>
    (\<exists>s. v = JString s \<and> (length s = 64 \<and> is_hex s \<and> b = bytes_of_hex s \<or>
       length b = 32 \<and> s = toBase58 H b))"
proof
  assume "decodeFixed32 H v = Inr b"
  then show "\<exists>s. v = JString s \<and> (length s = 64 \<and> is_hex s \<and> b = bytes_of_hex s \<or>
       length b = 32 \<and> s = toBase58 H b)"
    using fromBase58_length [OF assms]
    by (auto simp: decodeFixed32_def split: jsval.splits if_splits option.splits)
next
  assume "\<exists>s. v = JString s \<and> (length s = 64 \<and> is_hex s \<and> b = bytes_of_hex s \<or>
       length b = 32 \<and> s = toBase58 H b)"
  then obtain s where v: "v = JString s" and s: "length s = 64 \<and> is_hex s \<and> b = bytes_of_hex s \<or>
       length b = 32 \<and> s = toBase58 H b" by blast
  show "decodeFixed32 H v = Inr b"
  proof (cases "length s = 64 \<and> is_hex s")
    case True
    then have "s \<noteq> toBase58 H b" if "length b = 32"
      using toBase58_text [OF assms that] by (auto simp: base58_text_def)
    with True s v show ?thesis by (auto simp: decodeFixed32_def)
  next
    case False
    with s have "length b = 32" "s = toBase58 H b" by auto
    with assms False show ?thesis
      unfolding v decodeFixed32_def jsval.case by (auto simp: fromBase58_toBase58 toBase58_text)
  qed
qed

lemma validateByteArray_result: "validateByteArray vs = Inr u \<Longrightarrow> \<exists>bs. vs = map jbyte bs"
  unfolding validateByteArray_ok using byte_values_iff by metis

text \<open>
  The inputs \<open>to32Bytes\<close> turns into \<open>b\<close>: raw bytes, a number array, 64 hexadecimal
  characters in either case, or the canonical Base58 text; nothing else.
\<close>

lemma to32Bytes_ok:
  assumes "host_ok H"
  shows "to32Bytes H v = Inr b \<longleftrightarrow>
    length b = 32 \<and>
    (v = JBytes b \<or> v = JArray (map jbyte b) \<or> v = JString (toBase58 H b) \<or>
     (\<exists>s. v = JString s \<and> length s = 64 \<and> is_hex s \<and> bytes_of_hex s = b))"
    (is "?l \<longleftrightarrow> ?r")
proof
  assume l: ?l
  then have len: "length b = 32" by (rule to32Bytes_length)
  show ?r
  proof (cases v)
    case (JArray vs)
    with l obtain bs where "vs = map jbyte bs" "b = map byte_of_value vs"
      by (auto simp: to32Bytes_def split: if_splits dest: validateByteArray_result)
    with JArray len show ?thesis by (simp add: comp_def)
  qed (use l len in \<open>auto simp: to32Bytes_def decodeFixed32_ok [OF assms] split: if_splits\<close>)
next
  assume r: ?r
  then consider "v = JBytes b" | "v = JArray (map jbyte b)" | "v = JString (toBase58 H b)"
    | s where "v = JString s" "length s = 64" "is_hex s" "bytes_of_hex s = b"
    by blast
  then show ?l
    using r assms by cases (simp_all add: to32Bytes_base58 del: map_map, simp add: to32Bytes_def decodeFixed32_def)
qed

lemma accountPublicKey_length: "accountPublicKey H v = Inr k \<Longrightarrow> length k = 32"
  by (auto simp: accountPublicKey_def publicKeyBytes_def to32Bytes_length
      split: jsval.splits if_splits option.splits)

lemma accountPublicKey_to32Bytes:
  "to32Bytes H v = Inr k \<Longrightarrow> accountPublicKey H v = Inr k"
  by (cases v) (auto simp: accountPublicKey_def publicKeyBytes_def to32Bytes_def decodeFixed32_def)

lemma accountPublicKey_JPubKey [simp]: "length k = 32 \<Longrightarrow> accountPublicKey H (JPubKey k) = Inr k"
  by (simp add: accountPublicKey_def publicKeyBytes_def)

lemma accountPublicKey_JBytes [simp]: "length k = 32 \<Longrightarrow> accountPublicKey H (JBytes k) = Inr k"
  by (simp add: accountPublicKey_def publicKeyBytes_def)

lemma accountPublicKey_base58 [norm_simps]:
  "host_ok H \<Longrightarrow> length k = 32 \<Longrightarrow> accountPublicKey H (JString (toBase58 H k)) = Inr k"
  by (simp add: accountPublicKey_to32Bytes to32Bytes_base58)

text \<open>An arbitrary-length payload given as a string is hexadecimal only.\<close>

lemma toBytes_JString:
  "toBytes H (JString s) = Inr b \<longleftrightarrow> even (length s) \<and> is_hex s \<and> b = bytes_of_hex s"
  by (auto simp: toBytes_def publicKeyBytes_def decodeHex_def)

lemma toBytes_JBytes [simp]: "toBytes H (JBytes b) = Inr b"
  by (simp add: toBytes_def publicKeyBytes_def)

lemma toBytes_JArray [simp]: "toBytes H (JArray (map jbyte b)) = Inr b"
  by (simp add: toBytes_def publicKeyBytes_def validateByteArray_ok comp_def)

lemma toBytes_hex [simp]: "toBytes H (JString (hex_of_bytes b)) = Inr b"
  by (simp add: toBytes_JString)

section \<open>Integers: ranges\<close>

lemma toBigInt_simps [simp, norm_simps]:
  "toBigInt H (JBigInt i) = Inr i"
  "toBigInt H (JBN i) = Inr i"
  "toBigInt H (jint i) = Inr i"
  by (simp_all add: toBigInt_def valueString_def bigintOfString_def)

lemma asI64_ok [ok_iff]: "asI64 H v = Inr i \<longleftrightarrow> toBigInt H v = Inr i \<and> i64_range i"
  by (cases "toBigInt H v") (auto simp: asI64_def i64_range_def)

lemma asU64_ok [ok_iff]: "asU64 H v = Inr i \<longleftrightarrow> toBigInt H v = Inr i \<and> u64_range i"
  by (cases "toBigInt H v") (auto simp: asU64_def u64_range_def)

lemma toI64Bytes_ok [ok_iff]:
  "toI64Bytes H v = Inr b \<longleftrightarrow> (\<exists>i. asI64 H v = Inr i \<and> b = le64 i)"
  by (auto simp: toI64Bytes_def)

lemma toU64Bytes_ok [ok_iff]:
  "toU64Bytes H v = Inr b \<longleftrightarrow> (\<exists>i. asU64 H v = Inr i \<and> b = le64 i)"
  by (auto simp: toU64Bytes_def)

text \<open>\<open>numberToU64\<close> floors and saturates; its only failures are non-finite and
  negative numbers.\<close>

lemma numberToU64_finite:
  "numberToU64 (JNumber (Finite r)) =
    (if r < 0 then Inl (Error ''value must be non-negative'') else Inr (min \<lfloor>r\<rfloor> (2 ^ 64 - 1)))"
  by (auto simp: numberToU64_def Let_def min_def)

lemma numberToU64_range: "numberToU64 v = Inr i \<Longrightarrow> u64_range i"
  by (auto simp: numberToU64_def u64_range_def Let_def split: jsval.splits jsnum.splits if_splits)

lemma coerceBigInt_simps [simp, norm_simps]:
  "coerceBigInt H (JBigInt i) = Inr i"
  "coerceBigInt H (JBN i) = Inr i"
  "coerceBigInt H (jint i) = Inr i"
  by (simp_all add: coerceBigInt_def coerceNumericLike_def truthy_def valueString_def bigintOfString_def)

end
