(* ===== verification/HashSource.thy ===== *)
theory HashSource
  imports Normalization
begin

text \<open>
  \<open>app/sdk/types.ts\<close> and \<open>app/sdk/protocol/source.ts\<close>: the public data contracts,
  the source tags, the branch generation and the allocated account sizes.
  Fields whose TypeScript type is a union of representations (\<open>HashBytes\<close>,
  \<open>NumericLike\<close>, \<open>PublicKey | HashBytes\<close>) hold a \<open>jsval\<close>.
\<close>

section \<open>Data contracts\<close>

definition HASH_ACCOUNT_BASE_SIZE :: nat where
  "HASH_ACCOUNT_BASE_SIZE = 8 + 32 + 8 + 8 + 1"

definition VOTE_INFO_SPACE :: nat where
  "VOTE_INFO_SPACE = 8 + 32 + 32 + 8 + 1 + 7"

datatype hash_kind = KHash | KAccount | KBranch | KBatch | KPack

text \<open>The numeric value of the enum \<open>HashSourceKind\<close>.\<close>

fun kind_number :: "hash_kind \<Rightarrow> nat" where
  "kind_number KHash = 0"
| "kind_number KAccount = 1"
| "kind_number KBranch = 2"
| "kind_number KBatch = 3"
| "kind_number KPack = 4"

datatype hash_source =
    SHash
  | SAccount jsval
  | SBranch jsval jsval int
  | SBatch "jsval list"
  | SPack

record account_snapshot_input =
  snap_owner :: jsval
  snap_lamports :: jsval
  snap_executable :: bool
  snap_rentEpoch :: jsval
  snap_data :: jsval

record fingerprint_input =
  fp_hash :: jsval
  fp_sourceKind :: jsval
  fp_createdAt :: jsval
  fp_generation :: jsval

datatype restore_params =
    PHash jsval
  | PAccount "account_snapshot_input option"
  | PBranch fingerprint_input
  | PBatch "fingerprint_input list"
  | PPack "fingerprint_input list"

record restore_proof_input =
  link_hash :: jsval
  link_source :: hash_source
  link_createdAt :: jsval
  link_params :: "restore_params option"

record member_input =
  mem_hash :: jsval
  mem_kind :: jsval
  mem_createdAt :: jsval

section \<open>Source tags\<close>

fun source_kind :: "hash_source \<Rightarrow> hash_kind" where
  "source_kind SHash = KHash"
| "source_kind (SAccount a) = KAccount"
| "source_kind (SBranch p q g) = KBranch"
| "source_kind (SBatch ms) = KBatch"
| "source_kind SPack = KPack"

text \<open>A branch source holds the previous canonical ID, the payload and the generation.\<close>

text \<open>The object literal a \<open>HashSource\<close> is at run time.\<close>

fun source_object :: "hash_source \<Rightarrow> jsval" where
  "source_object SHash = JObject [(''kind'', JString ''hash'')]"
| "source_object (SAccount a) = JObject [(''kind'', JString ''account''), (''account'', a)]"
| "source_object (SBranch p q g) = JObject
     [(''kind'', JString ''branch''), (''previousHashId'', p), (''payload'', q), (''generation'', JBigInt g)]"
| "source_object (SBatch ms) = JObject [(''kind'', JString ''batch''), (''members'', JArray ms)]"
| "source_object SPack = JObject [(''kind'', JString ''pack'')]"

definition generationFromSource :: "hash_source \<Rightarrow> int" where
  "generationFromSource source = (case source of SBranch p q g \<Rightarrow> g | _ \<Rightarrow> 0)"

text \<open>
  \<open>hashSourceKindOf\<close> accepts an enum number, an IDL variant object such as
  \<open>{branch: {...}}\<close>, or a \<open>HashSource\<close>; the variant names are tried first, in the
  order of the source. The messages leave out the offending value the source appends.
\<close>

definition hashSourceKindOf :: "jsval \<Rightarrow> hash_kind result" where
  "hashSourceKindOf source = (case source of
      JNumber (Finite r) \<Rightarrow>
        if \<not> is_integer r \<or> r < 0 \<or> r > 4 then Inl (Error ''invalid hash source kind'')
        else Inr ([KHash, KAccount, KBranch, KBatch, KPack] ! nat \<lfloor>r\<rfloor>)
    | JNumber _ \<Rightarrow> Inl (Error ''invalid hash source kind'')
    | JObject raw \<Rightarrow>
        if read_prop raw ''hash'' \<noteq> JUndefined then Inr KHash
        else if read_prop raw ''account'' \<noteq> JUndefined then Inr KAccount
        else if read_prop raw ''branch'' \<noteq> JUndefined then Inr KBranch
        else if read_prop raw ''batch'' \<noteq> JUndefined then Inr KBatch
        else if read_prop raw ''pack'' \<noteq> JUndefined then Inr KPack
        else if read_prop raw ''kind'' = JString ''hash'' then Inr KHash
        else if read_prop raw ''kind'' = JString ''account'' then Inr KAccount
        else if read_prop raw ''kind'' = JString ''branch'' then Inr KBranch
        else if read_prop raw ''kind'' = JString ''batch'' then Inr KBatch
        else if read_prop raw ''kind'' = JString ''pack'' then Inr KPack
        else Inl (Error ''invalid hash source'')
    | _ \<Rightarrow> Inl (Error ''invalid hash source''))"

fun serializedSizeForHashSourceKind :: "hash_kind \<Rightarrow> hash_source option \<Rightarrow> nat" where
  "serializedSizeForHashSourceKind KHash source = 1 + 6"
| "serializedSizeForHashSourceKind KAccount source = 1 + 32 + 6"
| "serializedSizeForHashSourceKind KBranch source = 1 + 32 + 32 + 8 + 6"
| "serializedSizeForHashSourceKind KBatch source =
     (let members = (case source of Some (SBatch ms) \<Rightarrow> ms | _ \<Rightarrow> [])
      in 1 + 4 + length members * 32 + 2)"
| "serializedSizeForHashSourceKind KPack source = 1 + 6"

definition hashAccountSpace :: "hash_source \<Rightarrow> nat result" where
  "hashAccountSpace source = bindE (hashSourceKindOf (source_object source)) (\<lambda>kind.
     Inr (HASH_ACCOUNT_BASE_SIZE + serializedSizeForHashSourceKind kind (Some source)))"

definition normalizeSourceKind :: "jsval \<Rightarrow> nat result" where
  "normalizeSourceKind value = bindE (hashSourceKindOf value) (\<lambda>kind. Inr (kind_number kind))"

section \<open>Facts\<close>

definition kind_of_number :: "nat \<Rightarrow> hash_kind option" where
  "kind_of_number n = (if n < 5 then Some ([KHash, KAccount, KBranch, KBatch, KPack] ! n) else None)"

lemma kind_number_less: "kind_number k < 5"
  by (cases k) auto

lemma kind_of_kind_number [simp]: "kind_of_number (kind_number k) = Some k"
  by (cases k) (simp_all add: kind_of_number_def)

interpretation kind_tag: codec kind_number kind_of_number "\<lambda>_. True"
  by unfold_locales simp

lemma kind_number_inject [simp]: "kind_number j = kind_number k \<longleftrightarrow> j = k"
  using kind_tag.enc_inject by blast

lemma read_prop_Cons [simp]:
  "read_prop [] k = JUndefined"
  "read_prop ((k', v) # obj) k = (if k' = k then v else read_prop obj k)"
  by (simp_all add: read_prop_def)

lemma hashSourceKindOf_object [simp, norm_simps]:
  "hashSourceKindOf (source_object s) = Inr (source_kind s)"
  by (cases s) (auto simp: hashSourceKindOf_def)

declare source_object.simps [simp del]

lemma hashSourceKindOf_number [simp, norm_simps]:
  "hashSourceKindOf (jint (int (kind_number k))) = Inr k"
  by (cases k) (simp_all add: hashSourceKindOf_def)

lemma hashSourceKindOf_of_nat [simp, norm_simps]:
  "hashSourceKindOf (JNumber (Finite (of_nat (kind_number k)))) = Inr k"
  using hashSourceKindOf_number [of k] by simp

lemma hashSourceKindOf_literals [simp, norm_simps]:
  "hashSourceKindOf (JNumber (Finite 0)) = Inr KHash"
  "hashSourceKindOf (JNumber (Finite 1)) = Inr KAccount"
  "hashSourceKindOf (JNumber (Finite 2)) = Inr KBranch"
  "hashSourceKindOf (JNumber (Finite 3)) = Inr KBatch"
  "hashSourceKindOf (JNumber (Finite 4)) = Inr KPack"
  by (simp_all add: hashSourceKindOf_def)

lemma hashAccountSpace_eq:
  "hashAccountSpace s = Inr (case s of
     SHash \<Rightarrow> 64 | SAccount a \<Rightarrow> 96 | SBranch p q g \<Rightarrow> 136 | SBatch ms \<Rightarrow> 64 + 32 * length ms | SPack \<Rightarrow> 64)"
  unfolding hashAccountSpace_def hashSourceKindOf_object bindE_simps
  by (cases s) (simp_all add: HASH_ACCOUNT_BASE_SIZE_def)

end
