(* ===== verification/Hashes.thy ===== *)
theory Hashes
  imports HashSource
begin

text \<open>
  \<open>app/sdk/protocol/hashes.ts\<close> and \<open>addresses.ts\<close>: the digests and program
  addresses of the protocol. Each digest is SHA-256 of a fixed byte framing; the framings
  are separate definitions, and each is shown to be a codec, so two different inputs never
  share a preimage.
\<close>

section \<open>Framings\<close>

text \<open>\<open>update\<close> calls on a hasher concatenate; the framings list them in order.\<close>

definition canonical_frame :: "bytes \<Rightarrow> hash_kind \<Rightarrow> bytes" where
  "canonical_frame hash kind = hash @ [of_nat (kind_number kind)]"

definition toBoolByte :: "bool \<Rightarrow> bytes" where
  "toBoolByte value = [if value then 1 else 0]"

definition snapshot_frame :: "bytes \<Rightarrow> bytes \<Rightarrow> int \<Rightarrow> bool \<Rightarrow> int \<Rightarrow> bytes \<Rightarrow> bytes" where
  "snapshot_frame account owner lamports executable rentEpoch data =
     account @ owner @ le64 lamports @ toBoolByte executable @ le64 rentEpoch @ data"

definition branch_frame :: "bytes \<Rightarrow> hash_kind \<Rightarrow> int \<Rightarrow> int \<Rightarrow> bytes \<Rightarrow> bytes" where
  "branch_frame previousId previousKind createdAt generation payload =
     previousId @ [of_nat (kind_number previousKind)] @ le64 createdAt @ le64 generation @ payload"

definition member_frame :: "bytes \<times> hash_kind \<times> int \<Rightarrow> bytes" where
  "member_frame m = (case m of (hash, kind, createdAt) \<Rightarrow>
     hash @ [of_nat (kind_number kind)] @ le64 createdAt)"

section \<open>Digests\<close>

text \<open>\<open>AccountInfo\<close> of web3.js: owner key, lamports, executable flag, rent epoch (may be
  missing) and data.\<close>

record account_info =
  info_owner :: bytes
  info_lamports :: jsval
  info_executable :: bool
  info_rentEpoch :: jsval
  info_data :: bytes

definition canonicalHashId :: "host \<Rightarrow> jsval \<Rightarrow> jsval \<Rightarrow> bytes result" where
  "canonicalHashId H hash source =
     bindE (hashSourceKindOf source) (\<lambda>kind.
     bindE (to32Bytes H hash) (\<lambda>bytes.
     Inr (sha256 H (canonical_frame bytes kind))))"

definition deriveGenesisHashId :: "host \<Rightarrow> jsval \<Rightarrow> bytes result" where
  "deriveGenesisHashId H hash = canonicalHashId H hash (jint 0)"

definition deriveAccountMetadataHash :: "host \<Rightarrow> bytes \<Rightarrow> account_info \<Rightarrow> bytes result" where
  "deriveAccountMetadataHash H account info =
     bindE (numberToU64 (info_lamports info)) (\<lambda>lamports.
     bindE (numberToU64 (info_rentEpoch info)) (\<lambda>rentEpoch.
     Inr (sha256 H (snapshot_frame account (info_owner info) lamports (info_executable info)
       rentEpoch (info_data info)))))"

definition deriveAccountHashId :: "host \<Rightarrow> bytes \<Rightarrow> account_info \<Rightarrow> bytes result" where
  "deriveAccountHashId H account info =
     bindE (deriveAccountMetadataHash H account info) (\<lambda>metadataHash.
     canonicalHashId H (JBytes metadataHash) (jint 1))"

definition deriveAccountSnapshotHash ::
    "host \<Rightarrow> jsval \<Rightarrow> account_snapshot_input \<Rightarrow> bytes result" where
  "deriveAccountSnapshotHash H account snapshot =
     bindE (accountPublicKey H account) (\<lambda>accountKey.
     bindE (accountPublicKey H (snap_owner snapshot)) (\<lambda>owner.
     bindE (asU64 H (snap_lamports snapshot)) (\<lambda>lamports.
     bindE (asU64 H (snap_rentEpoch snapshot)) (\<lambda>rentEpoch.
     bindE (toBytes H (snap_data snapshot)) (\<lambda>data.
     Inr (sha256 H (snapshot_frame accountKey owner lamports (snap_executable snapshot)
       rentEpoch data)))))))"

definition deriveBranchHash ::
    "host \<Rightarrow> jsval \<Rightarrow> jsval \<Rightarrow> jsval \<Rightarrow> jsval \<Rightarrow> jsval \<Rightarrow> bytes result" where
  "deriveBranchHash H previousCanonicalId previousCreatedAt previousGeneration
     previousSourceKind payload =
     bindE (to32Bytes H previousCanonicalId) (\<lambda>previousId.
     bindE (hashSourceKindOf previousSourceKind) (\<lambda>kind.
     bindE (asI64 H previousCreatedAt) (\<lambda>createdAt.
     bindE (asU64 H previousGeneration) (\<lambda>generation.
     bindE (to32Bytes H payload) (\<lambda>payloadBytes.
     Inr (sha256 H (branch_frame previousId kind createdAt generation payloadBytes)))))))"

definition deriveBranchHashId :: "host \<Rightarrow> jsval \<Rightarrow> bytes result" where
  "deriveBranchHashId H branchHash = canonicalHashId H branchHash (jint 2)"

text \<open>One turn of the loop of \<open>aggregateHashDigest\<close>: the checked fields of a member.\<close>

definition aggregate_member :: "host \<Rightarrow> member_input \<Rightarrow> (bytes \<times> hash_kind \<times> int) result" where
  "aggregate_member H member =
     bindE (to32Bytes H (mem_hash member)) (\<lambda>hash.
     bindE (hashSourceKindOf (mem_kind member)) (\<lambda>kind.
     bindE (asI64 H (mem_createdAt member)) (\<lambda>createdAt.
     Inr (hash, kind, createdAt))))"

definition aggregateHashDigest :: "host \<Rightarrow> member_input list \<Rightarrow> bytes result" where
  "aggregateHashDigest H members =
     bindE (mapE (aggregate_member H) members) (\<lambda>ms.
     Inr (sha256 H (concat (map member_frame ms))))"

definition derivePackHash :: "host \<Rightarrow> member_input list \<Rightarrow> bytes result" where
  "derivePackHash H members =
     (if length members = 0 then Inl (Error ''pack requires at least one member'')
      else aggregateHashDigest H members)"

definition derivePackHashId :: "host \<Rightarrow> jsval \<Rightarrow> bytes result" where
  "derivePackHashId H packHash = canonicalHashId H packHash (jint 4)"

definition deriveBatchHash :: "host \<Rightarrow> member_input list \<Rightarrow> bytes result" where
  "deriveBatchHash H members =
     (if length members = 0 then Inl (Error ''batch requires at least one member'')
      else aggregateHashDigest H members)"

definition deriveBatchHashId :: "host \<Rightarrow> jsval \<Rightarrow> bytes result" where
  "deriveBatchHashId H batchHash = canonicalHashId H batchHash (jint 3)"

section \<open>Program addresses\<close>

definition ascii :: "string \<Rightarrow> bytes" where
  "ascii s = map (\<lambda>c. of_nat (of_char c)) s"

text \<open>\<open>PublicKey.findProgramAddressSync\<close>, which throws when no bump is viable.\<close>

definition findPda :: "host \<Rightarrow> bytes list \<Rightarrow> bytes \<Rightarrow> (bytes \<times> nat) result" where
  "findPda H seeds programId = (case findProgramAddress H seeds programId of
      Some pda \<Rightarrow> Inr pda
    | None \<Rightarrow> Inl (HostError ''findProgramAddressSync''))"

definition deriveHashPda :: "host \<Rightarrow> bytes \<Rightarrow> jsval \<Rightarrow> bytes result" where
  "deriveHashPda H programId hash =
     bindE (to32Bytes H hash) (\<lambda>hashBytes.
     bindE (findPda H [ascii ''hash'', hashBytes] programId) (\<lambda>(pda, bump). Inr pda))"

definition deriveVotePda :: "host \<Rightarrow> bytes \<Rightarrow> jsval \<Rightarrow> bytes \<Rightarrow> bytes result" where
  "deriveVotePda H programId hashId voter =
     bindE (to32Bytes H hashId) (\<lambda>hashIdBytes.
     bindE (findPda H [ascii ''vote'', voter, hashIdBytes] programId) (\<lambda>(pda, bump). Inr pda))"

section \<open>Framings are codecs\<close>

definition read_kind :: "byte \<Rightarrow> hash_kind option" where
  "read_kind b = kind_of_number (unat b)"

lemma read_kind_byte [simp]: "read_kind (of_nat (kind_number k)) = Some k"
  using kind_number_less [of k] by (simp add: read_kind_def unat_of_nat)

definition key32 :: "bytes \<Rightarrow> bool" where
  "key32 b \<longleftrightarrow> length b = 32"

definition read_canonical :: "bytes \<Rightarrow> (bytes \<times> hash_kind) option" where
  "read_canonical bs = (if length bs = 33
     then map_option (\<lambda>k. (take 32 bs, k)) (read_kind (bs ! 32)) else None)"

interpretation canonical_framing: fixed_codec "\<lambda>(h, k). canonical_frame h k" read_canonical
    "\<lambda>(h, k). key32 h" 33
  by unfold_locales (auto simp: read_canonical_def canonical_frame_def key32_def nth_append)

definition read_member :: "bytes \<Rightarrow> (bytes \<times> hash_kind \<times> int) option" where
  "read_member bs = (if length bs = 41 then
     (case (read_kind (bs ! 32), read_i64 (drop 33 bs)) of
        (Some k, Some t) \<Rightarrow> Some (take 32 bs, k, t) | _ \<Rightarrow> None) else None)"

definition valid_member :: "bytes \<times> hash_kind \<times> int \<Rightarrow> bool" where
  "valid_member m = (case m of (h, k, t) \<Rightarrow> key32 h \<and> i64_range t)"

interpretation member_framing: fixed_codec member_frame read_member valid_member 41
  by unfold_locales
    (auto simp: read_member_def member_frame_def valid_member_def key32_def nth_append read_i64_le64)

definition read_branch :: "bytes \<Rightarrow> (bytes \<times> hash_kind \<times> int \<times> int \<times> bytes) option" where
  "read_branch bs = (if length bs = 81 then
     (case (read_kind (bs ! 32), read_i64 (take 8 (drop 33 bs)), read_u64 (take 8 (drop 41 bs))) of
        (Some k, Some t, Some g) \<Rightarrow> Some (take 32 bs, k, t, g, drop 49 bs) | _ \<Rightarrow> None) else None)"

interpretation branch_framing: fixed_codec "\<lambda>(p, k, t, g, q). branch_frame p k t g q" read_branch
    "\<lambda>(p, k, t, g, q). key32 p \<and> i64_range t \<and> u64_range g \<and> key32 q" 81
  by unfold_locales
    (auto simp: read_branch_def branch_frame_def key32_def nth_append read_i64_le64 u64_bytes.dec_enc)

definition read_snapshot :: "bytes \<Rightarrow> (bytes \<times> bytes \<times> int \<times> bool \<times> int \<times> bytes) option" where
  "read_snapshot bs =
     (case (read_u64 (take 8 (drop 64 bs)), read_u64 (take 8 (drop 73 bs))) of
        (Some l, Some r) \<Rightarrow>
          Some (take 32 bs, take 32 (drop 32 bs), l, bs ! 72 = 1, r, drop 81 bs)
      | _ \<Rightarrow> None)"

interpretation snapshot_framing: codec "\<lambda>(a, w, l, e, r, d). snapshot_frame a w l e r d" read_snapshot
    "\<lambda>(a, w, l, e, r, d). key32 a \<and> key32 w \<and> u64_range l \<and> u64_range r"
  by unfold_locales
    (auto simp: read_snapshot_def snapshot_frame_def toBoolByte_def key32_def nth_append u64_bytes.dec_enc)

end
