(* ===== verification/Encoding.thy ===== *)
theory Encoding
  imports Hashes
begin

text \<open>
  \<open>app/sdk/encoding.ts\<close>, \<open>wire.ts\<close> and \<open>restore.ts\<close>: the values handed to
  Anchor for a Restore instruction, the reading of an IDL source enum, and the choice of
  the records a restoration asks for.
\<close>

section \<open>Wire values\<close>

text \<open>The IDL-derived types of \<open>wire.ts\<close>; a BN is its integer, a key its bytes.\<close>

datatype wire_source =
    WHash
  | WAccount bytes
  | WBranch bytes bytes int
  | WBatch "bytes list"
  | WPack

record wire_snapshot =
  ws_owner :: bytes
  ws_lamports :: int
  ws_executable :: bool
  ws_rentEpoch :: int
  ws_data :: bytes

record wire_fingerprint =
  wf_hash :: bytes
  wf_sourceKind :: nat
  wf_createdAt :: int
  wf_generation :: int

datatype wire_params =
    WPHash bytes
  | WPAccount "wire_snapshot option"
  | WPBranch wire_fingerprint
  | WPBatch "wire_fingerprint list"
  | WPPack "wire_fingerprint list"

record wire_link =
  wl_hash :: bytes
  wl_source :: wire_source
  wl_createdAt :: int
  wl_params :: "wire_params option"

text \<open>The object Anchor exchanges for a source: byte arrays are number arrays.\<close>

fun wire_source_object :: "wire_source \<Rightarrow> jsval" where
  "wire_source_object WHash = JObject [(''hash'', JObject [])]"
| "wire_source_object (WAccount k) = JObject [(''account'', JObject [(''account'', JPubKey k)])]"
| "wire_source_object (WBranch p q g) = JObject [(''branch'', JObject
     [(''previousHashId'', JArray (map jbyte p)), (''payload'', JArray (map jbyte q)),
      (''generation'', JBN g)])]"
| "wire_source_object (WBatch ms) = JObject [(''batch'', JObject
     [(''members'', JArray (map (\<lambda>m. JArray (map jbyte m)) ms))])]"
| "wire_source_object WPack = JObject [(''pack'', JObject [])]"

section \<open>Decoding an IDL source\<close>

text \<open>\<open>toLowerCase\<close> on code units below 256.\<close>

definition lower_char :: "char \<Rightarrow> char" where
  "lower_char c = (let n = of_char c :: nat in
     if 65 \<le> n \<and> n \<le> 90 \<or> 192 \<le> n \<and> n \<le> 222 \<and> n \<noteq> 215 then char_of (n + 32) else c)"

text \<open>The first of the named fields that is neither \<open>undefined\<close> nor \<open>null\<close>.\<close>

fun pickField :: "jsval \<Rightarrow> string list \<Rightarrow> jsval" where
  "pickField (JObject obj) (key # ks) =
     (if read_prop obj key \<noteq> JUndefined \<and> read_prop obj key \<noteq> JNull
      then read_prop obj key else pickField (JObject obj) ks)"
| "pickField _ _ = JUndefined"

definition decodeHashSource :: "host \<Rightarrow> jsval \<Rightarrow> hash_source result" where
  "decodeHashSource H raw = (case raw of
      JObject ((variantRaw, value) # entries) \<Rightarrow>
        (let variant = map lower_char variantRaw in
         if variant = ''hash'' then Inr SHash
         else if variant = ''account'' then
           (let accountValue = pickField value [''account'', ''pubkey'', ''pubKey'', ''key''];
                resolved = (if accountValue = JUndefined then value else accountValue)
            in bindE (accountPublicKey H resolved) (\<lambda>k. Inr (SAccount (JBytes k))))
         else if variant = ''branch'' then
           (let previous = pickField value [''previousHashId'', ''previous_hash_id'', ''previousHashID''];
                payload = pickField value [''payload''];
                generationValue = pickField value [''generation''];
                generation = (if generationValue = JUndefined then jint 0 else generationValue)
            in if \<not> truthy previous \<or> \<not> truthy payload
               then Inl (Error ''branch source missing previous hash or payload'')
               else bindE (to32Bytes H previous) (\<lambda>p.
                    bindE (to32Bytes H payload) (\<lambda>q.
                    bindE (coerceBigInt H generation) (\<lambda>g.
                    Inr (SBranch (JBytes p) (JBytes q) g)))))
         else if variant = ''batch'' then
           (let membersArray = (case pickField value [''members''] of JArray ms \<Rightarrow> ms | _ \<Rightarrow> [])
            in bindE (mapE (to32Bytes H) membersArray) (\<lambda>ms. Inr (SBatch (map JBytes ms))))
         else if variant = ''pack'' then Inr SPack
         else Inr SHash)
    | _ \<Rightarrow> Inr SHash)"

section \<open>Encoding for Anchor\<close>

definition clampU64 :: "int \<Rightarrow> int" where
  "clampU64 value =
     (if value < 0 then 0
      else let max = 0xffffffffffffffff in if value > max then max else value)"

definition encodeAccountSnapshot ::
    "host \<Rightarrow> account_snapshot_input option \<Rightarrow> wire_snapshot option result" where
  "encodeAccountSnapshot H snapshot = (case snapshot of
      None \<Rightarrow> Inr None
    | Some s \<Rightarrow>
        bindE (accountPublicKey H (snap_owner s)) (\<lambda>owner.
        bindE (toBigInt H (snap_lamports s)) (\<lambda>lamportsBig.
        bindE (toBigInt H (snap_rentEpoch s)) (\<lambda>rentEpochBig.
        bindE (toBytes H (snap_data s)) (\<lambda>dataBytes.
        Inr (Some \<lparr>ws_owner = owner, ws_lamports = clampU64 lamportsBig,
          ws_executable = snap_executable s, ws_rentEpoch = clampU64 rentEpochBig,
          ws_data = dataBytes\<rparr>))))))"

fun encodeHashSource :: "host \<Rightarrow> hash_source \<Rightarrow> wire_source result" where
  "encodeHashSource H SHash = Inr WHash"
| "encodeHashSource H (SAccount a) = bindE (accountPublicKey H a) (\<lambda>key. Inr (WAccount key))"
| "encodeHashSource H (SBranch previousHashId payload generation) =
     bindE (to32Bytes H previousHashId) (\<lambda>p.
     bindE (to32Bytes H payload) (\<lambda>q.
     bindE (asU64 H (JBigInt generation)) (\<lambda>g.
     Inr (WBranch p q g))))"
| "encodeHashSource H (SBatch members) =
     bindE (mapE (to32Bytes H) members) (\<lambda>ms. Inr (WBatch ms))"
| "encodeHashSource H SPack = Inr WPack"

definition encodeFingerprint :: "host \<Rightarrow> fingerprint_input \<Rightarrow> wire_fingerprint result" where
  "encodeFingerprint H fingerprint =
     bindE (to32Bytes H (fp_hash fingerprint)) (\<lambda>hash.
     bindE (normalizeSourceKind (fp_sourceKind fingerprint)) (\<lambda>kind.
     bindE (asI64 H (fp_createdAt fingerprint)) (\<lambda>createdAt.
     bindE (asU64 H (fp_generation fingerprint)) (\<lambda>generation.
     Inr \<lparr>wf_hash = hash, wf_sourceKind = kind, wf_createdAt = createdAt,
       wf_generation = generation\<rparr>))))"

fun encodeRestoreParameters :: "host \<Rightarrow> restore_params \<Rightarrow> wire_params result" where
  "encodeRestoreParameters H (PHash payload) =
     bindE (toBytes H payload) (\<lambda>payloadBytes. Inr (WPHash payloadBytes))"
| "encodeRestoreParameters H (PAccount snapshot) =
     bindE (encodeAccountSnapshot H snapshot) (\<lambda>s. Inr (WPAccount s))"
| "encodeRestoreParameters H (PBranch parent) =
     bindE (encodeFingerprint H parent) (\<lambda>f. Inr (WPBranch f))"
| "encodeRestoreParameters H (PBatch members) =
     bindE (mapE (encodeFingerprint H) members) (\<lambda>fs. Inr (WPBatch fs))"
| "encodeRestoreParameters H (PPack members) =
     bindE (mapE (encodeFingerprint H) members) (\<lambda>fs. Inr (WPPack fs))"

section \<open>Preparing a Restore instruction\<close>

record prepared_restore =
  proofEncoded :: "wire_link list"
  anchorId :: bytes
  restoredIds :: "bytes list"

definition encode_link :: "host \<Rightarrow> restore_proof_input \<Rightarrow> wire_link result" where
  "encode_link H entry =
     bindE (to32Bytes H (link_hash entry)) (\<lambda>hash.
     bindE (encodeHashSource H (link_source entry)) (\<lambda>source.
     bindE (asI64 H (link_createdAt entry)) (\<lambda>createdAt.
     bindE (case link_params entry of
         None \<Rightarrow> Inr None
       | Some params \<Rightarrow> bindE (encodeRestoreParameters H params) (\<lambda>p. Inr (Some p))) (\<lambda>params.
     Inr \<lparr>wl_hash = hash, wl_source = source, wl_createdAt = createdAt, wl_params = params\<rparr>))))"

definition link_id :: "host \<Rightarrow> restore_proof_input \<Rightarrow> bytes result" where
  "link_id H entry =
     bindE (to32Bytes H (link_hash entry)) (\<lambda>hash.
     canonicalHashId H (JBytes hash) (source_object (link_source entry)))"

definition prepareRestore ::
    "host \<Rightarrow> restore_proof_input list \<Rightarrow> bool \<Rightarrow> prepared_restore result" where
  "prepareRestore H proof createAccounts =
     bindE (mapE (encode_link H) proof) (\<lambda>encoded.
     bindE (case proof of
         entry # _ \<Rightarrow> link_id H entry
       | [] \<Rightarrow> canonicalHashId H (JBytes (replicate 32 0)) (jint 0)) (\<lambda>anchor.
     let selection = (if createAccounts
           then filter (\<lambda>entry. link_params entry \<noteq> None) (drop 1 proof) else [])
     in bindE (foldE (\<lambda>ids entry.
          bindE (link_id H entry) (\<lambda>entryCanonical.
          if entryCanonical = anchor
          then Inl (Error ''restore selection must not include the anchor hash'')
          else Inr (ids @ [entryCanonical]))) [] selection) (\<lambda>ids.
     Inr \<lparr>proofEncoded = encoded, anchorId = anchor, restoredIds = ids\<rparr>)))"

section \<open>Decoding what was encoded\<close>

text \<open>The source a wire value stands for, in the representation \<open>decodeHashSource\<close> returns.\<close>

fun source_of_wire :: "wire_source \<Rightarrow> hash_source" where
  "source_of_wire WHash = SHash"
| "source_of_wire (WAccount k) = SAccount (JBytes k)"
| "source_of_wire (WBranch p q g) = SBranch (JBytes p) (JBytes q) g"
| "source_of_wire (WBatch ms) = SBatch (map JBytes ms)"
| "source_of_wire WPack = SPack"

definition wire_source_ok :: "wire_source \<Rightarrow> bool" where
  "wire_source_ok w = (case w of
      WAccount k \<Rightarrow> key32 k
    | WBranch p q g \<Rightarrow> key32 p \<and> key32 q \<and> u64_range g
    | WBatch ms \<Rightarrow> list_all key32 ms
    | _ \<Rightarrow> True)"

lemma mapE_to32Bytes_length: "mapE (to32Bytes H) vs = Inr ms \<Longrightarrow> list_all key32 ms"
  by (auto simp: list_all_iff key32_def dest!: mapE_set to32Bytes_length)

lemma mapE_to32Bytes_JBytes [simp]:
  "list_all key32 ms \<Longrightarrow> mapE (to32Bytes H) (map JBytes ms) = Inr ms"
  by (induction ms) (auto simp: key32_def)

lemma mapE_to32Bytes_JArray [simp]:
  "list_all key32 ms \<Longrightarrow> mapE (to32Bytes H) (map (\<lambda>m. JArray (map jbyte m)) ms) = Inr ms"
  by (induction ms) (auto simp: key32_def)

lemma encodeHashSource_wf: "encodeHashSource H s = Inr w \<Longrightarrow> wire_source_ok w"
  by (cases s) (auto simp: wire_source_ok_def key32_def asU64_ok accountPublicKey_length
      to32Bytes_length mapE_to32Bytes_length)

lemma encode_source_of_wire: "wire_source_ok w \<Longrightarrow> encodeHashSource H (source_of_wire w) = Inr w"
  by (cases w) (auto simp: wire_source_ok_def key32_def [symmetric] asU64_ok)

lemma decode_wire_source_object:
  "wire_source_ok w \<Longrightarrow> decodeHashSource H (wire_source_object w) = Inr (source_of_wire w)"
  by (cases w) (auto simp: wire_source_ok_def decodeHashSource_def lower_char_def truthy_def Let_def key32_def)

lemma encode_preserves_kind: "encodeHashSource H s = Inr w \<Longrightarrow> source_kind (source_of_wire w) = source_kind s"
  by (cases s) auto

interpretation source_wire: codec wire_source_object
    "\<lambda>raw. case decodeHashSource H raw of
       Inr s \<Rightarrow> (case encodeHashSource H s of Inr w \<Rightarrow> Some w | Inl _ \<Rightarrow> None) | Inl _ \<Rightarrow> None"
    wire_source_ok for H
  by unfold_locales (simp add: decode_wire_source_object encode_source_of_wire)

section \<open>What a Restore instruction asks for\<close>

definition restore_selection :: "restore_proof_input list \<Rightarrow> bool \<Rightarrow> restore_proof_input list" where
  "restore_selection proof createAccounts =
     (if createAccounts then filter (\<lambda>entry. link_params entry \<noteq> None) (tl proof) else [])"

lemma select_loop:
  "foldE (\<lambda>ids entry. bindE (link_id H entry) (\<lambda>c. if c = anchor then Inl e else Inr (ids @ [c]))) acc sel
     = Inr ids \<longleftrightarrow> (\<exists>cs. mapE (link_id H) sel = Inr cs \<and> anchor \<notin> set cs \<and> ids = acc @ cs)"
proof (induction sel arbitrary: acc)
  case (Cons x sel)
  show ?case
  proof (cases "link_id H x")
    case (Inr c)
    then show ?thesis using Cons [of "acc @ [c]"] by (auto simp: Inr)
  qed simp
qed auto

lemma prepareRestore_ok:
  "prepareRestore H proof create = Inr r \<longleftrightarrow>
     mapE (encode_link H) proof = Inr (proofEncoded r) \<and>
     (case proof of entry # _ \<Rightarrow> link_id H entry
      | [] \<Rightarrow> canonicalHashId H (JBytes (replicate 32 0)) (jint 0)) = Inr (anchorId r) \<and>
     mapE (link_id H) (restore_selection proof create) = Inr (restoredIds r) \<and>
     anchorId r \<notin> set (restoredIds r)"
  unfolding prepareRestore_def restore_selection_def
  by (cases r) (auto simp: select_loop drop_Suc Let_def)

end
