(* ===== verification/ArchiveModel.thy ===== *)
theory ArchiveModel
  imports Encoding
begin

text \<open>
  \<open>app/sdk/archive/model.ts\<close> and \<open>values.ts\<close>: the portable archive and the
  conversions between its text fields and the SDK's values.
\<close>

section \<open>The portable data\<close>

definition ARCHIVE_FORMAT :: string where
  "ARCHIVE_FORMAT = ''hash-timestamp-archive''"

definition ARCHIVE_VERSION :: int where
  "ARCHIVE_VERSION = 1"

datatype archive_source =
    AHash
  | AAccount string
  | ABranch string string string
  | ABatch "string list"
  | APack

record archive_snapshot =
  as_owner :: string
  as_lamports :: string
  as_executable :: bool
  as_rentEpoch :: string
  as_data :: "jsval list"

record archive_node =
  node_hash :: string
  node_source :: archive_source
  node_createdAt :: string
  node_members :: "string list option"
  node_snapshot :: "archive_snapshot option"

text \<open>The \<open>format\<close> and \<open>version\<close> fields have constant types and are not stored.\<close>

record hash_archive =
  arch_programId :: string
  arch_nodes :: "archive_node object"

fun archive_kind :: "archive_source \<Rightarrow> hash_kind" where
  "archive_kind AHash = KHash"
| "archive_kind (AAccount a) = KAccount"
| "archive_kind (ABranch p q g) = KBranch"
| "archive_kind (ABatch ms) = KBatch"
| "archive_kind APack = KPack"

section \<open>Conversions\<close>

definition archiveHex :: "host \<Rightarrow> jsval \<Rightarrow> string result" where
  "archiveHex H bytes = bindE (to32Bytes H bytes) (\<lambda>b. Inr (hex_of_bytes b))"

text \<open>\<open>new PublicKey(text)\<close>.\<close>

definition publicKeyOf :: "host \<Rightarrow> string \<Rightarrow> bytes result" where
  "publicKeyOf H s = (case fromBase58 H s of Some k \<Rightarrow> Inr k | None \<Rightarrow> Inl (HostError ''PublicKey''))"

fun archiveSource :: "host \<Rightarrow> hash_source \<Rightarrow> archive_source result" where
  "archiveSource H SHash = Inr AHash"
| "archiveSource H SPack = Inr APack"
| "archiveSource H (SAccount account) =
     bindE (accountPublicKey H account) (\<lambda>k. Inr (AAccount (toBase58 H k)))"
| "archiveSource H (SBranch previousHashId payload generation) =
     bindE (archiveHex H previousHashId) (\<lambda>p.
     bindE (archiveHex H payload) (\<lambda>q.
     Inr (ABranch p q (int_to_decimal generation))))"
| "archiveSource H (SBatch members) = bindE (mapE (archiveHex H) members) (\<lambda>ms. Inr (ABatch ms))"

fun sourceFromArchive :: "host \<Rightarrow> archive_source \<Rightarrow> hash_source result" where
  "sourceFromArchive H (ABranch previousHashId payload generation) =
     bindE (bigintOfString generation) (\<lambda>g.
     Inr (SBranch (JString previousHashId) (JString payload) g))"
| "sourceFromArchive H (AAccount account) =
     bindE (publicKeyOf H account) (\<lambda>k. Inr (SAccount (JPubKey k)))"
| "sourceFromArchive H AHash = Inr SHash"
| "sourceFromArchive H (ABatch members) = Inr (SBatch (map JString members))"
| "sourceFromArchive H APack = Inr SPack"

text \<open>\<open>[...value]\<close> on the representations of snapshot data; other values are not iterable.\<close>

definition spread :: "jsval \<Rightarrow> jsval list result" where
  "spread v = (case v of
      JArray vs \<Rightarrow> Inr vs
    | JBytes bs \<Rightarrow> Inr (map jbyte bs)
    | JString s \<Rightarrow> Inr (map (\<lambda>c. JString [c]) s)
    | _ \<Rightarrow> Inl (HostError ''spread''))"

definition archiveSnapshot :: "host \<Rightarrow> account_snapshot_input \<Rightarrow> archive_snapshot result" where
  "archiveSnapshot H snapshot =
     bindE (accountPublicKey H (snap_owner snapshot)) (\<lambda>owner.
     bindE (toBigInt H (snap_lamports snapshot)) (\<lambda>lamports.
     bindE (toBigInt H (snap_rentEpoch snapshot)) (\<lambda>rentEpoch.
     bindE (spread (snap_data snapshot)) (\<lambda>data.
     Inr \<lparr>as_owner = toBase58 H owner, as_lamports = int_to_decimal lamports,
       as_executable = snap_executable snapshot, as_rentEpoch = int_to_decimal rentEpoch,
       as_data = data\<rparr>))))"

definition snapshotFromArchive :: "host \<Rightarrow> archive_snapshot \<Rightarrow> account_snapshot_input result" where
  "snapshotFromArchive H snapshot =
     bindE (publicKeyOf H (as_owner snapshot)) (\<lambda>owner.
     bindE (bigintOfString (as_lamports snapshot)) (\<lambda>lamports.
     bindE (bigintOfString (as_rentEpoch snapshot)) (\<lambda>rentEpoch.
     Inr \<lparr>snap_owner = JPubKey owner, snap_lamports = JBigInt lamports,
       snap_executable = as_executable snapshot, snap_rentEpoch = JBigInt rentEpoch,
       snap_data = JArray (as_data snapshot)\<rparr>)))"

definition nodeId :: "host \<Rightarrow> archive_node \<Rightarrow> bytes result" where
  "nodeId H node =
     bindE (sourceFromArchive H (node_source node)) (\<lambda>source.
     canonicalHashId H (JString (node_hash node)) (source_object source))"

definition nodeFingerprint :: "host \<Rightarrow> archive_node \<Rightarrow> fingerprint_input result" where
  "nodeFingerprint H node =
     bindE (sourceFromArchive H (node_source node)) (\<lambda>source.
     bindE (hashSourceKindOf (source_object source)) (\<lambda>kind.
     bindE (bigintOfString (node_createdAt node)) (\<lambda>createdAt.
     Inr \<lparr>fp_hash = JString (node_hash node), fp_sourceKind = jint (int (kind_number kind)),
       fp_createdAt = JBigInt createdAt, fp_generation = JBigInt (generationFromSource source)\<rparr>)))"

section \<open>Normalized fields\<close>

text \<open>A hash field of a normalized archive: 64 lowercase hexadecimal characters. A key
  field: the Base58 text of a 32-byte key.\<close>

definition hash_text :: "string \<Rightarrow> bool" where
  "hash_text s \<longleftrightarrow> (\<exists>b. length b = 32 \<and> s = hex_of_bytes b)"

definition key_text :: "host \<Rightarrow> string \<Rightarrow> bool" where
  "key_text H s \<longleftrightarrow> (\<exists>k. length k = 32 \<and> s = toBase58 H k)"

lemma hash_textI [intro]: "length b = 32 \<Longrightarrow> hash_text (hex_of_bytes b)"
  by (auto simp: hash_text_def)

lemma key_textI [intro]: "length k = 32 \<Longrightarrow> key_text H (toBase58 H k)"
  by (auto simp: key_text_def)

lemma archiveHex_ok [ok_iff]:
  "archiveHex H v = Inr s \<longleftrightarrow> (\<exists>b. to32Bytes H v = Inr b \<and> s = hex_of_bytes b)"
  by (auto simp: archiveHex_def)

lemma archiveHex_text: "archiveHex H v = Inr s \<Longrightarrow> hash_text s"
  by (auto simp: archiveHex_ok to32Bytes_length)

lemma archiveHex_id [norm_simps]: "hash_text s \<Longrightarrow> archiveHex H (JString s) = Inr s"
  by (auto simp: hash_text_def archiveHex_ok)

lemma hash_text_to32Bytes: "hash_text s \<Longrightarrow> \<exists>b. length b = 32 \<and> to32Bytes H (JString s) = Inr b \<and> s = hex_of_bytes b"
  by (auto simp: hash_text_def)

lemma publicKeyOf_key_text:
  "host_ok H \<Longrightarrow> key_text H s \<Longrightarrow> \<exists>k. length k = 32 \<and> publicKeyOf H s = Inr k \<and> s = toBase58 H k"
  by (auto simp: key_text_def publicKeyOf_def fromBase58_toBase58)

lemma publicKeyOf_toBase58 [norm_simps]:
  "host_ok H \<Longrightarrow> length k = 32 \<Longrightarrow> publicKeyOf H (toBase58 H k) = Inr k"
  by (simp add: publicKeyOf_def fromBase58_toBase58)

lemma publicKeyOf_length: "host_ok H \<Longrightarrow> publicKeyOf H s = Inr k \<Longrightarrow> length k = 32"
  by (auto simp: publicKeyOf_def fromBase58_length split: option.splits)

lemma bigintOfString_decimal [simp, norm_simps]: "bigintOfString (int_to_decimal i) = Inr i"
  by (simp add: bigintOfString_def)

lemma sourceFromArchive_kind: "sourceFromArchive H s = Inr t \<Longrightarrow> source_kind t = archive_kind s"
  by (cases s) auto

lemma archiveSource_kind: "archiveSource H s = Inr a \<Longrightarrow> archive_kind a = source_kind s"
  by (cases s) auto

text \<open>The archive text of a source reads back to a source with the same text: nothing of the
  protocol-relevant data is lost.\<close>

lemma sourceFromArchive_archiveSource:
  assumes "host_ok H" "archiveSource H s = Inr a"
  shows "\<exists>t. sourceFromArchive H a = Inr t \<and> archiveSource H t = Inr a \<and>
    encodeHashSource H t = encodeHashSource H s"
proof (cases s)
  case (SAccount v)
  with assms show ?thesis
    using accountPublicKey_length by (auto simp: publicKeyOf_toBase58)
next
  case (SBranch p q g)
  with assms show ?thesis
    using to32Bytes_length by (auto simp: archiveHex_ok)
next
  case (SBatch ms)
  with assms obtain ts where ts: "mapE (archiveHex H) ms = Inr ts" "a = ABatch ts" by auto
  then obtain bs where bs: "mapE (to32Bytes H) ms = Inr bs" "ts = map hex_of_bytes bs"
  proof -
    have "\<exists>bs. mapE (to32Bytes H) ms = Inr bs \<and> ts = map hex_of_bytes bs"
      if "mapE (archiveHex H) ms = Inr ts" for ms ts
      using that by (induction ms arbitrary: ts) (force simp: archiveHex_ok)+
    with ts that show thesis by blast
  qed
  have len: "list_all key32 bs" using bs by (simp add: mapE_to32Bytes_length)
  then have "mapE (to32Bytes H) (map JString ts) = Inr bs" "mapE (archiveHex H) (map JString ts) = Inr ts"
    unfolding bs(2) by (induction bs) (auto simp: key32_def archiveHex_def)
  with ts bs SBatch show ?thesis by simp
qed (use assms in auto)

section \<open>Normalized nodes\<close>

text \<open>An integer field: the canonical decimal of an integer with the property.\<close>

definition decimal_field :: "(int \<Rightarrow> bool) \<Rightarrow> string \<Rightarrow> bool" where
  "decimal_field P s \<longleftrightarrow> (\<exists>i. P i \<and> s = int_to_decimal i)"

definition decimal_value :: "string \<Rightarrow> int" where
  "decimal_value s = (case string_to_bigint s of Some i \<Rightarrow> i | None \<Rightarrow> 0)"

lemma decimal_value_int [simp]: "decimal_value (int_to_decimal i) = i"
  by (simp add: decimal_value_def)

lemma decimal_fieldD:
  assumes "decimal_field P s"
  shows "P (decimal_value s)" "bigintOfString s = Inr (decimal_value s)"
    "s = int_to_decimal (decimal_value s)"
  using assms by (auto simp: decimal_field_def)

lemma decimal_fieldI: "P i \<Longrightarrow> decimal_field P (int_to_decimal i)"
  by (auto simp: decimal_field_def)

lemma hash_textD:
  assumes "hash_text s"
  shows "length (bytes_of_hex s) = 32" "hex_of_bytes (bytes_of_hex s) = s"
    "to32Bytes H (JString s) = Inr (bytes_of_hex s)"
  using assms by (auto simp: hash_text_def)

definition key_bytes :: "host \<Rightarrow> string \<Rightarrow> bytes" where
  "key_bytes H s = (case fromBase58 H s of Some k \<Rightarrow> k | None \<Rightarrow> [])"

lemma key_bytes_toBase58 [simp]: "host_ok H \<Longrightarrow> length k = 32 \<Longrightarrow> key_bytes H (toBase58 H k) = k"
  by (simp add: key_bytes_def fromBase58_toBase58)

lemma key_textD:
  assumes "host_ok H" "key_text H s"
  shows "length (key_bytes H s) = 32" "toBase58 H (key_bytes H s) = s"
    "publicKeyOf H s = Inr (key_bytes H s)"
    "accountPublicKey H (JString s) = Inr (key_bytes H s)"
  using assms by (auto simp: key_text_def publicKeyOf_toBase58 accountPublicKey_base58)

text \<open>\<open>nonzero_i64\<close> is a timestamp, \<open>positive_u64\<close> a branch generation.\<close>

definition nonzero_i64 :: "int \<Rightarrow> bool" where
  "nonzero_i64 i \<longleftrightarrow> i64_range i \<and> i \<noteq> 0"

definition positive_u64 :: "int \<Rightarrow> bool" where
  "positive_u64 i \<longleftrightarrow> u64_range i \<and> i \<noteq> 0"

definition member_texts_ok :: "(string \<Rightarrow> bool) \<Rightarrow> string list \<Rightarrow> bool" where
  "member_texts_ok P ms \<longleftrightarrow> ms \<noteq> [] \<and> distinct ms \<and> list_all P ms"

fun wf_source :: "host \<Rightarrow> archive_source \<Rightarrow> bool" where
  "wf_source H (AAccount a) \<longleftrightarrow> key_text H a"
| "wf_source H (ABranch p q g) \<longleftrightarrow> hash_text p \<and> hash_text q \<and> decimal_field positive_u64 g"
| "wf_source H (ABatch ms) \<longleftrightarrow> member_texts_ok hash_text ms"
| "wf_source H s \<longleftrightarrow> True"

definition wf_snapshot :: "host \<Rightarrow> archive_snapshot \<Rightarrow> bool" where
  "wf_snapshot H s \<longleftrightarrow>
     key_text H (as_owner s) \<and> decimal_field u64_range (as_lamports s) \<and>
     decimal_field u64_range (as_rentEpoch s) \<and> list_all is_byte_value (as_data s)"

definition wf_node :: "host \<Rightarrow> archive_node \<Rightarrow> bool" where
  "wf_node H n \<longleftrightarrow>
     hash_text (node_hash n) \<and> decimal_field nonzero_i64 (node_createdAt n) \<and>
     wf_source H (node_source n) \<and>
     (\<forall>ms. node_members n = Some ms \<longrightarrow>
        archive_kind (node_source n) = KPack \<and> member_texts_ok (key_text H) ms) \<and>
     (\<forall>s. node_snapshot n = Some s \<longrightarrow>
        archive_kind (node_source n) = KAccount \<and> wf_snapshot H s)"

text \<open>The identity, timestamp and generation of a normalized node.\<close>

definition node_id :: "host \<Rightarrow> archive_node \<Rightarrow> bytes" where
  "node_id H n = sha256 H (canonical_frame (bytes_of_hex (node_hash n)) (archive_kind (node_source n)))"

definition node_time :: "archive_node \<Rightarrow> int" where
  "node_time n = decimal_value (node_createdAt n)"

definition node_generation :: "archive_node \<Rightarrow> int" where
  "node_generation n = (case node_source n of ABranch p q g \<Rightarrow> decimal_value g | _ \<Rightarrow> 0)"

lemma wf_sourceD:
  assumes "host_ok H" "wf_source H s"
  shows "\<exists>t. sourceFromArchive H s = Inr t \<and> source_kind t = archive_kind s \<and>
    generationFromSource t = (case s of ABranch p q g \<Rightarrow> decimal_value g | _ \<Rightarrow> 0) \<and>
    archiveSource H t = Inr s"
proof (cases s)
  case (AAccount a)
  with assms key_textD [of H a] show ?thesis by (simp add: generationFromSource_def)
next
  case (ABranch p q g)
  with assms show ?thesis
    using decimal_fieldD [of positive_u64 g] by (simp add: generationFromSource_def archiveHex_id)
next
  case (ABatch ms)
  with assms have "mapE (archiveHex H) (map JString ms) = Inr ms"
    by (auto simp: member_texts_ok_def mapE_ok list.rel_map list_all_iff list.rel_refl_strong archiveHex_id)
  with ABatch show ?thesis by (simp add: generationFromSource_def)
qed (auto simp: generationFromSource_def)

lemma wf_nodeD:
  assumes "host_ok H" "wf_node H n"
  shows nodeId_wf: "nodeId H n = Inr (node_id H n)"
    and node_time_wf: "bigintOfString (node_createdAt n) = Inr (node_time n)" "nonzero_i64 (node_time n)"
    and nodeFingerprint_wf: "nodeFingerprint H n = Inr \<lparr>fp_hash = JString (node_hash n),
      fp_sourceKind = jint (int (kind_number (archive_kind (node_source n)))),
      fp_createdAt = JBigInt (node_time n), fp_generation = JBigInt (node_generation n)\<rparr>"
    and node_generation_wf: "u64_range (node_generation n)"
proof -
  have wf: "wf_source H (node_source n)" "hash_text (node_hash n)" "decimal_field nonzero_i64 (node_createdAt n)"
    using assms(2) by (auto simp: wf_node_def)
  obtain t where t: "sourceFromArchive H (node_source n) = Inr t" "source_kind t = archive_kind (node_source n)"
    "generationFromSource t = node_generation n"
    using wf_sourceD [OF assms(1) wf(1)] by (auto simp: node_generation_def)
  show "nodeId H n = Inr (node_id H n)"
    using t hash_textD [OF wf(2)] by (simp add: nodeId_def canonicalHashId_def node_id_def)
  show time: "bigintOfString (node_createdAt n) = Inr (node_time n)" "nonzero_i64 (node_time n)"
    using decimal_fieldD [OF wf(3)] by (simp_all add: node_time_def)
  show "nodeFingerprint H n = Inr \<lparr>fp_hash = JString (node_hash n),
      fp_sourceKind = jint (int (kind_number (archive_kind (node_source n)))),
      fp_createdAt = JBigInt (node_time n), fp_generation = JBigInt (node_generation n)\<rparr>"
    using t time by (simp add: nodeFingerprint_def)
  show "u64_range (node_generation n)"
    using wf(1) by (cases "node_source n")
      (auto simp: node_generation_def positive_u64_def u64_range_def dest!: decimal_fieldD(1))
qed

end
