(* ===== verification/DemoHost.thy ===== *)
theory DemoHost
  imports Normalization
begin

text \<open>
  A concrete host that satisfies \<open>host_ok\<close>, at which the witnesses evaluate the
  properties that assume it. Its digest is a fixed-length rearrangement of the message,
  its key texts are fixed-width base-58 numerals, its program addresses are the last
  seed; only the documented laws of the real libraries matter.
\<close>

section \<open>Positional numerals\<close>

fun to_digits :: "nat \<Rightarrow> nat \<Rightarrow> nat \<Rightarrow> nat list" where
  "to_digits r 0 n = []"
| "to_digits r (Suc k) n = to_digits r k (n div r) @ [n mod r]"

definition from_digits :: "nat \<Rightarrow> nat list \<Rightarrow> nat" where
  "from_digits r ds = foldl (\<lambda>a d. r * a + d) 0 ds"

lemma from_digits_snoc [simp]: "from_digits r (ds @ [d]) = r * from_digits r ds + d"
  by (simp add: from_digits_def)

lemma length_to_digits [simp]: "length (to_digits r k n) = k"
  by (induction r k n rule: to_digits.induct) auto

lemma to_digits_less: "0 < r \<Longrightarrow> list_all (\<lambda>d. d < r) (to_digits r k n)"
  by (induction r k n rule: to_digits.induct) auto

lemma from_to_digits: "from_digits r (to_digits r k n) = n mod r ^ k"
proof (induction r k n rule: to_digits.induct)
  case (2 r k n)
  then show ?case by (simp add: mod_mult2_eq)
qed (simp add: from_digits_def)

lemma to_from_digits:
  "list_all (\<lambda>d. d < r) ds \<Longrightarrow> to_digits r (length ds) (from_digits r ds) = ds"
  by (induction ds rule: rev_induct) auto

lemma from_digits_less: "list_all (\<lambda>d. d < r) ds \<Longrightarrow> from_digits r ds < r ^ length ds"
proof (induction ds rule: rev_induct)
  case (snoc d ds)
  then have "from_digits r ds + 1 \<le> r ^ length ds" "d < r" by simp_all
  then have "r * (from_digits r ds + 1) \<le> r * r ^ length ds" by (intro mult_le_mono2)
  with \<open>d < r\<close> show ?case by (simp add: algebra_simps)
qed (simp add: from_digits_def)

section \<open>Key texts\<close>

definition alphabet58 :: string where
  "alphabet58 = ''123456789ABCDEFGHJKLMNPQRSTUVWXYZabcdefghijkmnopqrstuvwxyz''"

definition char58 :: "nat \<Rightarrow> char" where
  "char58 n = alphabet58 ! n"

definition value58 :: "char \<Rightarrow> nat" where
  "value58 c = length (takeWhile (\<lambda>d. d \<noteq> c) alphabet58)"

lemma length_alphabet58 [simp]: "length alphabet58 = 58"
  by (simp add: alphabet58_def)

lemma distinct_alphabet58: "distinct alphabet58"
  by (simp add: alphabet58_def)

lemma takeWhile_nth: "distinct xs \<Longrightarrow> i < length xs \<Longrightarrow> length (takeWhile (\<lambda>d. d \<noteq> xs ! i) xs) = i"
  by (induction xs arbitrary: i) (auto simp: nth_Cons split: nat.splits)

lemma value58_char58 [simp]: "n < 58 \<Longrightarrow> value58 (char58 n) = n"
  by (simp add: value58_def char58_def takeWhile_nth distinct_alphabet58)

lemma base58_char58: "n < 58 \<Longrightarrow> base58_char (char58 n)"
proof -
  assume "n < 58"
  then have "char58 n \<in> set alphabet58" by (simp add: char58_def)
  moreover have "list_all base58_char alphabet58" by (simp add: alphabet58_def base58_char_def)
  ultimately show ?thesis by (simp add: list_all_iff)
qed

definition key_number :: "bytes \<Rightarrow> nat" where
  "key_number k = from_digits 256 (map unat k)"

definition demo_toBase58 :: "bytes \<Rightarrow> string" where
  "demo_toBase58 k = map char58 (to_digits 58 44 (key_number k))"

definition demo_fromBase58 :: "string \<Rightarrow> bytes option" where
  "demo_fromBase58 s = Some (map of_nat (to_digits 256 32 (from_digits 58 (map value58 s))))"

lemma key_number_less: "length k = 32 \<Longrightarrow> key_number k < 58 ^ 44"
  using from_digits_less [of 256 "map unat k"] by (simp add: key_number_def list.pred_map list_all_iff)

lemma map_value58: "list_all (\<lambda>d. d < 58) ds \<Longrightarrow> map value58 (map char58 ds) = ds"
  by (induction ds) auto

lemma demo_key_roundtrip:
  assumes "length k = 32" shows "demo_fromBase58 (demo_toBase58 k) = Some k"
proof -
  have "from_digits 58 (map value58 (demo_toBase58 k)) = key_number k"
    using key_number_less [OF assms]
    by (simp add: demo_toBase58_def map_value58 to_digits_less from_to_digits del: map_map)
  moreover have "to_digits 256 32 (key_number k) = map unat k"
    using to_from_digits [of 256 "map unat k"] assms
    by (simp add: key_number_def list.pred_map list_all_iff)
  ultimately show ?thesis by (simp add: demo_fromBase58_def comp_def)
qed

lemma demo_key_text: "base58_text (demo_toBase58 k)"
  using to_digits_less [of 58 44 "key_number k"]
  by (auto simp: base58_text_def demo_toBase58_def list.pred_map base58_char58 list_all_iff)

section \<open>The host\<close>

definition demo_sha256 :: "bytes \<Rightarrow> bytes" where
  "demo_sha256 m = take 32 (rev m @ replicate 32 0)"

definition demo_find :: "bytes list \<Rightarrow> bytes \<Rightarrow> (bytes \<times> nat) option" where
  "demo_find seeds programId =
     (if seeds \<noteq> [] \<and> length (last seeds) = 32 then Some (last seeds, 255) else None)"

definition demo_host :: host where
  "demo_host = \<lparr>sha256 = demo_sha256, toBase58 = demo_toBase58, fromBase58 = demo_fromBase58,
     findProgramAddress = demo_find, localeLe = codeunit_le, valueToString = (\<lambda>v. ''?''),
     textToNumber = (\<lambda>s. NaN)\<rparr>"

lemma demo_host_ok [simp]: "host_ok demo_host"
proof -
  have "length (demo_sha256 m) = 32" for m by (simp add: demo_sha256_def)
  moreover have "length k = 32" if "demo_fromBase58 s = Some k" for s k
    using that by (auto simp: demo_fromBase58_def)
  moreover have "length a = 32 \<and> b < 256" if "demo_find ss p = Some (a, b)" for ss p a b
    using that by (auto simp: demo_find_def split: if_splits)
  ultimately show ?thesis
    unfolding host_ok_def demo_host_def host.simps
    using demo_key_roundtrip demo_key_text codeunit_le_total codeunit_le_trans by blast
qed

lemma demo_host_simps [simp]:
  "sha256 demo_host = demo_sha256"
  "findProgramAddress demo_host = demo_find"
  "localeLe demo_host = codeunit_le"
  by (simp_all add: demo_host_def)

lemma demo_to32Bytes [simp]: "length b = 32 \<Longrightarrow> to32Bytes demo_host (JString (toBase58 demo_host b)) = Inr b"
  by (rule to32Bytes_base58) simp_all

end
