(* ===== verification/DemoArchive.thy ===== *)
theory DemoArchive
  imports ArchiveModel DemoHost
begin

text \<open>
  A small normalized archive on the concrete host: a raw hash, a branch on it, an account
  with its snapshot, a batch of the first two and a pack of the first. Properties that
  assume something about an archive are evaluated on it, or on a variation of it.
\<close>

definition demo_program :: string where
  "demo_program = toBase58 demo_host (replicate 32 9)"

abbreviation demo_id :: "byte \<Rightarrow> byte \<Rightarrow> bytes" where
  "demo_id k c \<equiv> k # replicate 31 c"

abbreviation demo_key :: "bytes \<Rightarrow> string" where
  "demo_key k \<equiv> toBase58 demo_host k"

definition demo_leaf :: archive_node where
  "demo_leaf = \<lparr>node_hash = hex_of_bytes (replicate 32 1), node_source = AHash,
     node_createdAt = int_to_decimal 5, node_members = None, node_snapshot = None\<rparr>"

definition demo_branch :: archive_node where
  "demo_branch = \<lparr>node_hash = hex_of_bytes (replicate 32 2),
     node_source = ABranch (hex_of_bytes (demo_id 0 1)) (hex_of_bytes (replicate 32 2)) (int_to_decimal 1),
     node_createdAt = int_to_decimal 6, node_members = None, node_snapshot = None\<rparr>"

definition demo_snapshot :: archive_snapshot where
  "demo_snapshot = \<lparr>as_owner = demo_key (replicate 32 8), as_lamports = int_to_decimal 10,
     as_executable = False, as_rentEpoch = int_to_decimal 0, as_data = map jbyte (replicate 32 3)\<rparr>"

definition demo_account :: archive_node where
  "demo_account = \<lparr>node_hash = hex_of_bytes (replicate 32 3), node_source = AAccount (demo_key (replicate 32 7)),
     node_createdAt = int_to_decimal 7, node_members = None, node_snapshot = Some demo_snapshot\<rparr>"

definition demo_batch :: archive_node where
  "demo_batch = \<lparr>node_hash = hex_of_bytes (replicate 7 0 @ [6, 2] @ replicate 23 2),
     node_source = ABatch [hex_of_bytes (demo_id 0 1), hex_of_bytes (demo_id 2 2)],
     node_createdAt = int_to_decimal 8, node_members = None, node_snapshot = None\<rparr>"

definition demo_pack :: archive_node where
  "demo_pack = \<lparr>node_hash = hex_of_bytes (replicate 7 0 @ [5, 0] @ replicate 23 1), node_source = APack,
     node_createdAt = int_to_decimal 9, node_members = Some [demo_key (demo_id 0 1)], node_snapshot = None\<rparr>"

lemmas demo_node_defs = demo_leaf_def demo_branch_def demo_account_def demo_batch_def demo_pack_def
  demo_snapshot_def

definition demo_batch_id :: bytes where
  "demo_batch_id = 3 # replicate 23 2 @ [2, 6] @ replicate 6 0"

definition demo_pack_id :: bytes where
  "demo_pack_id = 4 # replicate 23 1 @ [0, 5] @ replicate 6 0"

definition demo_archive :: hash_archive where
  "demo_archive = \<lparr>arch_programId = demo_program, arch_nodes =
     [(demo_key (demo_id 2 2), demo_branch), (demo_key (demo_id 0 1), demo_leaf),
      (demo_key (demo_id 1 3), demo_account), (demo_key demo_batch_id, demo_batch),
      (demo_key demo_pack_id, demo_pack)]\<rparr>"

text \<open>The same archive without its raw hash.\<close>

definition demo_partial :: hash_archive where
  "demo_partial = \<lparr>arch_programId = demo_program, arch_nodes =
     [(demo_key (demo_id 2 2), demo_branch), (demo_key demo_pack_id, demo_pack)]\<rparr>"

lemma demo_nodes:
  "arch_nodes demo_archive = [(demo_key (demo_id 2 2), demo_branch), (demo_key (demo_id 0 1), demo_leaf),
      (demo_key (demo_id 1 3), demo_account), (demo_key demo_batch_id, demo_batch),
      (demo_key demo_pack_id, demo_pack)]"
  "arch_nodes demo_partial = [(demo_key (demo_id 2 2), demo_branch), (demo_key demo_pack_id, demo_pack)]"
  by (simp_all add: demo_archive_def demo_partial_def)

lemma demo_programs [simp]:
  "arch_programId demo_archive = demo_program" "arch_programId demo_partial = demo_program"
  by (simp_all add: demo_archive_def demo_partial_def)

lemma demo_key_inject [simp]:
  "length j = 32 \<Longrightarrow> length k = 32 \<Longrightarrow> demo_key j = demo_key k \<longleftrightarrow> j = k"
  by (rule toBase58_inject) simp_all

lemma demo_publicKeyOf [simp]: "length k = 32 \<Longrightarrow> publicKeyOf demo_host (demo_key k) = Inr k"
  by (simp add: publicKeyOf_toBase58)

lemma demo_accountPublicKey [simp]:
  "length k = 32 \<Longrightarrow> accountPublicKey demo_host (JString (demo_key k)) = Inr k"
  by (simp add: accountPublicKey_base58)

lemma demo_id_lengths [simp]: "length demo_batch_id = 32" "length demo_pack_id = 32"
  by (simp_all add: demo_batch_id_def demo_pack_id_def)

lemma demo_id_neq [simp]: "demo_batch_id \<noteq> demo_pack_id" "demo_pack_id \<noteq> demo_batch_id"
    "demo_batch_id \<noteq> demo_id 0 c" "demo_batch_id \<noteq> demo_id 1 c" "demo_batch_id \<noteq> demo_id 2 c"
    "demo_pack_id \<noteq> demo_id 0 c" "demo_pack_id \<noteq> demo_id 1 c" "demo_pack_id \<noteq> demo_id 2 c"
    "demo_id 0 c \<noteq> demo_batch_id" "demo_id 1 c \<noteq> demo_batch_id" "demo_id 2 c \<noteq> demo_batch_id"
    "demo_id 0 c \<noteq> demo_pack_id" "demo_id 1 c \<noteq> demo_pack_id" "demo_id 2 c \<noteq> demo_pack_id"
  by (simp_all add: demo_batch_id_def demo_pack_id_def)

lemma demo_deriveHashPda [simp]:
  "length k = 32 \<Longrightarrow> deriveHashPda demo_host p (JBytes k) = Inr k"
  "length k = 32 \<Longrightarrow> deriveHashPda demo_host p (JString (hex_of_bytes k)) = Inr k"
  by (simp_all add: deriveHashPda_def findPda_def demo_find_def)

lemma demo_node_ids:
  "node_id demo_host demo_leaf = demo_id 0 1" "node_id demo_host demo_branch = demo_id 2 2"
  "node_id demo_host demo_account = demo_id 1 3" "node_id demo_host demo_batch = demo_batch_id"
  "node_id demo_host demo_pack = demo_pack_id"
  by (simp_all add: node_id_def canonical_frame_def demo_node_defs demo_sha256_def demo_batch_id_def
      demo_pack_id_def rev_append)

lemma demo_wf_nodes:
  "wf_node demo_host demo_leaf" "wf_node demo_host demo_branch" "wf_node demo_host demo_account"
  "wf_node demo_host demo_batch" "wf_node demo_host demo_pack"
  by (auto simp: wf_node_def wf_snapshot_def demo_node_defs nonzero_i64_def positive_u64_def i64_range_def
      u64_range_def member_texts_ok_def hex_text.enc_inject simp del: map_replicate hex_of_bytes.simps
      intro!: decimal_fieldI)

end
