(* ===== verification/DepSearch.thy ===== *)
theory DepSearch
  imports Prelude
begin

text \<open>
  The iterative depth-first search of \<open>dependencyOrder\<close> in
  \<open>app/sdk/archive/graph.ts\<close>, over any dictionary of nodes and any dependency
  function that may throw. The list of frames is the source's \<open>stack\<close>, top first;
  a frame \<open>(pda, True)\<close> is an exit frame. The loop ends because a node is expanded only
  while it is in neither set, and only nodes of the dictionary are expanded.
\<close>

section \<open>The loop\<close>

definition cycle_error :: "string \<Rightarrow> error" where
  "cycle_error pda = Error (''Cyclic archive dependencies: '' @ pda)"

definition missing_node_error :: "string \<Rightarrow> error" where
  "missing_node_error pda = Error (''Missing archive node: '' @ pda)"

definition missing_members_error :: "string \<Rightarrow> error" where
  "missing_members_error pda = Error (''Missing Pack members: '' @ pda)"

function search ::
  "'n object \<Rightarrow> ('n \<Rightarrow> string list option result) \<Rightarrow> bool \<Rightarrow> (string \<times> bool) list \<Rightarrow>
   string set \<Rightarrow> string set \<Rightarrow> string list \<Rightarrow> (string set \<times> string set \<times> string list) result"
where
  "search nodes deps requireComplete [] active visited ordered = Inr (active, visited, ordered)"
| "search nodes deps requireComplete ((pda, exit) # stack) active visited ordered =
     (if exit then
        search nodes deps requireComplete stack (active - {pda}) (insert pda visited) (ordered @ [pda])
      else if pda \<in> visited then search nodes deps requireComplete stack active visited ordered
      else if pda \<in> active then Inl (cycle_error pda)
      else (case get nodes pda of
          None \<Rightarrow>
            if requireComplete then Inl (missing_node_error pda)
            else search nodes deps requireComplete stack active visited ordered
        | Some node \<Rightarrow>
            (case deps node of
               Inl e \<Rightarrow> Inl e
             | Inr dependencies \<Rightarrow>
                 if dependencies = None \<and> requireComplete then Inl (missing_members_error pda)
                 else search nodes deps requireComplete
                   (map (\<lambda>d. (d, False)) (case dependencies of None \<Rightarrow> [] | Some ds \<Rightarrow> ds) @
                    (pda, True) # stack)
                   (insert pda active) visited ordered)))"
  by pat_completeness auto
termination
proof (relation "measures
    [\<lambda>(nodes, deps, req, stack, active, visited, ordered). card (set (keys nodes) - (active \<union> visited)),
     \<lambda>(nodes, deps, req, stack, active, visited, ordered). length stack]", goal_cases)
  case (2 nodes deps req pda exit stack active visited ordered)
  have "card (set (keys nodes) - (active - {pda} \<union> insert pda visited)) \<le>
      card (set (keys nodes) - (active \<union> visited))"
    by (intro card_mono) auto
  then show ?case by auto
next
  case (5 nodes deps req pda exit stack active visited ordered node dependencies)
  then have "pda \<in> set (keys nodes) - (active \<union> visited)"
    using get_key by fastforce
  then have "card (set (keys nodes) - (insert pda active \<union> visited)) <
      card (set (keys nodes) - (active \<union> visited))"
    by (intro psubset_card_mono) auto
  then show ?case by simp
qed auto

definition dependency_search ::
  "'n object \<Rightarrow> ('n \<Rightarrow> string list option result) \<Rightarrow> string list \<Rightarrow> bool \<Rightarrow> string list result"
where
  "dependency_search nodes deps roots requireComplete =
     bindE (foldE (\<lambda>(active, visited, ordered) root.
       search nodes deps requireComplete [(root, False)] active visited ordered) ({}, {}, []) roots)
     (\<lambda>(active, visited, ordered). Inr ordered)"

section \<open>The dependency graph\<close>

text \<open>An edge leads from a present node to each of its known dependencies.\<close>

definition edges :: "'n object \<Rightarrow> ('n \<Rightarrow> string list option result) \<Rightarrow> (string \<times> string) set" where
  "edges nodes deps = {(p, d). \<exists>n ds. get nodes p = Some n \<and> deps n = Inr (Some ds) \<and> d \<in> set ds}"

definition reach :: "'n object \<Rightarrow> ('n \<Rightarrow> string list option result) \<Rightarrow> string set \<Rightarrow> string set" where
  "reach nodes deps roots = (edges nodes deps)\<^sup>* `` roots"

text \<open>The vertices an order must list: all of them when completeness is required, otherwise
  those that are present.\<close>

definition wanted :: "'n object \<Rightarrow> bool \<Rightarrow> string \<Rightarrow> bool" where
  "wanted nodes req d \<longleftrightarrow> req \<or> d \<in> set (keys nodes)"

text \<open>\<open>xs\<close> lists every wanted dependency of an element before the element.\<close>

definition topological :: "'n object \<Rightarrow> ('n \<Rightarrow> string list option result) \<Rightarrow> bool \<Rightarrow> string list \<Rightarrow> bool" where
  "topological nodes deps req xs \<longleftrightarrow>
     (\<forall>us p vs. xs = us @ p # vs \<longrightarrow>
        (\<forall>d. (p, d) \<in> edges nodes deps \<longrightarrow> wanted nodes req d \<longrightarrow> d \<in> set us))"

lemma edge_present: "(p, d) \<in> edges nodes deps \<Longrightarrow> p \<in> set (keys nodes)"
  unfolding edges_def using get_key by fastforce

lemma edge_wanted: "(p, d) \<in> edges nodes deps \<Longrightarrow> wanted nodes req p"
  using edge_present unfolding wanted_def by fast

lemma topological_Nil [simp]: "topological nodes deps req []"
  by (simp add: topological_def)

lemma topological_snoc:
  "topological nodes deps req (xs @ [p]) \<longleftrightarrow>
     topological nodes deps req xs \<and>
     (\<forall>d. (p, d) \<in> edges nodes deps \<longrightarrow> wanted nodes req d \<longrightarrow> d \<in> set xs)"
  (is "?l \<longleftrightarrow> ?r")
proof
  assume l: ?l
  have "d \<in> set us" if "xs = us @ q # vs" "(q, d) \<in> edges nodes deps" "wanted nodes req d" for us q vs d
    using l that unfolding topological_def by (metis append.assoc append_Cons)
  moreover have "d \<in> set xs" if "(p, d) \<in> edges nodes deps" "wanted nodes req d" for d
    using l that unfolding topological_def by blast
  ultimately show ?r unfolding topological_def by blast
next
  assume r: ?r
  show ?l unfolding topological_def
  proof (intro allI impI)
    fix us q vs d
    assume eq: "xs @ [p] = us @ q # vs" and d: "(q, d) \<in> edges nodes deps" "wanted nodes req d"
    show "d \<in> set us"
    proof (cases vs rule: rev_cases)
      case Nil
      with eq have "us = xs" "q = p" by auto
      with r d show ?thesis by blast
    next
      case (snoc vs' v)
      with eq have "xs = us @ q # vs'" by auto
      with r d show ?thesis unfolding topological_def by blast
    qed
  qed
qed

lemma topological_index:
  assumes "topological nodes deps req xs" "p \<in> set xs" "(p, d) \<in> edges nodes deps" "wanted nodes req d"
  shows "d \<in> set xs"
  using assms unfolding topological_def by (metis in_set_conv_decomp UnCI set_append)

text \<open>A topological list without repetitions has no cycle through its elements.\<close>

lemma topological_acyclic:
  assumes "topological nodes deps req xs" "distinct xs" "p \<in> set xs"
  shows "(p, p) \<notin> (edges nodes deps)\<^sup>+"
  using assms
proof (induction xs arbitrary: p rule: rev_induct)
  case (snoc x xs)
  from snoc.prems have topo: "topological nodes deps req xs" and dist: "distinct xs" "x \<notin> set xs"
    and x: "\<And>d. (x, d) \<in> edges nodes deps \<Longrightarrow> wanted nodes req d \<Longrightarrow> d \<in> set xs"
    by (auto simp: topological_snoc)
  have closed: "c \<in> set xs" if "(a, c) \<in> (edges nodes deps)\<^sup>+" "a \<in> set xs" "wanted nodes req c" for a c
    using that
  proof (induction rule: trancl_induct)
    case (base c)
    then show ?case by (blast intro: topological_index [OF topo])
  next
    case (step b c)
    have "b \<in> set xs" by (rule step.IH [OF step.prems(1) edge_wanted [OF step.hyps(2)]])
    then show ?case by (rule topological_index [OF topo _ step.hyps(2) step.prems(2)])
  qed
  show ?case
  proof
    assume c: "(p, p) \<in> (edges nodes deps)\<^sup>+"
    then have wp: "wanted nodes req p"
      by (meson edge_wanted tranclD)
    show False
    proof (cases "p = x")
      case True
      from c obtain d where d: "(p, d) \<in> edges nodes deps" "(d, p) \<in> (edges nodes deps)\<^sup>*"
        by (auto dest: tranclD)
      have "wanted nodes req d"
        using d(2) wp by (cases rule: converse_rtranclE) (auto intro: edge_wanted)
      with True d x have dx: "d \<in> set xs" by blast
      with d(2) closed [of d p] wp have "p \<in> set xs" by (auto simp: rtrancl_eq_or_trancl)
      with True dist show False by simp
    next
      case False
      with snoc.prems(3) have "p \<in> set xs" by simp
      with snoc.IH [OF topo dist(1)] c show False by blast
    qed
  qed
qed simp

section \<open>The invariant of the loop\<close>

text \<open>
  \<open>pending nodes deps req stack visited\<close>: the dependencies of a node whose exit frame
  is on the stack are visited or above that frame, and everything above it is reachable from
  it. \<open>search_inv\<close> adds that the exit frames are the active nodes and that the result so
  far is a repetition-free topological list of the visited nodes.
\<close>

definition pending ::
  "'n object \<Rightarrow> ('n \<Rightarrow> string list option result) \<Rightarrow> bool \<Rightarrow> (string \<times> bool) list \<Rightarrow> string set \<Rightarrow> bool"
where
  "pending nodes deps req stack visited \<longleftrightarrow>
     (\<forall>us p vs. stack = us @ (p, True) # vs \<longrightarrow>
        (\<forall>d. (p, d) \<in> edges nodes deps \<longrightarrow> wanted nodes req d \<longrightarrow> d \<in> visited \<union> fst ` set us) \<and>
        (\<forall>q \<in> fst ` set us. (p, q) \<in> (edges nodes deps)\<^sup>+))"

definition exits :: "(string \<times> bool) list \<Rightarrow> string list" where
  "exits stack = map fst (filter snd stack)"

definition expandable ::
  "'n object \<Rightarrow> ('n \<Rightarrow> string list option result) \<Rightarrow> bool \<Rightarrow> string \<Rightarrow> bool" where
  "expandable nodes deps req p \<longleftrightarrow>
     (\<exists>n ds. get nodes p = Some n \<and> deps n = Inr ds \<and> (req \<longrightarrow> ds \<noteq> None))"

definition search_inv ::
  "'n object \<Rightarrow> ('n \<Rightarrow> string list option result) \<Rightarrow> bool \<Rightarrow> string set \<Rightarrow> (string \<times> bool) list \<Rightarrow>
   string set \<Rightarrow> string set \<Rightarrow> string list \<Rightarrow> bool"
where
  "search_inv nodes deps req roots stack active visited ordered \<longleftrightarrow>
     set ordered = visited \<and> distinct ordered \<and>
     topological nodes deps req ordered \<and>
     set (exits stack) = active \<and> distinct (exits stack) \<and> active \<inter> visited = {} \<and>
     (\<forall>p \<in> active \<union> visited. expandable nodes deps req p) \<and>
     pending nodes deps req stack visited \<and>
     visited \<union> fst ` set stack \<subseteq> reach nodes deps roots \<and>
     (\<forall>r \<in> roots. wanted nodes req r \<longrightarrow> r \<in> visited \<union> fst ` set stack)"

lemma exits_simps [simp]:
  "exits [] = []"
  "exits ((p, True) # s) = p # exits s"
  "exits ((p, False) # s) = exits s"
  "exits (map (\<lambda>d. (d, False)) ds @ s) = exits s"
  by (simp_all add: exits_def filter_map comp_def)

lemma pending_pop:
  assumes "pending nodes deps req ((p, b) # stack) visited"
    and "p \<in> visited' \<or> \<not> wanted nodes req p" and "visited \<subseteq> visited'"
  shows "pending nodes deps req stack visited'"
  unfolding pending_def
proof (intro allI impI)
  fix us q vs
  assume "stack = us @ (q, True) # vs"
  then have "(p, b) # stack = ((p, b) # us) @ (q, True) # vs" by simp
  with assms(1) have
    "\<forall>d. (q, d) \<in> edges nodes deps \<longrightarrow> wanted nodes req d \<longrightarrow> d \<in> visited \<union> fst ` set ((p, b) # us)"
    "\<forall>r \<in> fst ` set ((p, b) # us). (q, r) \<in> (edges nodes deps)\<^sup>+"
    unfolding pending_def by blast+
  with assms(2,3) show
    "(\<forall>d. (q, d) \<in> edges nodes deps \<longrightarrow> wanted nodes req d \<longrightarrow> d \<in> visited' \<union> fst ` set us) \<and>
     (\<forall>r \<in> fst ` set us. (q, r) \<in> (edges nodes deps)\<^sup>+)"
    by auto
qed

lemma pending_push:
  assumes pend: "pending nodes deps req ((p, False) # stack) visited"
    and succ: "\<And>d. (p, d) \<in> edges nodes deps \<longleftrightarrow> d \<in> set ds"
  shows "pending nodes deps req (map (\<lambda>d. (d, False)) ds @ (p, True) # stack) visited"
  unfolding pending_def
proof (intro allI impI)
  fix us q vs
  assume eq: "map (\<lambda>d. (d, False)) ds @ (p, True) # stack = us @ (q, True) # vs"
  have no_exit: "map (\<lambda>d. (d, False)) ds \<noteq> us @ (q, True) # zs" for zs
  proof
    assume "map (\<lambda>d. (d, False)) ds = us @ (q, True) # zs"
    then have "(q, True) \<in> set (map (\<lambda>d. (d, False)) ds)" by simp
    then show False by auto
  qed
  then consider "us = map (\<lambda>d. (d, False)) ds" "q = p"
    | us' where "us = map (\<lambda>d. (d, False)) ds @ (p, True) # us'" "stack = us' @ (q, True) # vs"
    using eq by (auto simp: append_eq_append_conv2 append_eq_Cons_conv Cons_eq_append_conv)
  then show "(\<forall>d. (q, d) \<in> edges nodes deps \<longrightarrow> wanted nodes req d \<longrightarrow> d \<in> visited \<union> fst ` set us) \<and>
     (\<forall>r \<in> fst ` set us. (q, r) \<in> (edges nodes deps)\<^sup>+)"
  proof cases
    case 1
    then show ?thesis using succ by force
  next
    case 2
    then have "(p, False) # stack = ((p, False) # us') @ (q, True) # vs" by simp
    with pend have old:
      "\<forall>d. (q, d) \<in> edges nodes deps \<longrightarrow> wanted nodes req d \<longrightarrow> d \<in> visited \<union> fst ` set ((p, False) # us')"
      "\<forall>r \<in> fst ` set ((p, False) # us'). (q, r) \<in> (edges nodes deps)\<^sup>+"
      unfolding pending_def by blast+
    then have "(q, d) \<in> (edges nodes deps)\<^sup>+" if "d \<in> set ds" for d
      using succ that by (auto intro: trancl_into_trancl)
    with old show ?thesis unfolding 2(1) by force
  qed
qed

lemma pending_cycle:
  assumes "pending nodes deps req ((p, False) # stack) visited" "p \<in> set (exits stack)"
  shows "(p, p) \<in> (edges nodes deps)\<^sup>+"
proof -
  from assms(2) have "(p, True) \<in> set stack" by (auto simp: exits_def)
  then obtain us vs where "stack = us @ (p, True) # vs" by (meson split_list)
  then have "(p, False) # stack = ((p, False) # us) @ (p, True) # vs" by simp
  with assms(1) have "\<forall>q \<in> fst ` set ((p, False) # us). (p, q) \<in> (edges nodes deps)\<^sup>+"
    unfolding pending_def by blast
  then show ?thesis by simp
qed

lemma search_invD:
  assumes "search_inv nodes deps req roots stack active visited ordered"
  shows inv_ordered: "set ordered = visited" "distinct ordered" "topological nodes deps req ordered"
    and inv_exits: "set (exits stack) = active" "distinct (exits stack)" "active \<inter> visited = {}"
    and inv_expandable: "\<forall>p \<in> active \<union> visited. expandable nodes deps req p"
    and inv_pending: "pending nodes deps req stack visited"
    and inv_reach: "visited \<union> fst ` set stack \<subseteq> reach nodes deps roots"
    and inv_roots: "\<forall>r \<in> roots. wanted nodes req r \<longrightarrow> r \<in> visited \<union> fst ` set stack"
  using assms unfolding search_inv_def by argo+

text \<open>The three ways a turn of the loop goes on.\<close>

lemma inv_exit:
  assumes "search_inv nodes deps req roots ((p, True) # stack) active visited ordered"
  shows "search_inv nodes deps req roots stack (active - {p}) (insert p visited) (ordered @ [p])"
proof -
  note inv = search_invD [OF assms]
  note pend = inv_pending [OF assms]
  have "d \<in> visited" if "(p, d) \<in> edges nodes deps" "wanted nodes req d" for d
    using pend that unfolding pending_def by fastforce
  then have "topological nodes deps req (ordered @ [p])"
    using inv(1,3) by (simp add: topological_snoc)
  moreover have "pending nodes deps req stack (insert p visited)"
    using pend by (rule pending_pop) auto
  moreover have "p \<notin> visited" "p \<in> active" "p \<notin> set (exits stack)" "distinct (exits stack)"
    using inv(4,5,6) by auto
  moreover have "set (exits stack) = active - {p}" using inv(4,5) by auto
  moreover have "\<forall>q \<in> active - {p} \<union> insert p visited. expandable nodes deps req q"
    using inv(7) \<open>p \<in> active\<close> by blast
  moreover have "insert p visited \<union> fst ` set stack \<subseteq> reach nodes deps roots"
    using inv(9) by auto
  moreover have "\<forall>r \<in> roots. wanted nodes req r \<longrightarrow> r \<in> insert p visited \<union> fst ` set stack"
    using inv(10) by auto
  ultimately show ?thesis
    using inv(1,2,6) unfolding search_inv_def by auto
qed

lemma inv_skip:
  assumes "search_inv nodes deps req roots ((p, False) # stack) active visited ordered"
    and "p \<in> visited \<or> \<not> wanted nodes req p"
  shows "search_inv nodes deps req roots stack active visited ordered"
proof -
  have "pending nodes deps req stack visited"
    by (rule pending_pop [OF inv_pending [OF assms(1)] assms(2) order_refl])
  moreover have "visited \<union> fst ` set stack \<subseteq> reach nodes deps roots"
    using inv_reach [OF assms(1)] by auto
  moreover have "\<forall>r \<in> roots. wanted nodes req r \<longrightarrow> r \<in> visited \<union> fst ` set stack"
    using inv_roots [OF assms(1)] assms(2) by auto
  ultimately show ?thesis
    using search_invD [OF assms(1)] unfolding search_inv_def exits_simps by blast
qed

lemma inv_push:
  assumes inv: "search_inv nodes deps req roots ((p, False) # stack) active visited ordered"
    and new: "p \<notin> visited" "p \<notin> active"
    and node: "get nodes p = Some n" "deps n = Inr known" "\<not> (known = None \<and> req)"
  shows "search_inv nodes deps req roots
    (map (\<lambda>d. (d, False)) (case known of None \<Rightarrow> [] | Some ds \<Rightarrow> ds) @ (p, True) # stack)
    (insert p active) visited ordered"
proof -
  define ds where "ds = (case known of None \<Rightarrow> [] | Some ds \<Rightarrow> ds)"
  have succ: "(p, d) \<in> edges nodes deps \<longleftrightarrow> d \<in> set ds" for d
    using node by (auto simp: edges_def ds_def split: option.splits)
  have pend: "pending nodes deps req (map (\<lambda>d. (d, False)) ds @ (p, True) # stack) visited"
    by (rule pending_push [OF inv_pending [OF inv] succ])
  have p: "p \<in> reach nodes deps roots" using inv_reach [OF inv] by auto
  then have "set ds \<subseteq> reach nodes deps roots"
    using succ unfolding reach_def by (auto intro: rtrancl_into_rtrancl)
  moreover have frames: "fst ` set (map (\<lambda>d. (d, False)) ds @ (p, True) # stack) =
      set ds \<union> fst ` set ((p, False) # stack)" by force
  ultimately have "visited \<union> fst ` set (map (\<lambda>d. (d, False)) ds @ (p, True) # stack)
      \<subseteq> reach nodes deps roots"
    using inv_reach [OF inv] by blast
  moreover have "\<forall>r \<in> roots. wanted nodes req r \<longrightarrow>
      r \<in> visited \<union> fst ` set (map (\<lambda>d. (d, False)) ds @ (p, True) # stack)"
    using inv_roots [OF inv] unfolding frames by blast
  moreover have "\<forall>q \<in> insert p active \<union> visited. expandable nodes deps req q"
    using inv_expandable [OF inv] node by (auto simp: expandable_def)
  moreover have "set (exits (map (\<lambda>d. (d, False)) ds @ (p, True) # stack)) = insert p active"
    "distinct (exits (map (\<lambda>d. (d, False)) ds @ (p, True) # stack))" "insert p active \<inter> visited = {}"
    using inv_exits [OF inv] new by auto
  ultimately show ?thesis
    using inv_ordered [OF inv] pend unfolding ds_def [symmetric] search_inv_def by blast
qed

text \<open>One turn of the loop, by cases on the frame it pops.\<close>

lemma search_exit:
  "search nodes deps req ((p, True) # stack) active visited ordered =
     search nodes deps req stack (active - {p}) (insert p visited) (ordered @ [p])"
  by simp

lemma search_visited:
  "p \<in> visited \<Longrightarrow> search nodes deps req ((p, False) # stack) active visited ordered =
     search nodes deps req stack active visited ordered"
  by simp

lemma search_active:
  "p \<notin> visited \<Longrightarrow> p \<in> active \<Longrightarrow>
     search nodes deps req ((p, False) # stack) active visited ordered = Inl (cycle_error p)"
  by simp

lemma search_missing:
  "p \<notin> visited \<Longrightarrow> p \<notin> active \<Longrightarrow> get nodes p = None \<Longrightarrow>
     search nodes deps req ((p, False) # stack) active visited ordered =
       (if req then Inl (missing_node_error p) else search nodes deps req stack active visited ordered)"
  by simp

lemma search_throws:
  "p \<notin> visited \<Longrightarrow> p \<notin> active \<Longrightarrow> get nodes p = Some n \<Longrightarrow> deps n = Inl e \<Longrightarrow>
     search nodes deps req ((p, False) # stack) active visited ordered = Inl e"
  by simp

lemma search_unknown:
  "p \<notin> visited \<Longrightarrow> p \<notin> active \<Longrightarrow> get nodes p = Some n \<Longrightarrow> deps n = Inr None \<Longrightarrow> req \<Longrightarrow>
     search nodes deps req ((p, False) # stack) active visited ordered = Inl (missing_members_error p)"
  by simp

lemma search_push:
  "p \<notin> visited \<Longrightarrow> p \<notin> active \<Longrightarrow> get nodes p = Some n \<Longrightarrow> deps n = Inr known \<Longrightarrow>
     \<not> (known = None \<and> req) \<Longrightarrow>
     search nodes deps req ((p, False) # stack) active visited ordered =
       search nodes deps req
         (map (\<lambda>d. (d, False)) (case known of None \<Rightarrow> [] | Some ds \<Rightarrow> ds) @ (p, True) # stack)
         (insert p active) visited ordered"
  by (cases known) simp_all

declare search.simps(2) [simp del]

lemma frame_cases:
  obtains (visited) "p \<in> visited" | (active) "p \<notin> visited" "p \<in> active"
  | (missing) "p \<notin> visited" "p \<notin> active" "get nodes p = None"
  | (throws) n e where "p \<notin> visited" "p \<notin> active" "get nodes p = Some n" "deps n = Inl e"
  | (unknown) n where "p \<notin> visited" "p \<notin> active" "get nodes p = Some n" "deps n = Inr None" "req"
  | (push) n known where "p \<notin> visited" "p \<notin> active" "get nodes p = Some n"
      "deps n = Inr known" "\<not> (known = None \<and> req)"
  by (metis option.exhaust sum.exhaust)

text \<open>The causes a search can fail for, each found in what is reachable from the roots.\<close>

definition search_failure ::
  "'n object \<Rightarrow> ('n \<Rightarrow> string list option result) \<Rightarrow> bool \<Rightarrow> string set \<Rightarrow> error \<Rightarrow> bool"
where
  "search_failure nodes deps req roots e \<longleftrightarrow>
     (\<exists>p \<in> reach nodes deps roots.
        e = cycle_error p \<and> (p, p) \<in> (edges nodes deps)\<^sup>+ \<or>
        req \<and> e = missing_node_error p \<and> get nodes p = None \<or>
        (\<exists>n. get nodes p = Some n \<and>
           (req \<and> e = missing_members_error p \<and> deps n = Inr None \<or> deps n = Inl e)))"

text \<open>The search keeps the invariant to the end, or fails for one of these causes.\<close>

lemma search_outcome:
  assumes "search_inv nodes deps req roots stack active visited ordered"
  shows "case search nodes deps req stack active visited ordered of
      Inl e \<Rightarrow> search_failure nodes deps req roots e
    | Inr (active', visited', ordered') \<Rightarrow>
        search_inv nodes deps req roots [] active' visited' ordered'"
  using assms
proof (induction nodes deps req stack active visited ordered rule: search.induct)
  case (2 nodes deps req p exit stack active visited ordered)
  show ?case
  proof (cases exit)
    case True
    have "search_inv nodes deps req roots ((p, True) # stack) active visited ordered"
      using "2.prems" True by simp
    from "2.IH"(1) [OF True inv_exit [OF this]] True show ?thesis by (simp add: search_exit)
  next
    case False
    have inv: "search_inv nodes deps req roots ((p, False) # stack) active visited ordered"
      using "2.prems" False by simp
    have ex: "exit = False" using False by simp
    have p: "p \<in> reach nodes deps roots" using inv_reach [OF inv] by auto
    show ?thesis
    proof (cases rule: frame_cases [where p = p and visited = visited and active = active
          and nodes = nodes and deps = deps and req = req])
      case visited
      show ?thesis
        using "2.IH"(2) [OF False visited inv_skip [OF inv]] visited by (simp add: ex search_visited)
    next
      case active
      then have "p \<in> set (exits stack)" using inv_exits [OF inv] by simp
      then have "(p, p) \<in> (edges nodes deps)\<^sup>+"
        by (rule pending_cycle [OF inv_pending [OF inv]])
      with active p show ?thesis
        by (auto simp: ex search_active search_failure_def)
    next
      case missing
      show ?thesis
      proof (cases req)
        case True
        with missing p show ?thesis by (auto simp: ex search_missing search_failure_def)
      next
        case nreq: False
        have "\<not> wanted nodes req p" using missing nreq by (simp add: wanted_def get_None_iff)
        then have "search_inv nodes deps req roots stack active visited ordered"
          by (intro inv_skip [OF inv]) simp
        from "2.IH"(3) [OF False missing nreq this] nreq missing show ?thesis
          by (simp add: ex search_missing)
      qed
    next
      case throws
      with p show ?thesis by (auto simp: ex search_throws search_failure_def)
    next
      case unknown
      with p show ?thesis by (auto simp: ex search_unknown search_failure_def)
    next
      case push
      from "2.IH"(4) [OF False push inv_push [OF inv push]] push show ?thesis
        by (simp add: ex search_push)
    qed
  qed
qed simp

section \<open>Correctness of the search\<close>

lemma pending_single: "pending nodes deps req [(r, False)] visited"
  by (auto simp: pending_def Cons_eq_append_conv)

lemma reach_mono: "A \<subseteq> B \<Longrightarrow> reach nodes deps A \<subseteq> reach nodes deps B"
  by (auto simp: reach_def)

lemma search_failure_mono:
  "search_failure nodes deps req A e \<Longrightarrow> A \<subseteq> B \<Longrightarrow> search_failure nodes deps req B e"
  using reach_mono unfolding search_failure_def by blast

text \<open>Between roots the stack is empty; pushing the next root re-establishes the invariant.\<close>

lemma inv_next_root:
  assumes "search_inv nodes deps req roots [] active visited ordered"
  shows "search_inv nodes deps req (insert r roots) [(r, False)] active visited ordered"
  unfolding search_inv_def
proof (intro conjI)
  show "visited \<union> fst ` set [(r, False)] \<subseteq> reach nodes deps (insert r roots)"
  proof -
    have "visited \<subseteq> reach nodes deps (insert r roots)"
      using inv_reach [OF assms] reach_mono [of roots "insert r roots" nodes deps] by blast
    moreover have "r \<in> reach nodes deps (insert r roots)" by (auto simp: reach_def)
    ultimately show ?thesis by simp
  qed
  show "\<forall>s \<in> insert r roots. wanted nodes req s \<longrightarrow> s \<in> visited \<union> fst ` set [(r, False)]"
    using inv_roots [OF assms] by simp
  show "set (exits [(r, False)]) = active" "distinct (exits [(r, False)])"
    using inv_exits [OF assms] by simp_all
qed (rule inv_ordered [OF assms] inv_exits [OF assms] inv_expandable [OF assms] pending_single)+

lemma search_roots:
  assumes "search_inv nodes deps req done_roots [] active visited ordered"
  shows "case foldE (\<lambda>(active, visited, ordered) root.
        search nodes deps req [(root, False)] active visited ordered) (active, visited, ordered) roots of
      Inl e \<Rightarrow> search_failure nodes deps req (done_roots \<union> set roots) e
    | Inr (active', visited', ordered') \<Rightarrow>
        search_inv nodes deps req (done_roots \<union> set roots) [] active' visited' ordered'"
  using assms
proof (induction roots arbitrary: done_roots active visited ordered)
  case (Cons r roots)
  have step: "search_inv nodes deps req (insert r done_roots) [(r, False)] active visited ordered"
    by (rule inv_next_root [OF Cons.prems])
  show ?case
  proof (cases "search nodes deps req [(r, False)] active visited ordered")
    case (Inl e)
    with search_outcome [OF step] have "search_failure nodes deps req (insert r done_roots) e" by simp
    then have "search_failure nodes deps req (done_roots \<union> set (r # roots)) e"
      by (rule search_failure_mono) auto
    with Inl show ?thesis by simp
  next
    case (Inr x)
    obtain a v ord where x: "x = (a, v, ord)" by (cases x)
    with Inr search_outcome [OF step]
    have "search_inv nodes deps req (insert r done_roots) [] a v ord" by simp
    from Cons.IH [OF this]
    have IH: "case foldE (\<lambda>(active, visited, ordered) root.
        search nodes deps req [(root, False)] active visited ordered) (a, v, ord) roots of
      Inl e \<Rightarrow> search_failure nodes deps req (done_roots \<union> set (r # roots)) e
    | Inr (active', visited', ordered') \<Rightarrow>
        search_inv nodes deps req (done_roots \<union> set (r # roots)) [] active' visited' ordered'"
      by (simp only: list.set Un_insert_left Un_insert_right)
    then show ?thesis by (simp only: foldE.simps prod.case Inr x bindE_simps)
  qed
qed simp

lemma dependency_search_outcome:
  "case dependency_search nodes deps roots req of
     Inl e \<Rightarrow> search_failure nodes deps req (set roots) e
   | Inr ordered \<Rightarrow> search_inv nodes deps req (set roots) [] {} (set ordered) ordered"
proof -
  have "search_inv nodes deps req {} [] {} {} []"
    by (simp add: search_inv_def pending_def)
  note outcome = search_roots [OF this, of roots]
  show ?thesis
  proof (cases "dependency_search nodes deps roots req")
    case (Inl e)
    with outcome show ?thesis by (auto simp: dependency_search_def bindE_def split: sum.splits)
  next
    case (Inr ordered)
    then obtain a v where "foldE (\<lambda>(active, visited, ordered) root.
        search nodes deps req [(root, False)] active visited ordered) ({}, {}, []) roots = Inr (a, v, ordered)"
      by (auto simp: dependency_search_def)
    with outcome have inv: "search_inv nodes deps req (set roots) [] a v ordered" by simp
    have "a = {}" "v = set ordered" using inv_exits(1) [OF inv] inv_ordered(1) [OF inv] by simp_all
    with inv Inr show ?thesis by simp
  qed
qed

lemma search_closed:
  assumes "search_inv nodes deps req roots [] active visited ordered"
    and "q \<in> reach nodes deps roots" "wanted nodes req q"
  shows "q \<in> visited"
proof -
  obtain r where r: "r \<in> roots" "(r, q) \<in> (edges nodes deps)\<^sup>*"
    using assms(2) by (auto simp: reach_def)
  from r(2) assms(3) show ?thesis
  proof (induction rule: rtrancl_induct)
    case base
    with r(1) inv_roots [OF assms(1)] show ?case by auto
  next
    case (step p q)
    then have "p \<in> visited" using edge_wanted by blast
    then show ?case
      using topological_index [OF inv_ordered(3) [OF assms(1)]] step inv_ordered(1) [OF assms(1)]
      by metis
  qed
qed

text \<open>
  A successful search lists, without repetition and dependencies first, exactly the wanted
  vertices that are reachable from the roots; all of them are present, and none lies on a
  cycle.
\<close>

lemma dependency_search_ok:
  assumes "dependency_search nodes deps roots req = Inr ordered"
  shows "set ordered = {q \<in> reach nodes deps (set roots). wanted nodes req q}"
    and "distinct ordered" and "topological nodes deps req ordered"
    and "\<forall>p \<in> set ordered. expandable nodes deps req p"
    and "\<forall>p \<in> set ordered. (p, p) \<notin> (edges nodes deps)\<^sup>+"
proof -
  have inv: "search_inv nodes deps req (set roots) [] {} (set ordered) ordered"
    using dependency_search_outcome [where nodes = nodes and deps = deps and roots = roots and req = req] assms by simp
  show 2: "distinct ordered" and 3: "topological nodes deps req ordered"
    and 4: "\<forall>p \<in> set ordered. expandable nodes deps req p"
    using inv_ordered(2,3) [OF inv] inv_expandable [OF inv] by auto
  have "wanted nodes req p" if "p \<in> set ordered" for p
    using 4 that get_key by (fastforce simp: expandable_def wanted_def)
  then show "set ordered = {q \<in> reach nodes deps (set roots). wanted nodes req q}"
    using inv_reach [OF inv] search_closed [OF inv] by auto
  show "\<forall>p \<in> set ordered. (p, p) \<notin> (edges nodes deps)\<^sup>+"
    using topological_acyclic [OF 3 2] by blast
qed

lemma dependency_search_error:
  "dependency_search nodes deps roots req = Inl e \<Longrightarrow> search_failure nodes deps req (set roots) e"
  using dependency_search_outcome [where nodes = nodes and deps = deps and roots = roots and req = req] by simp

text \<open>So the search decides: it succeeds exactly on complete, acyclic closures.\<close>

lemma dependency_search_decides:
  "(\<exists>ordered. dependency_search nodes deps roots req = Inr ordered) \<longleftrightarrow>
     (\<forall>p \<in> reach nodes deps (set roots). wanted nodes req p \<longrightarrow>
        expandable nodes deps req p \<and> (p, p) \<notin> (edges nodes deps)\<^sup>+)"
  (is "?l \<longleftrightarrow> ?r")
proof
  assume ?l
  then obtain ordered where ok: "dependency_search nodes deps roots req = Inr ordered" by blast
  show ?r using dependency_search_ok [OF ok] by blast
next
  assume r: ?r
  show ?l
  proof (cases "dependency_search nodes deps roots req")
    case (Inl e)
    then have "search_failure nodes deps req (set roots) e" by (rule dependency_search_error)
    then obtain p where p: "p \<in> reach nodes deps (set roots)" and
      bad: "(p, p) \<in> (edges nodes deps)\<^sup>+ \<or> req \<and> get nodes p = None \<or>
        (\<exists>n. get nodes p = Some n \<and> (req \<and> deps n = Inr None \<or> deps n = Inl e))"
      unfolding search_failure_def by blast
    have "wanted nodes req p"
      using bad unfolding wanted_def by (metis edge_present get_key tranclD)
    with r p have "expandable nodes deps req p" "(p, p) \<notin> (edges nodes deps)\<^sup>+" by blast+
    with bad show ?thesis by (auto simp: expandable_def)
  qed simp
qed

end
