(* ===== verification/Graph.thy ===== *)
theory Graph
  imports DemoArchive DepSearch
begin

text \<open>
  \<open>app/sdk/archive/graph.ts\<close>: the dependencies of an archive node, the dependency
  order of a closure, and the check of every commitment whose inputs are present.
\<close>

section \<open>Dependencies\<close>

definition node_pda :: "host \<Rightarrow> hash_archive \<Rightarrow> string \<Rightarrow> string result" where
  "node_pda H archive hashId =
     bindE (publicKeyOf H (arch_programId archive)) (\<lambda>program.
     bindE (deriveHashPda H program (JString hashId)) (\<lambda>pda.
     Inr (toBase58 H pda)))"

definition nodeDependencies :: "host \<Rightarrow> hash_archive \<Rightarrow> archive_node \<Rightarrow> string list option result" where
  "nodeDependencies H archive node = (case node_source node of
      ABranch previousHashId payload generation \<Rightarrow>
        bindE (node_pda H archive previousHashId) (\<lambda>p. Inr (Some [p]))
    | ABatch members \<Rightarrow> bindE (mapE (node_pda H archive) members) (\<lambda>ps. Inr (Some ps))
    | APack \<Rightarrow> Inr (node_members node)
    | _ \<Rightarrow> Inr (Some []))"

definition dependencyOrder :: "host \<Rightarrow> hash_archive \<Rightarrow> string list \<Rightarrow> bool \<Rightarrow> string list result" where
  "dependencyOrder H archive roots requireComplete =
     dependency_search (arch_nodes archive) (nodeDependencies H archive) roots requireComplete"

section \<open>Inspection\<close>

record archive_inspection =
  insp_complete :: bool
  insp_missingNodes :: "string list"
  insp_missingWitnesses :: "(string \<times> string) list"

text \<open>\<open>missing.add(dep)\<close> for every dependency that is not in the archive.\<close>

definition add_missing :: "'v object \<Rightarrow> string list \<Rightarrow> string list \<Rightarrow> string list" where
  "add_missing nodes missing deps =
     foldl (\<lambda>m dep. if get nodes dep = None \<and> dep \<notin> set m then m @ [dep] else m) missing deps"

definition aggregate_input :: "host \<Rightarrow> archive_node \<Rightarrow> member_input result" where
  "aggregate_input H member =
     bindE (sourceFromArchive H (node_source member)) (\<lambda>source.
     bindE (hashSourceKindOf (source_object source)) (\<lambda>kind.
     bindE (bigintOfString (node_createdAt member)) (\<lambda>createdAt.
     Inr \<lparr>mem_hash = JString (node_hash member), mem_kind = jint (int (kind_number kind)),
       mem_createdAt = JBigInt createdAt\<rparr>)))"

definition branch_generation_error :: "string \<Rightarrow> error" where
  "branch_generation_error pda = Error (''Branch generation mismatch: '' @ pda)"

definition commitment_error :: "string \<Rightarrow> error" where
  "commitment_error pda = Error (''Archive commitment mismatch: '' @ pda)"

text \<open>The commitment of a branch node with a present parent, after its generation check.\<close>

definition expected_branch ::
  "host \<Rightarrow> string \<Rightarrow> string \<Rightarrow> string \<Rightarrow> archive_node \<Rightarrow> bytes result" where
  "expected_branch H pda generation payload parent =
     bindE (nodeFingerprint H parent) (\<lambda>fingerprint.
     bindE (bigintOfString generation) (\<lambda>g.
     bindE (toBigInt H (fp_generation fingerprint)) (\<lambda>parentGeneration.
     if g \<noteq> parentGeneration + 1 then Inl (branch_generation_error pda)
     else
       bindE (nodeId H parent) (\<lambda>parentId.
       bindE (bigintOfString (node_createdAt parent)) (\<lambda>createdAt.
       bindE (sourceFromArchive H (node_source parent)) (\<lambda>parentSource.
       bindE (hashSourceKindOf (source_object parentSource)) (\<lambda>parentKind.
       deriveBranchHash H (JBytes parentId) (JBigInt createdAt) (fp_generation fingerprint)
         (jint (int (kind_number parentKind))) (JString payload))))))))"

definition expected_aggregate ::
  "host \<Rightarrow> (host \<Rightarrow> member_input list \<Rightarrow> bytes result) \<Rightarrow> archive_node list \<Rightarrow> bytes result" where
  "expected_aggregate H derive memberNodes =
     bindE (mapE (aggregate_input H) memberNodes) (derive H)"

text \<open>The commitment recomputed from present inputs, if all of them are.\<close>

definition expected_commitment ::
  "host \<Rightarrow> hash_archive \<Rightarrow> string \<Rightarrow> archive_node \<Rightarrow> string list option \<Rightarrow> bytes option result" where
  "expected_commitment H archive pda node dependencies =
     (case node_source node of
        AAccount account \<Rightarrow>
          (case node_snapshot node of
             None \<Rightarrow> Inr None
           | Some snapshot \<Rightarrow>
               bindE (snapshotFromArchive H snapshot) (\<lambda>s.
               bindE (deriveAccountSnapshotHash H (JString account) s) (\<lambda>e. Inr (Some e))))
      | source \<Rightarrow>
          (case dependencies of
             None \<Rightarrow> Inr None
           | Some ds \<Rightarrow>
               if list_all (\<lambda>d. get (arch_nodes archive) d \<noteq> None) ds then
                 (let present = map (\<lambda>d. the (get (arch_nodes archive) d)) ds in
                  case source of
                    ABranch previousHashId payload generation \<Rightarrow>
                      bindE (expected_branch H pda generation payload (present ! 0)) (\<lambda>e. Inr (Some e))
                  | ABatch members \<Rightarrow>
                      bindE (expected_aggregate H deriveBatchHash present) (\<lambda>e. Inr (Some e))
                  | APack \<Rightarrow>
                      bindE (expected_aggregate H derivePackHash present) (\<lambda>e. Inr (Some e))
                  | _ \<Rightarrow> Inr None)
               else Inr None))"

definition inspect_node ::
  "host \<Rightarrow> hash_archive \<Rightarrow> string list \<times> (string \<times> string) list \<Rightarrow> string \<times> archive_node \<Rightarrow>
   (string list \<times> (string \<times> string) list) result" where
  "inspect_node H archive state entry =
     (case state of (missing, witnesses) \<Rightarrow> case entry of (pda, node) \<Rightarrow>
        bindE (nodeDependencies H archive node) (\<lambda>dependencies.
        let witnesses1 = witnesses @ (if dependencies = None then [(pda, ''members'')] else []);
            missing' = add_missing (arch_nodes archive) missing
              (case dependencies of None \<Rightarrow> [] | Some ds \<Rightarrow> ds);
            witnesses2 = witnesses1 @
              (case node_source node of
                 AAccount a \<Rightarrow> if node_snapshot node = None then [(pda, ''snapshot'')] else []
               | _ \<Rightarrow> [])
        in bindE (expected_commitment H archive pda node dependencies) (\<lambda>expected.
           case expected of
             None \<Rightarrow> Inr (missing', witnesses2)
           | Some e \<Rightarrow>
               bindE (archiveHex H (JBytes e)) (\<lambda>hex.
               if hex \<noteq> node_hash node then Inl (commitment_error pda)
               else Inr (missing', witnesses2)))))"

definition inspectArchiveGraph :: "host \<Rightarrow> hash_archive \<Rightarrow> archive_inspection result" where
  "inspectArchiveGraph H archive =
     bindE (dependencyOrder H archive (keys (arch_nodes archive)) False) (\<lambda>_.
     bindE (foldE (inspect_node H archive) ([], []) (arch_nodes archive)) (\<lambda>(missing, witnesses).
     Inr \<lparr>insp_complete = (missing = [] \<and> witnesses = []),
       insp_missingNodes = sort_by codeunit_le missing,
       insp_missingWitnesses = witnesses\<rparr>))"

section \<open>What an inspection computes\<close>

text \<open>The dependencies of a node as far as they are known, and the gaps it has itself.\<close>

definition known_deps :: "host \<Rightarrow> hash_archive \<Rightarrow> archive_node \<Rightarrow> string list" where
  "known_deps H a n = (case nodeDependencies H a n of Inr (Some ds) \<Rightarrow> ds | _ \<Rightarrow> [])"

definition node_gaps :: "host \<Rightarrow> hash_archive \<Rightarrow> string \<Rightarrow> archive_node \<Rightarrow> (string \<times> string) list" where
  "node_gaps H a p n =
     (if nodeDependencies H a n = Inr None then [(p, ''members'')] else []) @
     (if archive_kind (node_source n) = KAccount \<and> node_snapshot n = None then [(p, ''snapshot'')] else [])"

text \<open>The node passes: its dependencies can be derived and the commitment that can be
  recomputed, if any, is the recorded hash.\<close>

definition commits :: "host \<Rightarrow> hash_archive \<Rightarrow> string \<Rightarrow> archive_node \<Rightarrow> bool" where
  "commits H a p n \<longleftrightarrow> (\<exists>ds ex. nodeDependencies H a n = Inr ds \<and>
     expected_commitment H a p n ds = Inr ex \<and>
     (\<forall>e. ex = Some e \<longrightarrow> archiveHex H (JBytes e) = Inr (node_hash n)))"

lemma set_add_missing [simp]: "set (add_missing nodes m ds) = set m \<union> {d \<in> set ds. get nodes d = None}"
  by (induction ds arbitrary: m) (auto simp: add_missing_def)

lemma distinct_add_missing: "distinct m \<Longrightarrow> distinct (add_missing nodes m ds)"
  by (induction ds arbitrary: m) (auto simp: add_missing_def)

lemma add_missing_append: "add_missing nodes m (ds @ es) = add_missing nodes (add_missing nodes m ds) es"
  by (simp add: add_missing_def)

lemma inspect_node_ok:
  "inspect_node H a (m, w) (p, n) = Inr r \<longleftrightarrow>
     commits H a p n \<and> r = (add_missing (arch_nodes a) m (known_deps H a n), w @ node_gaps H a p n)"
proof (cases "nodeDependencies H a n")
  case (Inr ds)
  have gaps: "node_gaps H a p n = (if ds = None then [(p, ''members'')] else []) @
      (case node_source n of AAccount a \<Rightarrow> if node_snapshot n = None then [(p, ''snapshot'')] else [] | _ \<Rightarrow> [])"
    by (simp add: node_gaps_def Inr split: archive_source.split)
  show ?thesis
  proof (cases "expected_commitment H a p n ds")
    case (Inr ex)
    with \<open>nodeDependencies H a n = Inr ds\<close> show ?thesis
      by (cases ex; cases ds) (auto simp: inspect_node_def commits_def known_deps_def gaps)
  qed (simp add: inspect_node_def commits_def Inr)
qed (simp add: inspect_node_def commits_def)

lemma inspect_nodes_ok:
  "foldE (inspect_node H a) (m, w) entries = Inr r \<longleftrightarrow>
     (\<forall>(p, n) \<in> set entries. commits H a p n) \<and>
     r = (add_missing (arch_nodes a) m (concat (map (\<lambda>(p, n). known_deps H a n) entries)),
       w @ concat (map (\<lambda>(p, n). node_gaps H a p n) entries))"
proof (induction entries arbitrary: m w)
  case (Cons e entries)
  obtain p n where e: "e = (p, n)" by (cases e)
  show ?case
    by (auto simp: e inspect_node_ok Cons add_missing_append)
qed (simp add: add_missing_def eq_commute)

definition inspection_of :: "host \<Rightarrow> hash_archive \<Rightarrow> archive_inspection" where
  "inspection_of H a =
     (let missing = add_missing (arch_nodes a) [] (concat (map (\<lambda>(p, n). known_deps H a n) (arch_nodes a)));
          witnesses = concat (map (\<lambda>(p, n). node_gaps H a p n) (arch_nodes a))
      in \<lparr>insp_complete = (missing = [] \<and> witnesses = []),
          insp_missingNodes = sort_by codeunit_le missing, insp_missingWitnesses = witnesses\<rparr>)"

lemma inspectArchiveGraph_ok:
  "inspectArchiveGraph H a = Inr i \<longleftrightarrow>
     (\<exists>ordered. dependencyOrder H a (keys (arch_nodes a)) False = Inr ordered) \<and>
     (\<forall>(p, n) \<in> set (arch_nodes a). commits H a p n) \<and> i = inspection_of H a"
  by (auto simp: inspectArchiveGraph_def inspect_nodes_ok inspection_of_def Let_def)

section \<open>Commitments of a normalized archive\<close>

text \<open>
  The reference for \<open>inspectArchiveGraph\<close>, read off the protocol: the digest a node
  must carry, if the nodes and the snapshot it is made of are present.
\<close>

definition present_deps :: "host \<Rightarrow> hash_archive \<Rightarrow> archive_node \<Rightarrow> archive_node list option" where
  "present_deps H a n = (case nodeDependencies H a n of
      Inr (Some ds) \<Rightarrow>
        if \<forall>d \<in> set ds. get (arch_nodes a) d \<noteq> None
        then Some (map (\<lambda>d. the (get (arch_nodes a) d)) ds) else None
    | _ \<Rightarrow> None)"

definition snapshot_digest :: "host \<Rightarrow> string \<Rightarrow> archive_snapshot \<Rightarrow> bytes" where
  "snapshot_digest H account s = sha256 H (snapshot_frame (key_bytes H account) (key_bytes H (as_owner s))
     (decimal_value (as_lamports s)) (as_executable s) (decimal_value (as_rentEpoch s))
     (map byte_of_value (as_data s)))"

definition branch_digest :: "host \<Rightarrow> archive_node \<Rightarrow> string \<Rightarrow> bytes" where
  "branch_digest H parent payload = sha256 H (branch_frame (node_id H parent)
     (archive_kind (node_source parent)) (node_time parent) (node_generation parent)
     (bytes_of_hex payload))"

definition aggregate_digest :: "host \<Rightarrow> archive_node list \<Rightarrow> bytes" where
  "aggregate_digest H ms = sha256 H (concat (map (\<lambda>m. member_frame
     (bytes_of_hex (node_hash m), archive_kind (node_source m), node_time m)) ms))"

definition commitment :: "host \<Rightarrow> hash_archive \<Rightarrow> archive_node \<Rightarrow> bytes option" where
  "commitment H a n = (case node_source n of
      AHash \<Rightarrow> None
    | AAccount account \<Rightarrow> map_option (snapshot_digest H account) (node_snapshot n)
    | ABranch p payload g \<Rightarrow> map_option (\<lambda>ps. branch_digest H (hd ps) payload) (present_deps H a n)
    | _ \<Rightarrow> map_option (aggregate_digest H) (present_deps H a n))"

text \<open>A branch whose parent is present continues its numbering.\<close>

definition generation_ok :: "host \<Rightarrow> hash_archive \<Rightarrow> archive_node \<Rightarrow> bool" where
  "generation_ok H a n \<longleftrightarrow> (archive_kind (node_source n) = KBranch \<longrightarrow>
     (case present_deps H a n of
        Some ps \<Rightarrow> node_generation n = node_generation (hd ps) + 1 | None \<Rightarrow> True))"

lemma deriveAccountSnapshotHash_wf:
  assumes "host_ok H" "key_text H account" "wf_snapshot H s"
  shows "\<exists>input. snapshotFromArchive H s = Inr input \<and>
    deriveAccountSnapshotHash H (JString account) input = Inr (snapshot_digest H account s)"
proof -
  note s = assms(3) [unfolded wf_snapshot_def]
  obtain bs where bs: "as_data s = map jbyte bs" using s by (metis byte_values_iff)
  have u64: "u64_range (decimal_value (as_lamports s))" "u64_range (decimal_value (as_rentEpoch s))"
    using s decimal_fieldD(1) by blast+
  show ?thesis
    using s key_textD [OF assms(1,2)] key_textD [OF assms(1), of "as_owner s"] u64
      decimal_fieldD(2) [of u64_range]
    by (simp add: snapshotFromArchive_def deriveAccountSnapshotHash_def snapshot_digest_def bs asU64_ok
        del: map_map)
qed

lemma aggregate_input_wf:
  assumes "host_ok H" "wf_node H n"
  shows "aggregate_input H n = Inr \<lparr>mem_hash = JString (node_hash n),
    mem_kind = jint (int (kind_number (archive_kind (node_source n)))), mem_createdAt = JBigInt (node_time n)\<rparr>"
  using assms wf_sourceD [of H "node_source n"] node_time_wf [OF assms]
  by (auto simp: aggregate_input_def wf_node_def)

lemma expected_aggregate_wf:
  assumes "host_ok H" "list_all (wf_node H) ms" "ms \<noteq> []"
    and "derive = deriveBatchHash \<or> derive = derivePackHash"
  shows "expected_aggregate H derive ms = Inr (aggregate_digest H ms)"
proof -
  let ?input = "\<lambda>n. \<lparr>mem_hash = JString (node_hash n),
    mem_kind = jint (int (kind_number (archive_kind (node_source n)))), mem_createdAt = JBigInt (node_time n)\<rparr>"
  let ?fields = "\<lambda>n. (bytes_of_hex (node_hash n), archive_kind (node_source n), node_time n)"
  have wf: "wf_node H n" if "n \<in> set ms" for n using assms(2) that by (simp add: list_all_iff)
  have inputs: "mapE (aggregate_input H) ms = Inr (map ?input ms)"
    by (rule mapE_map) (simp add: aggregate_input_wf assms(1) wf)
  have "aggregate_member H (?input n) = Inr (?fields n)" if "n \<in> set ms" for n
    using wf [OF that] node_time_wf(2) [OF assms(1) wf [OF that]]
    by (auto simp: aggregate_member_def wf_node_def hash_textD asI64_ok nonzero_i64_def)
  then have "mapE (aggregate_member H) (map ?input ms) = Inr (map ?fields ms)"
    using mapE_map [of ms "\<lambda>n. aggregate_member H (?input n)" ?fields]
    by (simp add: mapE_ok list.rel_map)
  then have "aggregateHashDigest H (map ?input ms) = Inr (aggregate_digest H ms)"
    by (simp add: aggregateHashDigest_def aggregate_digest_def comp_def)
  with assms(3,4) inputs show ?thesis
    by (auto simp: expected_aggregate_def deriveBatchHash_def derivePackHash_def)
qed

lemma expected_branch_wf:
  assumes "host_ok H" "wf_node H parent" "decimal_field positive_u64 g" "hash_text payload"
  shows "expected_branch H pda g payload parent =
    (if decimal_value g = node_generation parent + 1 then Inr (branch_digest H parent payload)
     else Inl (branch_generation_error pda))"
proof -
  note parent = wf_nodeD [OF assms(1,2)]
  obtain t where "sourceFromArchive H (node_source parent) = Inr t"
      "source_kind t = archive_kind (node_source parent)"
    using wf_sourceD [OF assms(1), of "node_source parent"] assms(2) by (auto simp: wf_node_def)
  moreover have "length (node_id H parent) = 32" by (simp add: node_id_def sha256_length assms(1))
  moreover have "toBigInt H (JBigInt i) = Inr i" for i by simp
  ultimately show ?thesis
    using parent decimal_fieldD [OF assms(3)] hash_textD [OF assms(4)]
    by (auto simp: expected_branch_def deriveBranchHash_def branch_digest_def nonzero_i64_def
        asI64_def asU64_def i64_range_def u64_range_def bindE_def split: sum.splits)
qed

definition wf_nodes :: "host \<Rightarrow> hash_archive \<Rightarrow> bool" where
  "wf_nodes H a \<longleftrightarrow> (\<forall>(p, n) \<in> set (arch_nodes a). wf_node H n)"

lemma wf_nodes_get: "wf_nodes H a \<Longrightarrow> get (arch_nodes a) p = Some n \<Longrightarrow> wf_node H n"
  by (auto simp: wf_nodes_def dest: get_mem)

lemma nodeDependencies_nonempty:
  assumes "wf_node H n" "nodeDependencies H a n = Inr (Some ds)"
    and "archive_kind (node_source n) \<in> {KBranch, KBatch, KPack}"
  shows "ds \<noteq> []" "archive_kind (node_source n) = KBranch \<Longrightarrow> length ds = 1"
  using assms by (cases "node_source n";
      auto simp: nodeDependencies_def wf_node_def member_texts_ok_def dest: mapE_length)+

lemma present_deps_wf:
  assumes "wf_nodes H a" "present_deps H a n = Some ms"
  shows "list_all (wf_node H) ms"
  using assms wf_nodes_get
  by (fastforce simp: present_deps_def list_all_iff split: sum.splits option.splits if_splits)

lemma present_deps_nonempty:
  assumes "wf_node H n" "present_deps H a n = Some ms"
    and "archive_kind (node_source n) \<in> {KBranch, KBatch, KPack}"
  shows "ms \<noteq> []"
  using assms(2) nodeDependencies_nonempty(1) [OF assms(1) _ assms(3)]
  by (auto simp: present_deps_def split: sum.splits option.splits if_splits)

lemma expected_commitment_absent:
  assumes "nodeDependencies H a n = Inr ds" "present_deps H a n = None"
    and "archive_kind (node_source n) \<in> {KBranch, KBatch, KPack}"
  shows "expected_commitment H a p n ds = Inr None"
  using assms by (cases "node_source n")
    (auto simp: expected_commitment_def present_deps_def list_all_iff split: option.splits if_splits)

lemma expected_commitment_present:
  assumes "nodeDependencies H a n = Inr ds" "present_deps H a n = Some ps" "ps \<noteq> []"
    and "archive_kind (node_source n) \<in> {KBranch, KBatch, KPack}"
  shows "expected_commitment H a p n ds = bindE
    (case node_source n of
       ABranch prev payload g \<Rightarrow> expected_branch H p g payload (hd ps)
     | ABatch members \<Rightarrow> expected_aggregate H deriveBatchHash ps
     | _ \<Rightarrow> expected_aggregate H derivePackHash ps) (\<lambda>e. Inr (Some e))"
proof -
  obtain xs where xs: "ds = Some xs" "list_all (\<lambda>d. get (arch_nodes a) d \<noteq> None) xs"
      "ps = map (\<lambda>d. the (get (arch_nodes a) d)) xs"
    using assms(1,2) by (auto simp: present_deps_def list_all_iff split: option.splits if_splits)
  have "ps ! 0 = hd ps" using assms(3) by (cases ps) simp_all
  with xs assms(4) show ?thesis
    by (cases "node_source n") (simp_all add: expected_commitment_def)
qed

text \<open>The commitment the code recomputes is the reference one.\<close>

lemma expected_commitment_wf:
  assumes "host_ok H" "wf_nodes H a" "wf_node H n" "nodeDependencies H a n = Inr ds"
  shows "expected_commitment H a p n ds =
    (if generation_ok H a n then Inr (commitment H a n) else Inl (branch_generation_error p))"
proof (cases "archive_kind (node_source n) \<in> {KBranch, KBatch, KPack}")
  case True
  show ?thesis
  proof (cases "present_deps H a n")
    case None
    then show ?thesis
      using expected_commitment_absent [OF assms(4) None True] True
      by (cases "node_source n") (simp_all add: commitment_def generation_ok_def)
  next
    case (Some ps)
    have wf: "list_all (wf_node H) ps" and "ps \<noteq> []"
      using present_deps_wf [OF assms(2) Some] present_deps_nonempty [OF assms(3) Some True] by auto
    then have "wf_node H (hd ps)" by (simp add: list_all_iff)
    note branch = expected_branch_wf [OF assms(1) this]
      and aggregate = expected_aggregate_wf [OF assms(1) wf \<open>ps \<noteq> []\<close>]
      and present = expected_commitment_present [OF assms(4) Some \<open>ps \<noteq> []\<close> True]
    show ?thesis
      using True assms(3) branch [of _ _ p] aggregate
      by (cases "node_source n")
        (simp_all add: present commitment_def generation_ok_def node_generation_def Some wf_node_def)
  qed
next
  case False
  show ?thesis
  proof (cases "node_source n")
    case (AAccount account)
    with assms(3) have "key_text H account" "\<And>s. node_snapshot n = Some s \<Longrightarrow> wf_snapshot H s"
      by (simp_all add: wf_node_def)
    with AAccount show ?thesis
      using deriveAccountSnapshotHash_wf [OF assms(1)]
      by (cases "node_snapshot n") (fastforce simp: expected_commitment_def commitment_def generation_ok_def)+
  qed (use False in \<open>auto simp: expected_commitment_def commitment_def generation_ok_def split: option.splits\<close>)
qed

lemma commitment_length: "host_ok H \<Longrightarrow> commitment H a n = Some e \<Longrightarrow> length e = 32"
  by (auto simp: commitment_def snapshot_digest_def branch_digest_def aggregate_digest_def sha256_length
      split: archive_source.splits)

lemma commits_wf:
  assumes "host_ok H" "wf_nodes H a" "wf_node H n"
  shows "commits H a p n \<longleftrightarrow>
    (\<exists>ds. nodeDependencies H a n = Inr ds) \<and> generation_ok H a n \<and>
    (\<forall>e. commitment H a n = Some e \<longrightarrow> node_hash n = hex_of_bytes e)"
proof (cases "nodeDependencies H a n")
  case (Inr ds)
  have hex: "archiveHex H (JBytes e) = Inr (node_hash n) \<longleftrightarrow> node_hash n = hex_of_bytes e"
    if "commitment H a n = Some e" for e
    using commitment_length [OF assms(1) that] by (auto simp: archiveHex_ok)
  show ?thesis
    using expected_commitment_wf [OF assms Inr, of p] hex by (auto simp: commits_def Inr)
qed (simp add: commits_def)

section \<open>Properties\<close>

abbreviation dependency_edges :: "host \<Rightarrow> hash_archive \<Rightarrow> (string \<times> string) set" where
  "dependency_edges H a \<equiv> edges (arch_nodes a) (nodeDependencies H a)"

lemma reach_keys:
  "p \<in> reach nodes deps (set (keys nodes)) \<and> wanted nodes False p \<longleftrightarrow> p \<in> set (keys nodes)"
  by (auto simp: reach_def wanted_def)

lemma order_all_iff:
  "(\<exists>ordered. dependencyOrder H a (keys (arch_nodes a)) False = Inr ordered) \<longleftrightarrow>
     acyclic (dependency_edges H a) \<and>
     (\<forall>p n. get (arch_nodes a) p = Some n \<longrightarrow> (\<exists>ds. nodeDependencies H a n = Inr ds))"
    (is "?l \<longleftrightarrow> ?r")
proof -
  have "?l \<longleftrightarrow> (\<forall>p \<in> set (keys (arch_nodes a)).
      expandable (arch_nodes a) (nodeDependencies H a) False p \<and> (p, p) \<notin> (dependency_edges H a)\<^sup>+)"
    unfolding dependencyOrder_def dependency_search_decides using reach_keys by blast
  also have "\<dots> \<longleftrightarrow> ?r"
  proof -
    have "(p, p) \<notin> (dependency_edges H a)\<^sup>+" if "p \<notin> set (keys (arch_nodes a))" for p
      using that by (metis edge_present tranclD)
    then have "acyclic (dependency_edges H a) \<longleftrightarrow>
        (\<forall>p \<in> set (keys (arch_nodes a)). (p, p) \<notin> (dependency_edges H a)\<^sup>+)"
      unfolding acyclic_def by blast
    moreover have "(\<forall>p \<in> set (keys (arch_nodes a)). expandable (arch_nodes a) (nodeDependencies H a) False p)
      \<longleftrightarrow> (\<forall>p n. get (arch_nodes a) p = Some n \<longrightarrow> (\<exists>ds. nodeDependencies H a n = Inr ds))"
      unfolding expandable_def using get_key get_None_iff by (metis option.exhaust option.inject)
    ultimately show ?thesis by blast
  qed
  finally show ?thesis .
qed

text \<open>What is missing, and where.\<close>

lemma inspection_of_sets:
  "set (insp_missingNodes (inspection_of H a)) =
     {d. \<exists>(p, n) \<in> set (arch_nodes a). d \<in> set (known_deps H a n) \<and> get (arch_nodes a) d = None}"
  "set (insp_missingWitnesses (inspection_of H a)) =
     {w. \<exists>(p, n) \<in> set (arch_nodes a). w \<in> set (node_gaps H a p n)}"
  "distinct (insp_missingNodes (inspection_of H a))"
  "sorted_wrt codeunit_le (insp_missingNodes (inspection_of H a))"
  by (force simp: inspection_of_def Let_def distinct_add_missing codeunit.sorted_sort_by)+

lemma inspection_of_complete:
  "insp_complete (inspection_of H a) \<longleftrightarrow>
     insp_missingNodes (inspection_of H a) = [] \<and> insp_missingWitnesses (inspection_of H a) = []"
proof -
  have "sort_by codeunit_le xs = [] \<longleftrightarrow> xs = []" for xs
    by (metis length_0_conv length_sort_by)
  then show ?thesis by (simp add: inspection_of_def Let_def)
qed


text \<open>The demonstration archive, evaluated.\<close>

lemma demo_node_pda [simp]:
  assumes "arch_programId a = demo_program" "length k = 32"
  shows "node_pda demo_host a (hex_of_bytes k) = Inr (demo_key k)"
  using assms by (simp add: node_pda_def demo_program_def)

lemma demo_dependencies:
  assumes "arch_programId a = demo_program"
  shows "nodeDependencies demo_host a demo_leaf = Inr (Some [])"
    "nodeDependencies demo_host a demo_branch = Inr (Some [demo_key (demo_id 0 1)])"
    "nodeDependencies demo_host a demo_account = Inr (Some [])"
    "nodeDependencies demo_host a demo_batch = Inr (Some [demo_key (demo_id 0 1), demo_key (demo_id 2 2)])"
    "nodeDependencies demo_host a demo_pack = Inr (Some [demo_key (demo_id 0 1)])"
  using assms by (simp_all add: nodeDependencies_def demo_node_defs del: hex_of_bytes.simps)

lemma demo_order:
  "dependencyOrder demo_host demo_archive [demo_key demo_batch_id, demo_key demo_pack_id] True =
     Inr [demo_key (demo_id 0 1), demo_key (demo_id 2 2), demo_key demo_batch_id, demo_key demo_pack_id]"
  by (simp add: dependencyOrder_def dependency_search_def demo_nodes demo_dependencies search.simps)


text \<open>C5: a dependency order lists, each once and dependencies before dependents, exactly the
  nodes reachable from the roots along dependency edges (only the present ones when
  completeness is not required). Every listed node is present, its dependencies are known
  when completeness is required, and it depends on itself neither directly nor indirectly.\<close>

theorem dependencyOrder_correct:
  assumes "dependencyOrder H a roots requireComplete = Inr ordered"
  shows "set ordered = {p. (\<exists>r \<in> set roots. (r, p) \<in> (dependency_edges H a)\<^sup>*) \<and>
      (requireComplete \<or> get (arch_nodes a) p \<noteq> None)} \<and>
    distinct ordered \<and>
    (\<forall>us p vs d. ordered = us @ p # vs \<longrightarrow> (p, d) \<in> dependency_edges H a \<longrightarrow>
      (requireComplete \<or> get (arch_nodes a) d \<noteq> None) \<longrightarrow> d \<in> set us) \<and>
    (\<forall>p \<in> set ordered. (p, p) \<notin> (dependency_edges H a)\<^sup>+ \<and>
      (\<exists>n ds. get (arch_nodes a) p = Some n \<and> nodeDependencies H a n = Inr ds \<and>
        (requireComplete \<longrightarrow> ds \<noteq> None)))"
proof -
  note ok = dependency_search_ok [OF assms [unfolded dependencyOrder_def]]
  have w: "wanted (arch_nodes a) requireComplete p \<longleftrightarrow> requireComplete \<or> get (arch_nodes a) p \<noteq> None" for p
    by (simp add: wanted_def get_None_iff)
  show ?thesis
    using ok unfolding topological_def w reach_def expandable_def by (simp add: set_eq_iff Image_iff)
qed

lemma dependencyOrder_correct_witness:
  "\<exists>ordered. dependencyOrder demo_host demo_archive [demo_key demo_batch_id, demo_key demo_pack_id] True = Inr ordered
    \<and> length ordered = 4 \<and> distinct ordered"
  using dependencyOrder_correct [OF demo_order] by (simp add: demo_order)

text \<open>C40: the traversal decides: it returns an order exactly when every node reachable from the
  roots that must be listed is present, has derivable (and, when completeness is required,
  known) dependencies, and lies on no dependency cycle.\<close>

theorem dependencyOrder_decides:
  "(\<exists>ordered. dependencyOrder H a roots requireComplete = Inr ordered) \<longleftrightarrow>
     (\<forall>r \<in> set roots. \<forall>p. (r, p) \<in> (dependency_edges H a)\<^sup>* \<longrightarrow>
        requireComplete \<or> get (arch_nodes a) p \<noteq> None \<longrightarrow>
        (p, p) \<notin> (dependency_edges H a)\<^sup>+ \<and>
        (\<exists>n ds. get (arch_nodes a) p = Some n \<and> nodeDependencies H a n = Inr ds \<and>
          (requireComplete \<longrightarrow> ds \<noteq> None)))"
proof -
  have w: "wanted (arch_nodes a) requireComplete p \<longleftrightarrow> requireComplete \<or> get (arch_nodes a) p \<noteq> None" for p
    by (simp add: wanted_def get_None_iff)
  show ?thesis
    unfolding dependencyOrder_def dependency_search_decides w reach_def expandable_def Ball_def Image_iff
    by blast
qed

text \<open>A missing root of a complete order, and a present one.\<close>

lemma dependencyOrder_decides_witness:
  "(\<nexists>ordered. dependencyOrder demo_host demo_partial [demo_key (demo_id 2 2)] True = Inr ordered) \<and>
   (\<exists>ordered. dependencyOrder demo_host demo_partial [demo_key (demo_id 2 2)] False = Inr ordered)"
proof -
  have "(demo_key (demo_id 2 2), demo_key (demo_id 0 1)) \<in> dependency_edges demo_host demo_partial"
    by (simp add: edges_def demo_nodes demo_dependencies)
  moreover have "get (arch_nodes demo_partial) (demo_key (demo_id 0 1)) = None"
    by (simp add: demo_nodes)
  moreover have "dependencyOrder demo_host demo_partial [demo_key (demo_id 2 2)] False =
      Inr [demo_key (demo_id 2 2)]"
    by (simp add: dependencyOrder_def dependency_search_def demo_nodes demo_dependencies search.simps)
  ultimately show ?thesis
    using dependencyOrder_decides [of demo_host demo_partial "[demo_key (demo_id 2 2)]" True, THEN iffD1]
    by (metis list.set_intros(1) option.distinct(1) r_into_rtrancl)
qed

text \<open>A failing traversal reports a true cause, found among what is reachable from the
  roots: the named node lies on a dependency cycle; or completeness was required and the
  named node is absent or is a pack with unknown members; or deriving the dependencies of a
  present node threw that very error.\<close>

theorem dependencyOrder_error:
  assumes "dependencyOrder H a roots requireComplete = Inl e"
  shows "\<exists>r \<in> set roots. \<exists>p. (r, p) \<in> (dependency_edges H a)\<^sup>* \<and>
    (e = Error (''Cyclic archive dependencies: '' @ p) \<and> (p, p) \<in> (dependency_edges H a)\<^sup>+ \<or>
     requireComplete \<and> e = Error (''Missing archive node: '' @ p) \<and> get (arch_nodes a) p = None \<or>
     (\<exists>n. get (arch_nodes a) p = Some n \<and>
       (requireComplete \<and> e = Error (''Missing Pack members: '' @ p) \<and>
          node_source n = APack \<and> node_members n = None \<or>
        nodeDependencies H a n = Inl e)))"
proof -
  have pack: "node_source n = APack \<and> node_members n = None" if "nodeDependencies H a n = Inr None" for n
    using that by (auto simp: nodeDependencies_def split: archive_source.splits)
  have "search_failure (arch_nodes a) (nodeDependencies H a) requireComplete (set roots) e"
    using assms unfolding dependencyOrder_def by (rule dependency_search_error)
  then obtain p where "p \<in> reach (arch_nodes a) (nodeDependencies H a) (set roots)" and
    "e = cycle_error p \<and> (p, p) \<in> (dependency_edges H a)\<^sup>+ \<or>
     requireComplete \<and> e = missing_node_error p \<and> get (arch_nodes a) p = None \<or>
     (\<exists>n. get (arch_nodes a) p = Some n \<and>
       (requireComplete \<and> e = missing_members_error p \<and> nodeDependencies H a n = Inr None \<or>
        nodeDependencies H a n = Inl e))"
    unfolding search_failure_def by blast
  then show ?thesis
    using pack unfolding reach_def cycle_error_def missing_node_error_def missing_members_error_def
    by blast
qed

lemma dependencyOrder_error_witness:
  "\<exists>e. dependencyOrder demo_host demo_partial [demo_key (demo_id 2 2)] True = Inl e \<and>
     (\<exists>p. (demo_key (demo_id 2 2), p) \<in> (dependency_edges demo_host demo_partial)\<^sup>*)"
proof -
  have "dependencyOrder demo_host demo_partial [demo_key (demo_id 2 2)] True =
      Inl (missing_node_error (demo_key (demo_id 0 1)))"
    by (simp add: dependencyOrder_def dependency_search_def demo_nodes demo_dependencies search.simps)
  with dependencyOrder_error [OF this] show ?thesis by auto
qed


text \<open>C2: an archive of normalized nodes passes inspection exactly when its dependency graph is
  acyclic, the addresses of all dependencies can be derived, every branch with a present
  parent has the next generation, and every node whose inputs are present records the
  digest the protocol assigns to them; the report is then the one \<open>inspection_of\<close>
  describes.\<close>

theorem inspectArchiveGraph_correct:
  assumes "host_ok H" "wf_nodes H a"
  shows "inspectArchiveGraph H a = Inr i \<longleftrightarrow>
    acyclic (dependency_edges H a) \<and>
    (\<forall>(p, n) \<in> set (arch_nodes a).
       (\<exists>ds. nodeDependencies H a n = Inr ds) \<and> generation_ok H a n \<and>
       (\<forall>digest. commitment H a n = Some digest \<longrightarrow> node_hash n = hex_of_bytes digest)) \<and>
    i = inspection_of H a"
proof -
  have "commits H a p n \<longleftrightarrow> (\<exists>ds. nodeDependencies H a n = Inr ds) \<and> generation_ok H a n \<and>
       (\<forall>digest. commitment H a n = Some digest \<longrightarrow> node_hash n = hex_of_bytes digest)"
    if "(p, n) \<in> set (arch_nodes a)" for p n
    by (rule commits_wf [OF assms]) (use assms(2) that in \<open>auto simp: wf_nodes_def\<close>)
  then show ?thesis
    unfolding inspectArchiveGraph_ok order_all_iff using get_mem by fast
qed

lemma demo_digests:
  "branch_digest demo_host demo_leaf (hex_of_bytes (replicate 32 2)) = replicate 32 2"
  "snapshot_digest demo_host (demo_key (replicate 32 7)) demo_snapshot = replicate 32 3"
  "aggregate_digest demo_host [demo_leaf, demo_branch] = replicate 7 0 @ [6, 2] @ replicate 23 2"
  "aggregate_digest demo_host [demo_leaf] = replicate 7 0 @ [5, 0] @ replicate 23 1"
  by (simp_all add: branch_digest_def snapshot_digest_def aggregate_digest_def demo_sha256_def
      branch_frame_def snapshot_frame_def member_frame_def rev_append demo_node_defs node_time_def
      le64_def numeral_eq_Suc del: hex_of_bytes.simps)


lemma demo_archive_wf: "wf_nodes demo_host demo_archive" "wf_nodes demo_host demo_partial"
  by (simp_all add: wf_nodes_def demo_nodes demo_wf_nodes)

lemma demo_present_deps:
  "present_deps demo_host demo_archive demo_branch = Some [demo_leaf]"
  "present_deps demo_host demo_archive demo_batch = Some [demo_leaf, demo_branch]"
  "present_deps demo_host demo_archive demo_pack = Some [demo_leaf]"
  "present_deps demo_host demo_partial demo_branch = None"
  "present_deps demo_host demo_partial demo_pack = None"
  by (simp_all add: present_deps_def demo_nodes demo_dependencies)

lemma demo_commits:
  "(p, n) \<in> set (arch_nodes demo_archive) \<Longrightarrow> commits demo_host demo_archive p n"
  "(p, n) \<in> set (arch_nodes demo_partial) \<Longrightarrow> commits demo_host demo_partial p n"
proof -
  have source [simp]: "node_source demo_leaf = AHash" "node_source demo_branch =
      ABranch (hex_of_bytes (demo_id 0 1)) (hex_of_bytes (replicate 32 2)) (int_to_decimal 1)"
    "node_source demo_account = AAccount (demo_key (replicate 32 7))" "node_source demo_pack = APack"
    "node_source demo_batch = ABatch [hex_of_bytes (demo_id 0 1), hex_of_bytes (demo_id 2 2)]"
    "node_snapshot demo_account = Some demo_snapshot"
    by (simp_all add: demo_node_defs del: hex_of_bytes.simps)
  have hash [simp]: "node_hash demo_branch = hex_of_bytes (replicate 32 2)"
    "node_hash demo_account = hex_of_bytes (replicate 32 3)"
    "node_hash demo_batch = hex_of_bytes (replicate 7 0 @ [6, 2] @ replicate 23 2)"
    "node_hash demo_pack = hex_of_bytes (replicate 7 0 @ [5, 0] @ replicate 23 1)"
    by (simp_all add: demo_node_defs)
  show "(p, n) \<in> set (arch_nodes demo_archive) \<Longrightarrow> commits demo_host demo_archive p n"
    by (rule commits_wf [THEN iffD2]) (auto simp: demo_archive_wf demo_nodes demo_wf_nodes
        demo_dependencies generation_ok_def demo_present_deps  commitment_def
        node_generation_def demo_digests simp del: hex_of_bytes.simps)
  show "(p, n) \<in> set (arch_nodes demo_partial) \<Longrightarrow> commits demo_host demo_partial p n"
    by (rule commits_wf [THEN iffD2]) (auto simp: demo_archive_wf demo_nodes demo_wf_nodes
        demo_dependencies generation_ok_def demo_present_deps  commitment_def
        simp del: hex_of_bytes.simps)
qed

lemma demo_inspect:
  "inspectArchiveGraph demo_host demo_archive = Inr (inspection_of demo_host demo_archive)"
  "inspectArchiveGraph demo_host demo_partial = Inr (inspection_of demo_host demo_partial)"
proof -
  have "\<exists>ordered. dependencyOrder demo_host demo_archive (keys (arch_nodes demo_archive)) False = Inr ordered"
    "\<exists>ordered. dependencyOrder demo_host demo_partial (keys (arch_nodes demo_partial)) False = Inr ordered"
    by (simp_all add: dependencyOrder_def dependency_search_def demo_nodes
        demo_dependencies search.simps)
  then show "inspectArchiveGraph demo_host demo_archive = Inr (inspection_of demo_host demo_archive)"
    "inspectArchiveGraph demo_host demo_partial = Inr (inspection_of demo_host demo_partial)"
    unfolding inspectArchiveGraph_ok using demo_commits by blast+
qed

lemma inspectArchiveGraph_correct_witness:
  "acyclic (dependency_edges demo_host demo_archive) \<and>
   node_hash demo_batch = hex_of_bytes (aggregate_digest demo_host [demo_leaf, demo_branch])"
proof -
  have "(demo_key demo_batch_id, demo_batch) \<in> set (arch_nodes demo_archive)" by (simp add: demo_nodes)
  moreover have "commitment demo_host demo_archive demo_batch = Some (aggregate_digest demo_host [demo_leaf, demo_branch])"
    unfolding commitment_def demo_present_deps by (simp add: demo_batch_def)
  ultimately show ?thesis
    using inspectArchiveGraph_correct [OF demo_host_ok demo_archive_wf(1), THEN iffD1, OF demo_inspect(1)]
    by blast
qed

text \<open>A successful inspection reports exactly the gaps: every dependency named by a node but
  absent from the archive, once and in code-unit order; a missing member list for each pack
  without one and a missing snapshot for each account without one. It calls the archive
  complete exactly when there is no gap of any kind.\<close>

theorem inspectArchiveGraph_reports:
  assumes "inspectArchiveGraph H a = Inr i"
  shows "set (insp_missingNodes i) =
      {d. \<exists>p n ds. (p, n) \<in> set (arch_nodes a) \<and> nodeDependencies H a n = Inr (Some ds) \<and>
         d \<in> set ds \<and> get (arch_nodes a) d = None} \<and>
    distinct (insp_missingNodes i) \<and> sorted_wrt codeunit_le (insp_missingNodes i) \<and>
    set (insp_missingWitnesses i) =
      {(p, ''members'') | p n. (p, n) \<in> set (arch_nodes a) \<and> node_source n = APack \<and> node_members n = None} \<union>
      {(p, ''snapshot'') | p n. (p, n) \<in> set (arch_nodes a) \<and> (\<exists>k. node_source n = AAccount k) \<and>
         node_snapshot n = None} \<and>
    (insp_complete i \<longleftrightarrow> insp_missingNodes i = [] \<and> insp_missingWitnesses i = [])"
proof -
  have i: "i = inspection_of H a" using assms by (simp add: inspectArchiveGraph_ok)
  have known: "d \<in> set (known_deps H a n) \<longleftrightarrow> (\<exists>ds. nodeDependencies H a n = Inr (Some ds) \<and> d \<in> set ds)" for d n
    by (cases "nodeDependencies H a n") (auto simp: known_deps_def split: option.split)
  have pack: "nodeDependencies H a n = Inr None \<longleftrightarrow> node_source n = APack \<and> node_members n = None" for n
    by (auto simp: nodeDependencies_def split: archive_source.splits)
  have account: "archive_kind (node_source n) = KAccount \<longleftrightarrow> (\<exists>k. node_source n = AAccount k)" for n
    by (cases "node_source n") auto
  have gaps: "w \<in> set (node_gaps H a p n) \<longleftrightarrow>
      w = (p, ''members'') \<and> node_source n = APack \<and> node_members n = None \<or>
      w = (p, ''snapshot'') \<and> (\<exists>k. node_source n = AAccount k) \<and> node_snapshot n = None" for w p n
    by (simp add: node_gaps_def pack account)
  have "set (insp_missingWitnesses i) =
      {(p, ''members'') | p n. (p, n) \<in> set (arch_nodes a) \<and> node_source n = APack \<and> node_members n = None} \<union>
      {(p, ''snapshot'') | p n. (p, n) \<in> set (arch_nodes a) \<and> (\<exists>k. node_source n = AAccount k) \<and>
         node_snapshot n = None}"
    unfolding i inspection_of_sets gaps by blast
  moreover have "set (insp_missingNodes i) =
      {d. \<exists>p n ds. (p, n) \<in> set (arch_nodes a) \<and> nodeDependencies H a n = Inr (Some ds) \<and>
         d \<in> set ds \<and> get (arch_nodes a) d = None}"
    unfolding i inspection_of_sets known by blast
  ultimately show ?thesis
    using inspection_of_sets(3,4) [of H a] inspection_of_complete [of H a] i by simp
qed

lemma inspectArchiveGraph_reports_witness:
  "\<exists>i. inspectArchiveGraph demo_host demo_partial = Inr i \<and>
     demo_key (demo_id 0 1) \<in> set (insp_missingNodes i) \<and> \<not> insp_complete i"
proof -
  let ?i = "inspection_of demo_host demo_partial"
  have "(demo_key (demo_id 2 2), demo_branch) \<in> set (arch_nodes demo_partial)"
    "nodeDependencies demo_host demo_partial demo_branch = Inr (Some [demo_key (demo_id 0 1)])"
    "get (arch_nodes demo_partial) (demo_key (demo_id 0 1)) = None"
    by (simp_all add: demo_nodes demo_dependencies)
  then have "demo_key (demo_id 0 1) \<in> set (insp_missingNodes ?i)"
    unfolding inspectArchiveGraph_reports [OF demo_inspect(2), THEN conjunct1] mem_Collect_eq
    by (intro exI conjI) (assumption | simp)+
  moreover from this have "insp_missingNodes ?i \<noteq> []" by auto
  ultimately show ?thesis
    using inspectArchiveGraph_reports [OF demo_inspect(2)] demo_inspect(2) by simp
qed

end
