(* ===== verification/JsonText.thy ===== *)
theory JsonText
  imports Normalization
begin

text \<open>
  \<open>JSON.stringify\<close> and \<open>JSON.parse\<close> on the values an archive consists of. The
  parser is shown to read every JSON text of a value, with any white space between tokens and
  any spelling of strings and numbers, hence both the compact and the indented output of the
  printer.
\<close>

section \<open>Printing\<close>

definition escape_char :: "char \<Rightarrow> string" where
  "escape_char c =
     (let n = of_char c :: nat in
      if c = CHR 0x22 then [CHR 0x5C, CHR 0x22]
      else if c = CHR 0x5C then [CHR 0x5C, CHR 0x5C]
      else if n = 8 then [CHR 0x5C, CHR ''b'']
      else if n = 9 then [CHR 0x5C, CHR ''t'']
      else if n = 10 then [CHR 0x5C, CHR ''n'']
      else if n = 12 then [CHR 0x5C, CHR ''f'']
      else if n = 13 then [CHR 0x5C, CHR ''r'']
      else if n < 32 then
        [CHR 0x5C, CHR ''u'', CHR ''0'', CHR ''0'', digit_char (n div 16), digit_char (n mod 16)]
      else [c])"

definition quote :: "string \<Rightarrow> string" where
  "quote s = CHR 0x22 # concat (map escape_char s) @ [CHR 0x22]"

fun join :: "string \<Rightarrow> string list \<Rightarrow> string" where
  "join sep [] = []"
| "join sep [t] = t"
| "join sep (t # ts) = t @ sep @ join sep ts"

definition number_text :: "host \<Rightarrow> jsnum \<Rightarrow> string" where
  "number_text H n = (case n of
      Finite r \<Rightarrow> if is_integer r \<and> \<bar>r\<bar> < 10 ^ 21 then int_to_decimal \<lfloor>r\<rfloor> else valueToString H (JNumber n)
    | _ \<Rightarrow> ''null'')"

text \<open>\<open>JSON.stringify(v)\<close>. Values without a JSON form, which an archive never holds,
  are left to the host.\<close>

fun json_text :: "host \<Rightarrow> jsval \<Rightarrow> string" where
  "json_text H JNull = ''null''"
| "json_text H (JBool b) = (if b then ''true'' else ''false'')"
| "json_text H (JNumber n) = number_text H n"
| "json_text H (JString s) = quote s"
| "json_text H (JArray vs) = ''['' @ join '','' (map (json_text H) vs) @ '']''"
| "json_text H (JObject es) =
     ''{'' @ join '','' (map (\<lambda>(k, v). quote k @ '':'' @ json_text H v) es) @ ''}''"
| "json_text H v = valueToString H v"

definition newline :: "nat \<Rightarrow> string" where
  "newline depth = CHR 0x0A # replicate (2 * depth) CHR 0x20"

text \<open>\<open>JSON.stringify(v, null, 2)\<close> at a nesting depth.\<close>

fun json_pretty :: "host \<Rightarrow> nat \<Rightarrow> jsval \<Rightarrow> string" where
  "json_pretty H depth (JArray vs) =
     (if vs = [] then ''[]''
      else ''['' @ newline (Suc depth) @
        join ('','' @ newline (Suc depth)) (map (json_pretty H (Suc depth)) vs) @ newline depth @ '']'')"
| "json_pretty H depth (JObject es) =
     (if es = [] then ''{}''
      else ''{'' @ newline (Suc depth) @
        join ('','' @ newline (Suc depth))
          (map (\<lambda>(k, v). quote k @ '': '' @ json_pretty H (Suc depth) v) es) @ newline depth @ ''}'')"
| "json_pretty H depth v = json_text H v"

section \<open>Parsing\<close>

definition json_space :: "char \<Rightarrow> bool" where
  "json_space c \<longleftrightarrow> c = CHR 0x20 \<or> c = CHR 0x09 \<or> c = CHR 0x0A \<or> c = CHR 0x0D"

definition skip_ws :: "string \<Rightarrow> string" where
  "skip_ws s = dropWhile json_space s"

text \<open>The value of an escape \<open>\u....\<close>; code units above 255 are outside the model's
  strings, and no archive that contains one is accepted.\<close>

definition unicode_escape :: "string \<Rightarrow> char option" where
  "unicode_escape ds =
     (if list_all (is_digit 16) ds \<and> radix_value 16 ds < 256 then Some (char_of (radix_value 16 ds)) else None)"

definition simple_escape :: "char \<Rightarrow> char option" where
  "simple_escape e =
     (if e = CHR 0x22 \<or> e = CHR 0x5C \<or> e = CHR 0x2F then Some e
      else if e = CHR ''b'' then Some (CHR 0x08)
      else if e = CHR ''f'' then Some (CHR 0x0C)
      else if e = CHR ''n'' then Some (CHR 0x0A)
      else if e = CHR ''r'' then Some (CHR 0x0D)
      else if e = CHR ''t'' then Some (CHR 0x09)
      else None)"

text \<open>The rest of a string literal, after its opening quote.\<close>

function parse_string :: "string \<Rightarrow> (string \<times> string) option" where
  "parse_string s = (case s of
      [] \<Rightarrow> None
    | c # r \<Rightarrow>
        if c = CHR 0x22 then Some ([], r)
        else if c = CHR 0x5C then
          (case r of
             [] \<Rightarrow> None
           | e # r' \<Rightarrow>
               if e = CHR ''u'' then
                 (case (if length r' < 4 then None else unicode_escape (take 4 r')) of
                    None \<Rightarrow> None
                  | Some d \<Rightarrow> map_option (\<lambda>(t, u). (d # t, u)) (parse_string (drop 4 r')))
               else
                 (case simple_escape e of
                    None \<Rightarrow> None
                  | Some d \<Rightarrow> map_option (\<lambda>(t, u). (d # t, u)) (parse_string r')))
        else if (of_char c :: nat) < 32 then None
        else map_option (\<lambda>(t, u). (c # t, u)) (parse_string r))"
  by pat_completeness auto
termination by (relation "measure length") auto

declare parse_string.simps [simp del]

text \<open>A number lexeme: sign, integer part, fraction, exponent.\<close>

definition take_digits :: "string \<Rightarrow> string \<times> string" where
  "take_digits s = (takeWhile (is_digit 10) s, dropWhile (is_digit 10) s)"

definition parse_fraction :: "string \<Rightarrow> (string \<times> string) option" where
  "parse_fraction s = (case s of
      c # r \<Rightarrow>
        if c = CHR ''.'' then
          (case take_digits r of (ds, r') \<Rightarrow> if ds = [] then None else Some (c # ds, r'))
        else Some ([], s)
    | [] \<Rightarrow> Some ([], s))"

definition parse_exponent :: "string \<Rightarrow> (string \<times> string) option" where
  "parse_exponent s = (case s of
      c # r \<Rightarrow>
        if c = CHR ''e'' \<or> c = CHR ''E'' then
          (let sign = (if r \<noteq> [] \<and> (hd r = CHR ''+'' \<or> hd r = CHR ''-'') then [hd r] else []) in
           case take_digits (drop (length sign) r) of
             (ds, r') \<Rightarrow> if ds = [] then None else Some (c # sign @ ds, r'))
        else Some ([], s)
    | [] \<Rightarrow> Some ([], s))"

definition parse_number :: "host \<Rightarrow> string \<Rightarrow> (jsnum \<times> string) option" where
  "parse_number H s =
     (let sign = (if s \<noteq> [] \<and> hd s = CHR ''-'' then ''-'' else []) in
      case take_digits (drop (length sign) s) of (ds, r) \<Rightarrow>
        if ds = [] \<or> (hd ds = CHR ''0'' \<and> length ds > 1) then None
        else case parse_fraction r of
          None \<Rightarrow> None
        | Some (fraction, r1) \<Rightarrow>
            (case parse_exponent r1 of
               None \<Rightarrow> None
             | Some (expo, r2) \<Rightarrow>
                 if fraction = [] \<and> expo = [] \<and> length ds \<le> 15
                 then Some (Finite (of_int ((if sign = [] then 1 else - 1) * int (radix_value 10 ds))), r2)
                 else Some (textToNumber H (sign @ ds @ fraction @ expo), r2)))"

definition strip_prefix :: "string \<Rightarrow> string \<Rightarrow> string option" where
  "strip_prefix p s = (if take (length p) s = p then Some (drop (length p) s) else None)"

lemma length_skip_ws: "length (skip_ws s) \<le> length s"
  by (simp add: skip_ws_def length_dropWhile_le)

lemma skip_ws_Cons: "skip_ws s = c # r \<Longrightarrow> length r < length s"
  using length_skip_ws [of s] by simp

lemma parse_string_SomeD:
  assumes "parse_string s = Some (t, u)"
  shows "length u < length s \<or> (\<exists>t' s'. parse_string s' = Some (t', u) \<and> length s' < length s)"
proof (cases s)
  case Nil
  with assms show ?thesis by (simp add: parse_string.simps)
next
  case (Cons c r)
  show ?thesis
  proof (cases "c = CHR 0x22 \<or> c \<noteq> CHR 0x5C")
    case True
    with assms Cons show ?thesis
      by (subst (asm) parse_string.simps) (auto split: if_splits)
  next
    case False
    with assms Cons obtain e r' where r: "r = e # r'"
      by (subst (asm) parse_string.simps) (auto split: list.splits)
    with False assms Cons have "\<exists>t'. parse_string (if e = CHR ''u'' then drop 4 r' else r') = Some (t', u)"
      by (subst (asm) parse_string.simps) (auto split: if_splits option.splits)
    moreover have "length (if e = CHR ''u'' then drop 4 r' else r') < length s"
      using Cons r by (auto intro: le_less_trans [OF diff_le_self])
    ultimately show ?thesis by blast
  qed
qed

lemma parse_string_shorter: "parse_string s = Some (t, u) \<Longrightarrow> length u < length s"
proof (induction "length s" arbitrary: s t rule: less_induct)
  case less
  from parse_string_SomeD [OF less.prems] show ?case
    using less.hyps by (meson less_trans)
qed

text \<open>
  Recursive descent over values, array elements and object members. The comparison of
  lengths before the next element only serves the termination argument: a value never
  parses from no text (\<open>parse_value_shorter\<close>).
\<close>

function (sequential)
  parse_value :: "host \<Rightarrow> string \<Rightarrow> (jsval \<times> string) option" and
  parse_elements :: "host \<Rightarrow> jsval list \<Rightarrow> string \<Rightarrow> (jsval \<times> string) option" and
  parse_members :: "host \<Rightarrow> (string \<times> jsval) list \<Rightarrow> string \<Rightarrow> (jsval \<times> string) option"
where
  "parse_value H s = (case skip_ws s of
      [] \<Rightarrow> None
    | c # r \<Rightarrow>
        if c = CHR ''{'' then
          (case skip_ws r of
             d # r' \<Rightarrow> if d = CHR ''}'' then Some (JObject [], r') else parse_members H [] r
           | [] \<Rightarrow> None)
        else if c = CHR ''['' then
          (case skip_ws r of
             d # r' \<Rightarrow> if d = CHR '']'' then Some (JArray [], r') else parse_elements H [] r
           | [] \<Rightarrow> None)
        else if c = CHR 0x22 then map_option (\<lambda>(t, u). (JString t, u)) (parse_string r)
        else if c = CHR ''t'' then map_option (\<lambda>u. (JBool True, u)) (strip_prefix ''rue'' r)
        else if c = CHR ''f'' then map_option (\<lambda>u. (JBool False, u)) (strip_prefix ''alse'' r)
        else if c = CHR ''n'' then map_option (\<lambda>u. (JNull, u)) (strip_prefix ''ull'' r)
        else map_option (\<lambda>(n, u). (JNumber n, u)) (parse_number H (c # r)))"
| "parse_elements H acc s = (case parse_value H s of
      None \<Rightarrow> None
    | Some (v, u) \<Rightarrow>
        (case skip_ws u of
           [] \<Rightarrow> None
         | c # r \<Rightarrow>
             if c = CHR '']'' then Some (JArray (acc @ [v]), r)
             else if c = CHR '','' \<and> length r < length s then parse_elements H (acc @ [v]) r
             else None))"
| "parse_members H acc s = (case skip_ws s of
      [] \<Rightarrow> None
    | q # s1 \<Rightarrow>
        if q \<noteq> CHR 0x22 then None else
        (case parse_string s1 of
           None \<Rightarrow> None
         | Some (k, s2) \<Rightarrow>
             (case skip_ws s2 of
                [] \<Rightarrow> None
              | d # s3 \<Rightarrow>
                  if d \<noteq> CHR '':'' then None else
                  (case parse_value H s3 of
                     None \<Rightarrow> None
                   | Some (v, u) \<Rightarrow>
                       (case skip_ws u of
                          [] \<Rightarrow> None
                        | c # r \<Rightarrow>
                            if c = CHR ''}'' then Some (JObject (put acc k v), r)
                            else if c = CHR '','' \<and> length r < length s
                              then parse_members H (put acc k v) r
                            else None)))))"
  by pat_completeness auto
termination
  by (relation "measures
      [\<lambda>x. case x of Inl (H, s) \<Rightarrow> length s | Inr (Inl (H, acc, s)) \<Rightarrow> length s
         | Inr (Inr (H, acc, s)) \<Rightarrow> length s,
       \<lambda>x. case x of Inl _ \<Rightarrow> 0 | _ \<Rightarrow> 1]")
     (auto dest!: skip_ws_Cons parse_string_shorter)

declare parse_value.simps [simp del] parse_elements.simps [simp del] parse_members.simps [simp del]

definition json_parse :: "host \<Rightarrow> string \<Rightarrow> jsval option" where
  "json_parse H s = (case parse_value H s of
      Some (v, r) \<Rightarrow> if skip_ws r = [] then Some v else None
    | None \<Rightarrow> None)"

section \<open>Renderings\<close>

text \<open>No object inside the value repeats a key.\<close>

fun distinct_deep :: "jsval \<Rightarrow> bool" where
  "distinct_deep (JArray vs) = list_all distinct_deep vs"
| "distinct_deep (JObject es) = (distinct (keys es) \<and> list_all (\<lambda>(k, v). distinct_deep v) es)"
| "distinct_deep v = True"

definition blank :: "string \<Rightarrow> bool" where
  "blank w \<longleftrightarrow> list_all json_space w"

text \<open>The spellings of a string's characters: as they are, by a two-character escape, or by their code
  unit. A literal puts them in quotes.\<close>

inductive spells :: "string \<Rightarrow> string \<Rightarrow> bool" where
  s_end: "spells [] []"
| s_plain: "c \<noteq> CHR 0x22 \<Longrightarrow> c \<noteq> CHR 0x5C \<Longrightarrow> 32 \<le> (of_char c :: nat) \<Longrightarrow> spells s t \<Longrightarrow> spells (c # s) (c # t)"
| s_escape: "simple_escape e = Some c \<Longrightarrow> spells s t \<Longrightarrow> spells (c # s) (CHR 0x5C # e # t)"
| s_code: "unicode_escape [d1, d2, d3, d4] = Some c \<Longrightarrow> spells s t \<Longrightarrow>
    spells (c # s) (CHR 0x5C # CHR ''u'' # d1 # d2 # d3 # d4 # t)"

definition literal :: "string \<Rightarrow> string \<Rightarrow> bool" where
  "literal s q \<longleftrightarrow> (\<exists>t. spells s t \<and> q = CHR 0x22 # t @ [CHR 0x22])"

text \<open>The spellings of a number: sign, integer part without leading zero, fraction, exponent. A short
  integer has its own value; the value of any other lexeme is the host's.\<close>

definition digits :: "string \<Rightarrow> bool" where
  "digits ds \<longleftrightarrow> ds \<noteq> [] \<and> list_all (is_digit 10) ds"

definition fraction_text :: "string \<Rightarrow> bool" where
  "fraction_text s \<longleftrightarrow> s = [] \<or> (\<exists>ds. s = CHR ''.'' # ds \<and> digits ds)"

definition exponent_text :: "string \<Rightarrow> bool" where
  "exponent_text s \<longleftrightarrow> s = [] \<or>
     (\<exists>c sign ds. (c = CHR ''e'' \<or> c = CHR ''E'') \<and> sign \<in> {[], ''+'', ''-''} \<and> digits ds \<and> s = c # sign @ ds)"

definition number_spelling :: "host \<Rightarrow> jsnum \<Rightarrow> string \<Rightarrow> bool" where
  "number_spelling H n s \<longleftrightarrow> (\<exists>sign ds fraction expo. s = sign @ ds @ fraction @ expo \<and> sign \<in> {[], ''-''} \<and>
     digits ds \<and> \<not> (hd ds = CHR ''0'' \<and> length ds > 1) \<and> fraction_text fraction \<and> exponent_text expo \<and>
     n = (if fraction = [] \<and> expo = [] \<and> length ds \<le> 15
       then Finite (of_int ((if sign = [] then 1 else - 1) * int (radix_value 10 ds)))
       else textToNumber H (sign @ ds @ fraction @ expo)))"

text \<open>
  \<open>renders H v t\<close>: \<open>t\<close> is a JSON text of \<open>v\<close>, by the grammar of JSON: any white space between
  tokens, any spelling of strings, keys and numbers. \<open>element_texts\<close> and \<open>member_texts\<close> describe
  what follows an opening bracket, up to and with the closing one. Keys may repeat.
\<close>

inductive renders :: "host \<Rightarrow> jsval \<Rightarrow> string \<Rightarrow> bool"
  and element_texts :: "host \<Rightarrow> jsval list \<Rightarrow> string \<Rightarrow> bool"
  and member_texts :: "host \<Rightarrow> (string \<times> jsval) list \<Rightarrow> string \<Rightarrow> bool"
  for H :: host
where
  r_null: "renders H JNull ''null''"
| r_true: "renders H (JBool True) ''true''"
| r_false: "renders H (JBool False) ''false''"
| r_number: "number_spelling H n s \<Longrightarrow> renders H (JNumber n) s"
| r_string: "literal s q \<Longrightarrow> renders H (JString s) q"
| r_empty_array: "blank w \<Longrightarrow> renders H (JArray []) (''['' @ w @ '']'')"
| r_array: "element_texts H vs t \<Longrightarrow> renders H (JArray vs) (''['' @ t)"
| r_empty_object: "blank w \<Longrightarrow> renders H (JObject []) (''{'' @ w @ ''}'')"
| r_object: "member_texts H es t \<Longrightarrow> renders H (JObject es) (''{'' @ t)"
| e_last: "renders H v t \<Longrightarrow> blank w1 \<Longrightarrow> blank w2 \<Longrightarrow> element_texts H [v] (w1 @ t @ w2 @ '']'')"
| e_cons: "renders H v t \<Longrightarrow> blank w1 \<Longrightarrow> blank w2 \<Longrightarrow> element_texts H vs u \<Longrightarrow>
    element_texts H (v # vs) (w1 @ t @ w2 @ '','' @ u)"
| m_last: "literal k q \<Longrightarrow> renders H v t \<Longrightarrow> blank w1 \<Longrightarrow> blank w2 \<Longrightarrow> blank w3 \<Longrightarrow> blank w4 \<Longrightarrow>
    member_texts H [(k, v)] (w1 @ q @ w2 @ '':'' @ w3 @ t @ w4 @ ''}'')"
| m_cons: "literal k q \<Longrightarrow> renders H v t \<Longrightarrow> blank w1 \<Longrightarrow> blank w2 \<Longrightarrow> blank w3 \<Longrightarrow> blank w4 \<Longrightarrow> member_texts H es u \<Longrightarrow>
    member_texts H ((k, v) # es) (w1 @ q @ w2 @ '':'' @ w3 @ t @ w4 @ '','' @ u)"

subsection \<open>Strings and numbers\<close>

lemma parse_string_plain:
  "c \<noteq> CHR 0x22 \<Longrightarrow> c \<noteq> CHR 0x5C \<Longrightarrow> 32 \<le> (of_char c :: nat) \<Longrightarrow>
    parse_string (c # r) = map_option (\<lambda>(t, u). (c # t, u)) (parse_string r)"
  by (subst parse_string.simps) simp

lemma parse_string_simple:
  "e \<noteq> CHR ''u'' \<Longrightarrow> simple_escape e = Some d \<Longrightarrow>
    parse_string (CHR 0x5C # e # r) = map_option (\<lambda>(t, u). (d # t, u)) (parse_string r)"
  by (subst parse_string.simps) simp

lemma parse_string_unicode:
  "unicode_escape [a, b, c, e] = Some d \<Longrightarrow>
    parse_string (CHR 0x5C # CHR ''u'' # a # b # c # e # r) =
      map_option (\<lambda>(t, u). (d # t, u)) (parse_string r)"
  by (subst parse_string.simps) simp

lemma parse_string_end: "parse_string (CHR 0x22 # r) = Some ([], r)"
  by (subst parse_string.simps) simp

lemma char_code: "of_char c = (n :: nat) \<Longrightarrow> c = char_of n"
  by auto

lemma parse_spelled: "spells s t \<Longrightarrow> parse_string (t @ CHR 0x22 # r) = Some (s, r)"
proof (induction rule: spells.induct)
  case (s_escape e c s t)
  then have "e \<noteq> CHR ''u''" by (auto simp: simple_escape_def)
  with s_escape show ?case by (simp add: parse_string_simple)
qed (simp_all add: parse_string_end parse_string_plain parse_string_unicode)

lemma spells_escape: "spells s t \<Longrightarrow> spells (c # s) (escape_char c @ t)"
proof -
  assume t: "spells s t"
  let ?n = "of_char c :: nat"
  consider "c = CHR 0x22 \<or> c = CHR 0x5C" | "?n \<in> {8, 9, 10, 12, 13}"
    | "?n < 32" "?n \<notin> {8, 9, 10, 12, 13}" "c \<noteq> CHR 0x22" "c \<noteq> CHR 0x5C"
    | "32 \<le> ?n" "c \<noteq> CHR 0x22" "c \<noteq> CHR 0x5C"
    by fastforce
  then show ?thesis
  proof cases
    case 1
    then show ?thesis
      using s_escape [OF _ t, of c c] by (auto simp: escape_char_def simple_escape_def)
  next
    case 2
    then have "c = CHR 0x08 \<or> c = CHR 0x09 \<or> c = CHR 0x0A \<or> c = CHR 0x0C \<or> c = CHR 0x0D"
      by (auto dest!: char_code simp: char_of_eq_iff)
    then show ?thesis
      using s_escape [OF _ t, of "CHR ''b''" c] s_escape [OF _ t, of "CHR ''t''" c] s_escape [OF _ t, of "CHR ''n''" c]
        s_escape [OF _ t, of "CHR ''f''" c] s_escape [OF _ t, of "CHR ''r''" c]
      by (elim disjE) (simp_all add: escape_char_def simple_escape_def)
  next
    case 3
    then have digits: "?n div 16 < 16" "?n mod 16 < 16" "16 * (?n div 16) + ?n mod 16 = ?n" by auto
    have "digit_val (CHR ''0'') = 0" by (simp add: digit_val_def)
    then have "unicode_escape [CHR ''0'', CHR ''0'', digit_char (?n div 16), digit_char (?n mod 16)] = Some c"
      using digits 3(1) by (simp add: unicode_escape_def radix_value_def is_digit_def)
    from s_code [OF this t] 3 show ?thesis
      by (simp add: escape_char_def Let_def)
  next
    case 4
    then show ?thesis using s_plain [OF _ _ _ t, of c] by (simp add: escape_char_def)
  qed
qed

lemma literal_quote: "literal s (quote s)"
proof -
  have "spells s (concat (map escape_char s))"
    by (induction s) (simp_all add: s_end spells_escape)
  then show ?thesis unfolding literal_def quote_def by blast
qed

lemma literalE:
  assumes "literal s q"
  obtains t where "spells s t" "q = CHR 0x22 # t @ [CHR 0x22]"
  using assms unfolding literal_def by blast

text \<open>What may follow a number without prolonging it.\<close>

definition stops :: "string \<Rightarrow> bool" where
  "stops r \<longleftrightarrow> r = [] \<or> hd r \<in> {CHR '','', CHR '']'', CHR ''}''} \<or> json_space (hd r)"

lemma stops_simps [simp]:
  "stops []" "stops (CHR '','' # r)" "stops (CHR '']'' # r)" "stops (CHR ''}'' # r)"
  by (simp_all add: stops_def)

lemma stops_blank [simp]: "blank w \<Longrightarrow> stops r \<Longrightarrow> stops (w @ r)"
  by (cases w) (auto simp: blank_def stops_def)

lemma stops_number:
  assumes "stops r"
  shows "r = [] \<or> \<not> is_digit 10 (hd r)" "parse_fraction r = Some ([], r)"
    "parse_exponent r = Some ([], r)"
  using assms by (auto simp: stops_def json_space_def is_digit_def digit_val_def parse_fraction_def
      parse_exponent_def split: list.splits)

lemma take_digits_append:
  assumes "list_all (is_digit 10) ds" "r = [] \<or> \<not> is_digit 10 (hd r)"
  shows "take_digits (ds @ r) = (ds, r)"
proof -
  have "takeWhile (is_digit 10) r = []" "dropWhile (is_digit 10) r = r"
    using assms(2) by (cases r; simp)+
  with assms(1) show ?thesis
    by (simp add: take_digits_def list_all_iff takeWhile_append2 dropWhile_append2)
qed

lemma length_nat_to_decimal: "n < 10 ^ Suc k \<Longrightarrow> length (nat_to_decimal n) \<le> Suc k"
proof (induction k arbitrary: n)
  case (Suc k)
  show ?case
  proof (cases "n < 10")
    case False
    with Suc have "length (nat_to_decimal (n div 10)) \<le> Suc k" by simp
    with False show ?thesis by (subst nat_to_decimal.simps) simp
  qed (subst nat_to_decimal.simps, simp)
qed (subst nat_to_decimal.simps, simp)

lemma digit_start:
  assumes "is_digit 10 c"
  shows "c \<noteq> CHR ''.''" "c \<noteq> CHR ''e''" "c \<noteq> CHR ''E''" "c \<noteq> CHR ''+''" "c \<noteq> CHR ''-''"
  using assms by (auto simp: is_digit_def digit_val_def Let_def)

lemma take_digits_digits: "digits ds \<Longrightarrow> r = [] \<or> \<not> is_digit 10 (hd r) \<Longrightarrow> take_digits (ds @ r) = (ds, r)"
  unfolding digits_def by (blast intro: take_digits_append)

lemma parse_exponent_text:
  assumes "exponent_text s" "stops r"
  shows "parse_exponent (s @ r) = Some (s, r)"
proof (cases "s = []")
  case True
  with stops_number(3) [OF assms(2)] show ?thesis by simp
next
  case False
  then obtain c sign ds where s: "c = CHR ''e'' \<or> c = CHR ''E''" "sign = [] \<or> sign = ''+'' \<or> sign = ''-''" "digits ds" "s = c # sign @ ds"
    using assms(1) by (auto simp: exponent_text_def)
  obtain d es where d: "ds = d # es" "is_digit 10 d" using s(3) by (cases ds) (auto simp: digits_def)
  have "take_digits (ds @ r) = (ds, r)" by (rule take_digits_digits [OF s(3) stops_number(1) [OF assms(2)]])
  with s(1,2) digit_start [OF d(2)] show ?thesis
    by (auto simp: parse_exponent_def s(4) d(1) Let_def)
qed

lemma exponent_not_digit:
  assumes "exponent_text s" "stops r"
  shows "s @ r = [] \<or> \<not> is_digit 10 (hd (s @ r))" "s @ r = [] \<or> hd (s @ r) \<noteq> CHR ''.''"
proof -
  have "\<not> is_digit 10 (CHR ''e'')" "\<not> is_digit 10 (CHR ''E'')" by (simp_all add: is_digit_def digit_val_def)
  then show "s @ r = [] \<or> \<not> is_digit 10 (hd (s @ r))"
    using assms stops_number(1) [OF assms(2)] by (auto simp: exponent_text_def)
  show "s @ r = [] \<or> hd (s @ r) \<noteq> CHR ''.''"
    using assms by (auto simp: exponent_text_def stops_def json_space_def)
qed

lemma parse_fraction_text:
  assumes "fraction_text s" "exponent_text e" "stops r"
  shows "parse_fraction (s @ e @ r) = Some (s, e @ r)"
proof (cases "s = []")
  case True
  with exponent_not_digit(2) [OF assms(2,3)] show ?thesis
    by (auto simp: parse_fraction_def split: list.split)
next
  case False
  then obtain ds where s: "s = CHR ''.'' # ds" "digits ds" using assms(1) by (auto simp: fraction_text_def)
  from take_digits_digits [OF s(2) exponent_not_digit(1) [OF assms(2,3)]] s(2) show ?thesis
    by (simp add: parse_fraction_def s(1) digits_def)
qed

lemma fraction_not_digit:
  assumes "fraction_text s" "exponent_text e" "stops r"
  shows "s @ e @ r = [] \<or> \<not> is_digit 10 (hd (s @ e @ r))"
proof -
  have "\<not> is_digit 10 (CHR ''.'')" by (simp add: is_digit_def digit_val_def)
  then show ?thesis
    using assms(1) exponent_not_digit(1) [OF assms(2,3)] by (auto simp: fraction_text_def)
qed

lemma parse_number_spelling:
  assumes "number_spelling H n s" "stops r"
  shows "parse_number H (s @ r) = Some (n, r)"
proof -
  obtain sign ds fraction expo where s: "s = sign @ ds @ fraction @ expo" "sign = [] \<or> sign = ''-''" "digits ds"
    "\<not> (hd ds = CHR ''0'' \<and> length ds > 1)" "fraction_text fraction" "exponent_text expo"
    "n = (if fraction = [] \<and> expo = [] \<and> length ds \<le> 15
       then Finite (of_int ((if sign = [] then 1 else - 1) * int (radix_value 10 ds)))
       else textToNumber H (sign @ ds @ fraction @ expo))"
    using assms(1) by (auto simp: number_spelling_def)
  have ds: "take_digits (ds @ fraction @ expo @ r) = (ds, fraction @ expo @ r)"
    by (rule take_digits_digits [OF s(3) fraction_not_digit [OF s(5,6) assms(2)]])
  obtain d es where d: "ds = d # es" "is_digit 10 d" using s(3) by (cases ds) (auto simp: digits_def)
  note rest = parse_fraction_text [OF s(5,6) assms(2)] parse_exponent_text [OF s(6) assms(2)]
  from s(2) show ?thesis
  proof
    assume sign: "sign = []"
    have "hd (s @ r) \<noteq> CHR ''-''" using digit_start(5) [OF d(2)] by (simp add: s(1) sign d(1))
    with ds rest s(4) show ?thesis by (simp add: parse_number_def s(1,7) sign d(1) Let_def)
  next
    assume sign: "sign = ''-''"
    from ds rest s(4) show ?thesis by (simp add: parse_number_def s(1,7) sign d(1) Let_def)
  qed
qed

lemma number_spelling_decimal:
  assumes "\<bar>i\<bar> < 10 ^ 15"
  shows "number_spelling H (Finite (of_int i)) (int_to_decimal i)"
proof -
  let ?ds = "nat_to_decimal (nat \<bar>i\<bar>)" and ?sign = "if i < 0 then ''-'' else []"
  have "nat \<bar>i\<bar> < 10 ^ Suc 14" using assms by simp
  then have len: "length ?ds \<le> 15" using length_nat_to_decimal [of "nat \<bar>i\<bar>" 14] by simp
  have zero: "\<not> (hd ?ds = CHR ''0'' \<and> length ?ds > 1)"
    using nat_to_decimal_hd [of "nat \<bar>i\<bar>"] by (cases "i = 0") (auto simp: nat_to_decimal.simps [of 0])
  have "digits ?ds" using nat_to_decimal_digits [of "nat \<bar>i\<bar>"] by (simp add: digits_def)
  moreover have "int_to_decimal i = ?sign @ ?ds @ [] @ []" by (auto simp: int_to_decimal_def)
  moreover have "(if ?sign = [] then 1 else - 1) * int (radix_value 10 ?ds) = i" by simp
  ultimately show ?thesis
    unfolding number_spelling_def using len zero
    by - (rule exI [of _ ?sign], rule exI [of _ ?ds], rule exI [of _ "[]"], rule exI [of _ "[]"],
      simp add: fraction_text_def exponent_text_def)
qed

subsection \<open>Every rendering parses\<close>

lemma skip_ws_simps:
  "skip_ws [] = []"
  "skip_ws (c # r) = (if json_space c then skip_ws r else c # r)"
  by (simp_all add: skip_ws_def)

lemma skip_ws_blank [simp]: "blank w \<Longrightarrow> skip_ws (w @ r) = skip_ws r"
  by (simp add: skip_ws_def blank_def list_all_iff dropWhile_append2)

lemma skip_ws_symbol [simp]:
  "skip_ws (CHR ''{'' # r) = CHR ''{'' # r" "skip_ws (CHR ''}'' # r) = CHR ''}'' # r"
  "skip_ws (CHR ''['' # r) = CHR ''['' # r" "skip_ws (CHR '']'' # r) = CHR '']'' # r"
  "skip_ws (CHR '','' # r) = CHR '','' # r" "skip_ws (CHR '':'' # r) = CHR '':'' # r"
  "skip_ws (CHR 0x22 # r) = CHR 0x22 # r"
  by (simp_all add: skip_ws_simps json_space_def)

lemma parse_value_blank [simp]: "blank w \<Longrightarrow> parse_value H (w @ r) = parse_value H r"
  by (subst (1 2) parse_value.simps) simp

lemma number_spelling_start:
  assumes "number_spelling H n s"
  obtains c t where "s = c # t" "is_digit 10 c \<or> c = CHR ''-''"
proof -
  obtain sign ds fraction expo where s: "s = sign @ ds @ fraction @ expo" "sign = [] \<or> sign = ''-''" "digits ds"
    using assms by (auto simp: number_spelling_def)
  then obtain d es where "ds = d # es" "is_digit 10 d" by (cases ds) (auto simp: digits_def)
  with s that show thesis by auto
qed

lemma number_start:
  assumes "is_digit 10 c \<or> c = CHR ''-''"
  shows "\<not> json_space c" "c \<noteq> CHR ''{''" "c \<noteq> CHR ''[''" "c \<noteq> CHR 0x22" "c \<noteq> CHR ''t''"
    "c \<noteq> CHR ''f''" "c \<noteq> CHR ''n''" "c \<noteq> CHR '']''" "c \<noteq> CHR ''}''"
  using assms by (auto simp: is_digit_def digit_val_def json_space_def Let_def)

lemma parse_value_number:
  assumes "number_spelling H n s" "stops r"
  shows "parse_value H (s @ r) = Some (JNumber n, r)"
proof -
  obtain c t where ct: "s = c # t" "is_digit 10 c \<or> c = CHR ''-''" by (rule number_spelling_start [OF assms(1)])
  note start = number_start [OF ct(2)]
  have "parse_number H (c # t @ r) = Some (n, r)"
    using parse_number_spelling [OF assms] by (simp add: ct)
  with start show ?thesis
    by (subst parse_value.simps) (simp add: ct skip_ws_simps)
qed

text \<open>The first character of a rendering closes nothing.\<close>

lemma renders_start:
  assumes "renders H v t"
  shows "\<exists>c r. t = c # r \<and> \<not> json_space c \<and> c \<noteq> CHR '']'' \<and> c \<noteq> CHR ''}''"
  using assms
proof (cases rule: renders.cases)
  case (r_number n)
  obtain c r where "t = c # r" "is_digit 10 c \<or> c = CHR ''-''" by (rule number_spelling_start [OF r_number(2)])
  with number_start [of c] show ?thesis by simp
qed (auto simp: json_space_def literal_def)

lemma elements_start: "element_texts H vs t \<Longrightarrow> \<exists>c r. skip_ws (t @ s) = c # r \<and> c \<noteq> CHR '']''"
  by (cases rule: element_texts.cases) (use renders_start in \<open>fastforce simp: skip_ws_simps\<close>)+

lemma members_start: "member_texts H es t \<Longrightarrow> \<exists>c r. skip_ws (t @ s) = c # r \<and> c \<noteq> CHR ''}''"
  by (cases rule: member_texts.cases) (auto simp: literal_def)

lemma put_append_new: "k \<notin> set (keys acc) \<Longrightarrow> put acc k v = acc @ [(k, v)]"
  by (rule put_new)

lemma parse_renders:
  "renders H v t \<Longrightarrow> distinct_deep v \<Longrightarrow> stops r \<Longrightarrow> parse_value H (t @ r) = Some (v, r)"
  "element_texts H vs t \<Longrightarrow> list_all distinct_deep vs \<Longrightarrow> parse_elements H acc (t @ r) = Some (JArray (acc @ vs), r)"
  "member_texts H es t \<Longrightarrow> list_all (\<lambda>(k, v). distinct_deep v) es \<Longrightarrow> distinct (keys (obj @ es)) \<Longrightarrow>
     parse_members H obj (t @ r) = Some (JObject (obj @ es), r)"
proof (induction arbitrary: r and acc r and obj r rule: renders_element_texts_member_texts.inducts)
  case (r_number n s)
  then show ?case by (simp add: parse_value_number)
next
  case (r_string s q)
  obtain t where "spells s t" "q = CHR 0x22 # t @ [CHR 0x22]" by (rule literalE [OF r_string.hyps])
  with parse_spelled [OF this(1)] show ?case
    by (subst parse_value.simps) simp
next
  case (r_array vs t)
  obtain c u where "skip_ws (t @ r) = c # u" "c \<noteq> CHR '']''"
    using elements_start [OF r_array.IH(1)] by blast
  then show ?case
    using r_array.IH(2) [of "[]" r] r_array.prems by (subst parse_value.simps) simp
next
  case (r_object es t)
  obtain c u where "skip_ws (t @ r) = c # u" "c \<noteq> CHR ''}''"
    using members_start [OF r_object.IH(1)] by blast
  then show ?case
    using r_object.IH(2) [of "[]" r] r_object.prems by (subst parse_value.simps) simp
next
  case (e_last v t w1 w2)
  then show ?case
    by (subst parse_elements.simps) simp
next
  case (e_cons v t w1 w2 vs u)
  then show ?case
    by (subst parse_elements.simps) simp
next
  case (m_last k q v t w1 w2 w3 w4)
  obtain s where "spells k s" "q = CHR 0x22 # s @ [CHR 0x22]" by (rule literalE [OF m_last.hyps(1)])
  with parse_spelled [OF this(1)] m_last show ?case
    by (subst parse_members.simps) (simp add: put_append_new)
next
  case (m_cons k q v t w1 w2 w3 w4 es u)
  obtain s where "spells k s" "q = CHR 0x22 # s @ [CHR 0x22]" by (rule literalE [OF m_cons.hyps(1)])
  with parse_spelled [OF this(1)] m_cons show ?case
    by (subst parse_members.simps) (simp add: put_append_new)
qed (subst parse_value.simps; simp add: skip_ws_simps json_space_def strip_prefix_def)+

subsection \<open>Both printers render\<close>

text \<open>The values JSON can carry unchanged: distinct keys, integers below \<open>10^15\<close>.\<close>

fun json_ok :: "jsval \<Rightarrow> bool" where
  "json_ok JNull = True"
| "json_ok (JBool b) = True"
| "json_ok (JNumber n) = (case n of Finite r \<Rightarrow> is_integer r \<and> \<bar>r\<bar> < 10 ^ 15 | _ \<Rightarrow> False)"
| "json_ok (JString s) = True"
| "json_ok (JArray vs) = list_all json_ok vs"
| "json_ok (JObject es) = (distinct (keys es) \<and> list_all (\<lambda>(k, v). json_ok v) es)"
| "json_ok v = False"

lemma blank_newline [simp]: "blank (newline d)" "blank []" "blank '' ''"
  by (simp_all add: blank_def newline_def json_space_def list_all_iff)

lemma elements_join:
  assumes "vs \<noteq> []" "\<And>v. v \<in> set vs \<Longrightarrow> renders H v (f v)" "blank w" "blank w'"
  shows "element_texts H vs (w @ join ('','' @ w) (map f vs) @ w' @ '']'')"
  using assms(1,2)
proof (induction vs)
  case (Cons v vs)
  show ?case
  proof (cases vs)
    case Nil
    with Cons.prems assms(3,4) show ?thesis by (auto intro: e_last)
  next
    case (Cons u us)
    have "element_texts H (v # vs) (w @ f v @ [] @ '','' @ (w @ join ('','' @ w) (map f vs) @ w' @ '']''))"
      by (rule e_cons) (use Cons Cons.prems Cons.IH assms(3) in auto)
    with Cons show ?thesis by simp
  qed
qed simp

lemma members_join:
  assumes "es \<noteq> []" "\<And>k v. (k, v) \<in> set es \<Longrightarrow> renders H v (f v)" "blank w" "blank w'" "blank w''"
  shows "member_texts H es
    (w @ join ('','' @ w) (map (\<lambda>(k, v). quote k @ '':'' @ w'' @ f v) es) @ w' @ ''}'')"
  using assms(1,2)
proof (induction es)
  case (Cons e es)
  obtain k v where e: "e = (k, v)" by (cases e)
  show ?case
  proof (cases es)
    case Nil
    have "member_texts H [(k, v)] (w @ quote k @ [] @ '':'' @ w'' @ f v @ w' @ ''}'')"
      by (rule m_last) (use e Cons.prems assms(3-5) literal_quote in auto)
    with Nil e show ?thesis by simp
  next
    case (Cons u us)
    have "member_texts H ((k, v) # es) (w @ quote k @ [] @ '':'' @ w'' @ f v @ [] @ '','' @
        (w @ join ('','' @ w) (map (\<lambda>(k, v). quote k @ '':'' @ w'' @ f v) es) @ w' @ ''}''))"
      by (rule m_cons) (use e Cons Cons.prems Cons.IH assms(3,5) literal_quote in auto)
    with Cons e show ?thesis by simp
  qed
qed simp

lemma renders_number:
  assumes "is_integer r" "\<bar>r\<bar> < 10 ^ 15"
  shows "renders H (JNumber (Finite r)) (number_text H (Finite r))"
proof -
  obtain i where i: "r = of_int i" using assms(1) by (rule is_integerE)
  have "\<bar>of_int i :: rat\<bar> < of_int (10 ^ 15)" using assms(2) by (simp add: i)
  then have "\<bar>i\<bar> < 10 ^ 15" unfolding of_int_abs [symmetric] of_int_less_iff .
  moreover have "\<bar>r\<bar> < 10 ^ 21" using less_trans [OF assms(2), of "10 ^ 21"] by simp
  ultimately show ?thesis using assms(1) r_number [OF number_spelling_decimal, of i H] by (simp add: i number_text_def)
qed

lemma json_text_renders: "json_ok v \<Longrightarrow> renders H v (json_text H v)"
proof (induction H v rule: json_text.induct)
  case (5 H vs)
  show ?case
  proof (cases "vs = []")
    case False
    have "element_texts H vs ([] @ join ('','' @ []) (map (json_text H) vs) @ [] @ '']'')"
      by (rule elements_join) (use 5 False in \<open>auto simp: list_all_iff\<close>)
    then show ?thesis using r_array by simp
  qed (use r_empty_array [of "[]"] in simp)
next
  case (6 H es)
  show ?case
  proof (cases "es = []")
    case False
    have "member_texts H es ([] @ join ('','' @ []) (map (\<lambda>(k, v). quote k @ '':'' @ [] @ json_text H v) es) @ [] @ ''}'')"
      by (rule members_join) (use 6 False in \<open>auto simp: list_all_iff\<close>)
    then show ?thesis using r_object 6 by simp
  qed (use r_empty_object [of "[]"] in simp)
qed (auto intro: r_null r_true r_false r_string [OF literal_quote] renders_number split: jsnum.splits)

lemma json_pretty_renders: "json_ok v \<Longrightarrow> renders H v (json_pretty H d v)"
proof (induction H d v rule: json_pretty.induct)
  case (1 H d vs)
  show ?case
  proof (cases "vs = []")
    case False
    have "element_texts H vs (newline (Suc d) @ join ('','' @ newline (Suc d)) (map (json_pretty H (Suc d)) vs) @
        newline d @ '']'')"
      by (rule elements_join) (use 1 False in \<open>auto simp: list_all_iff\<close>)
    then show ?thesis using r_array False by simp
  qed (use r_empty_array [of "[]"] in simp)
next
  case (2 H d es)
  show ?case
  proof (cases "es = []")
    case False
    have "member_texts H es (newline (Suc d) @ join ('','' @ newline (Suc d))
        (map (\<lambda>(k, v). quote k @ '':'' @ '' '' @ json_pretty H (Suc d) v) es) @ newline d @ ''}'')"
      by (rule members_join) (use 2 False in \<open>auto simp: list_all_iff\<close>)
    then show ?thesis using r_object False 2 by simp
  qed (use r_empty_object [of "[]"] in simp)
qed (simp_all add: json_text_renders del: json_text.simps)

lemma json_ok_distinct: "json_ok v \<Longrightarrow> distinct_deep v"
  by (induction v rule: json_ok.induct) (auto simp: list_all_iff)

lemma json_parse_renders:
  assumes "renders H v t" "distinct_deep v" "blank w" "blank w'"
  shows "json_parse H (w @ t @ w') = Some v"
proof -
  have "parse_value H (t @ w') = Some (v, w')"
    using parse_renders(1) [OF assms(1,2)] stops_blank [OF assms(4), of "[]"] by simp
  then show ?thesis
    using skip_ws_blank [OF assms(4), of "[]"] by (simp add: json_parse_def skip_ws_simps assms(3))
qed

text \<open>\<open>JSON.parse\<close> inverts both forms of \<open>JSON.stringify\<close>, so the compact form is
  injective: comparing texts compares values.\<close>

interpretation json_compact: codec "json_text H" "json_parse H" json_ok for H
  using json_parse_renders [OF json_text_renders json_ok_distinct, where w = "[]" and w' = "[]"] by unfold_locales simp

interpretation json_indented: codec "\<lambda>v. json_pretty H 0 v @ [CHR 0x0A]" "json_parse H" json_ok for H
  using json_parse_renders [OF json_pretty_renders json_ok_distinct, where w = "[]" and w' = "[CHR 0x0A]"]
  by unfold_locales (simp add: blank_def json_space_def)

end
