(* ===== verification/KeyScan.thy ===== *)
theory KeyScan
  imports JsonText
begin

text \<open>
  \<open>rejectDuplicateKeys\<close> of \<open>app/sdk/archive/codec.ts\<close>: the scan that runs over the
  text of an archive because \<open>JSON.parse\<close> keeps only the last of several values
  under one key. On every rendering of a value it accepts exactly when no object repeats a
  key.
\<close>

section \<open>The scan\<close>

text \<open>The rest of the token regular expression's string alternative, up to and with the
  closing quote.\<close>

function string_token :: "string \<Rightarrow> (string \<times> string) option" where
  "string_token s = (case s of
      [] \<Rightarrow> None
    | c # r \<Rightarrow>
        if c = CHR 0x22 then Some ([c], r)
        else if c = CHR 0x5C then
          (case r of
             [] \<Rightarrow> None
           | e # r' \<Rightarrow> map_option (\<lambda>(t, u). (c # e # t, u)) (string_token r'))
        else map_option (\<lambda>(t, u). (c # t, u)) (string_token r))"
  by pat_completeness auto
termination by (relation "measure length") auto

declare string_token.simps [simp del]

lemma string_token_cases:
  assumes "string_token s = Some (t, u)"
  obtains "s = CHR 0x22 # u" "t = [CHR 0x22]"
  | c r t' where "c \<noteq> CHR 0x22" "c \<noteq> CHR 0x5C" "s = c # r" "string_token r = Some (t', u)" "t = c # t'"
  | e r t' where "s = CHR 0x5C # e # r" "string_token r = Some (t', u)" "t = CHR 0x5C # e # t'"
proof (cases s)
  case Nil
  with assms show thesis by (simp add: string_token.simps)
next
  case (Cons c r)
  with assms that show thesis
    by (subst (asm) string_token.simps) (cases r; auto split: if_splits)
qed

lemma string_token_shorter: "string_token s = Some (t, u) \<Longrightarrow> length u < length s"
proof (induction "length s" arbitrary: s t rule: less_induct)
  case less
  from less.prems show ?case
  proof (cases rule: string_token_cases)
    case (2 c r t')
    with less.hyps [of r t'] show ?thesis by simp
  next
    case (3 e r t')
    with less.hyps [of r t'] show ?thesis by simp
  qed simp
qed

text \<open>The matches of \<open>/"(?:\\[\s\S]|[^"\\])*"|[{}\[\],:]/g\<close>; other characters are
  skipped.\<close>

function json_tokens :: "string \<Rightarrow> string list" where
  "json_tokens s = (case s of
      [] \<Rightarrow> []
    | c # r \<Rightarrow>
        if c = CHR 0x22 then
          (case string_token r of
             Some (t, u) \<Rightarrow> (c # t) # json_tokens u
           | None \<Rightarrow> json_tokens r)
        else if c \<in> set ''{}[],:'' then [c] # json_tokens r
        else json_tokens r)"
  by pat_completeness auto
termination
  by (relation "measure length") (auto dest: string_token_shorter)

declare json_tokens.simps [simp del]

text \<open>The stack of open brackets, innermost first: the keys seen in an object (none for an
  array) and whether a key comes next.\<close>

type_synonym key_frame = "string set option \<times> bool"

definition duplicate_key_error :: "string \<Rightarrow> error" where
  "duplicate_key_error key = Error (''Duplicate JSON key: '' @ key)"

definition scan_token :: "host \<Rightarrow> key_frame list \<Rightarrow> string \<Rightarrow> key_frame list result" where
  "scan_token H stack text =
     (if text = ''{'' then Inr ((Some {}, True) # stack)
      else if text = ''['' then Inr ((None, False) # stack)
      else if text = ''}'' \<or> text = '']'' then Inr (tl stack)
      else case stack of
        (Some seen, key) # rest \<Rightarrow>
          if text = '','' then Inr ((Some seen, True) # rest)
          else if text \<noteq> [] \<and> hd text = CHR 0x22 \<and> key then
            (case json_parse H text of
               Some (JString k) \<Rightarrow>
                 if k \<in> seen then Inl (duplicate_key_error k)
                 else Inr ((Some (insert k seen), False) # rest)
             | _ \<Rightarrow> Inl (HostError ''JSON.parse''))
          else Inr stack
      | _ \<Rightarrow> Inr stack)"

definition rejectDuplicateKeys :: "host \<Rightarrow> string \<Rightarrow> unit result" where
  "rejectDuplicateKeys H json =
     bindE (foldE (scan_token H) [] (json_tokens json)) (\<lambda>_. Inr ())"

section \<open>Tokens of a rendering\<close>

lemma json_tokens_Nil [simp]: "json_tokens [] = []"
  by (subst json_tokens.simps) simp

lemma json_tokens_symbol [simp]:
  "c \<in> set ''{}[],:'' \<Longrightarrow> json_tokens (c # r) = [c] # json_tokens r"
  by (subst json_tokens.simps) auto

definition silent :: "char \<Rightarrow> bool" where
  "silent c \<longleftrightarrow> c \<noteq> CHR 0x22 \<and> c \<notin> set ''{}[],:''"

lemma json_tokens_silent: "silent c \<Longrightarrow> json_tokens (c # r) = json_tokens r"
  by (subst json_tokens.simps) (simp add: silent_def)

lemma json_tokens_skip: "list_all silent w \<Longrightarrow> json_tokens (w @ r) = json_tokens r"
  by (induction w) (simp_all add: json_tokens_silent)

lemma json_tokens_blank [simp]: "blank w \<Longrightarrow> json_tokens (w @ r) = json_tokens r"
proof (rule json_tokens_skip)
  have "silent c" if "json_space c" for c
    using that unfolding json_space_def by (elim disjE) (simp_all add: silent_def)
  then show "blank w \<Longrightarrow> list_all silent w" by (auto simp: blank_def list_all_iff)
qed

lemma silent_digits: "list_all (is_digit 10) ds \<Longrightarrow> list_all silent ds"
proof -
  have "silent c" if "is_digit 10 c" for c
    using that by (auto simp: is_digit_def digit_val_def silent_def Let_def)
  then show "list_all (is_digit 10) ds \<Longrightarrow> list_all silent ds" by (auto simp: list_all_iff)
qed

lemma silent_number: "number_spelling H n s \<Longrightarrow> list_all silent s"
proof -
  assume "number_spelling H n s"
  then obtain sign ds fraction expo where s: "s = sign @ ds @ fraction @ expo" "sign \<in> {[], ''-''}" "digits ds"
    "fraction_text fraction" "exponent_text expo"
    by (auto simp: number_spelling_def)
  have "list_all silent sign" using s(2) by (auto simp: silent_def)
  moreover have "list_all silent ds" using s(3) silent_digits by (simp add: digits_def)
  moreover have "list_all silent fraction" using s(4) silent_digits by (auto simp: fraction_text_def digits_def silent_def)
  moreover have "list_all silent expo" using s(5) silent_digits by (auto simp: exponent_text_def digits_def silent_def)
  ultimately show ?thesis by (simp add: s(1))
qed

lemma string_token_plain:
  "c \<noteq> CHR 0x22 \<Longrightarrow> c \<noteq> CHR 0x5C \<Longrightarrow> string_token (c # r) = map_option (\<lambda>(t, u). (c # t, u)) (string_token r)"
  by (subst string_token.simps) simp

lemma string_token_escaped:
  "string_token (CHR 0x5C # e # r) = map_option (\<lambda>(t, u). (CHR 0x5C # e # t, u)) (string_token r)"
  by (subst string_token.simps) simp

lemma hex_digit_plain: "is_digit 16 c \<Longrightarrow> c \<noteq> CHR 0x22 \<and> c \<noteq> CHR 0x5C"
  by (auto simp: is_digit_def digit_val_def Let_def)

lemma string_token_spelled: "spells s t \<Longrightarrow> string_token (t @ CHR 0x22 # r) = Some (t @ [CHR 0x22], r)"
proof (induction rule: spells.induct)
  case (s_code d1 d2 d3 d4 c s t)
  then have "list_all (is_digit 16) [d1, d2, d3, d4]" by (auto simp: unicode_escape_def split: if_splits)
  with s_code show ?case by (simp add: string_token_escaped string_token_plain hex_digit_plain)
qed (simp_all add: string_token.simps [of "CHR 0x22 # r"] string_token_plain string_token_escaped)

lemma json_tokens_literal: "literal s q \<Longrightarrow> json_tokens (q @ r) = q # json_tokens r"
proof (erule literalE)
  fix t assume "spells s t" "q = CHR 0x22 # t @ [CHR 0x22]"
  with string_token_spelled [OF this(1)] show ?thesis
    by (subst json_tokens.simps) simp
qed

lemma json_parse_literal: "literal s q \<Longrightarrow> json_parse H q = Some (JString s)"
  using json_parse_renders [OF r_string, where w = "[]" and w' = "[]"] by simp

section \<open>The scan of a rendering\<close>

text \<open>The scanner is where a value may start: not where a key is expected.\<close>

definition value_position :: "key_frame list \<Rightarrow> bool" where
  "value_position stack \<longleftrightarrow> stack = [] \<or> fst (hd stack) = None \<or> \<not> snd (hd stack)"

lemma scan_brackets [simp]:
  "scan_token H stack ''{'' = Inr ((Some {}, True) # stack)"
  "scan_token H stack ''['' = Inr ((None, False) # stack)"
  "scan_token H stack ''}'' = Inr (tl stack)"
  "scan_token H stack '']'' = Inr (tl stack)"
  by (simp_all add: scan_token_def)

lemma scan_comma [simp]:
  "scan_token H ((Some seen, key) # stack) '','' = Inr ((Some seen, True) # stack)"
  "scan_token H ((None, key) # stack) '','' = Inr ((None, key) # stack)"
  by (simp_all add: scan_token_def)

lemma scan_colon [simp]: "scan_token H stack '':'' = Inr stack"
  by (auto simp: scan_token_def split: list.split option.split)

lemma literal_neq:
  assumes "literal s q"
  shows "q \<noteq> [c]" "q \<noteq> []" "hd q = CHR 0x22"
  using assms by (auto simp: literal_def)

lemma scan_string: "literal s q \<Longrightarrow> value_position stack \<Longrightarrow> scan_token H stack q = Inr stack"
  by (auto simp: scan_token_def value_position_def literal_neq split: list.split option.split)

lemma scan_key:
  "literal k q \<Longrightarrow> scan_token H ((Some seen, True) # stack) q =
     (if k \<in> seen then Inl (duplicate_key_error k) else Inr ((Some (insert k seen), False) # stack))"
  by (simp add: scan_token_def literal_neq json_parse_literal)

text \<open>\<open>scans H stack s good stack' r\<close>: from \<open>stack\<close>, the tokens of \<open>s\<close> lead to
  \<open>stack'\<close> with \<open>r\<close> left to scan if \<open>good\<close>, and to a duplicate-key error otherwise.\<close>

definition scans :: "host \<Rightarrow> key_frame list \<Rightarrow> string \<Rightarrow> bool \<Rightarrow> key_frame list \<Rightarrow> string \<Rightarrow> bool" where
  "scans H stack s good stack' r \<longleftrightarrow>
     (if good then foldE (scan_token H) stack (json_tokens s) = foldE (scan_token H) stack' (json_tokens r)
      else \<exists>k. foldE (scan_token H) stack (json_tokens s) = Inl (duplicate_key_error k))"

lemma scans_renders:
  "renders H v t \<Longrightarrow> value_position stack \<Longrightarrow> scans H stack (t @ r) (distinct_deep v) stack r"
  "element_texts H vs t \<Longrightarrow> scans H ((None, False) # st) (t @ r) (list_all distinct_deep vs) st r"
  "member_texts H es t \<Longrightarrow> scans H ((Some seen, True) # st) (t @ r)
     (distinct (keys es) \<and> set (keys es) \<inter> seen = {} \<and> list_all (\<lambda>(k, v). distinct_deep v) es) st r"
proof (induction arbitrary: stack r and st r and seen st r rule: renders_element_texts_member_texts.inducts)
  case (r_number n s)
  then show ?case by (simp add: scans_def json_tokens_skip [OF silent_number])
next
  case (r_string s q)
  then show ?case by (simp add: scans_def json_tokens_literal [OF r_string.hyps] scan_string [OF r_string.hyps])
next
  case (r_object es t)
  from r_object.IH(2) [of "{}" stack r] show ?case by (simp add: scans_def)
next
  case (r_array vs t)
  from r_array.IH(2) [of stack r] show ?case by (simp add: scans_def)
next
  case (e_last v t w1 w2)
  from e_last.IH(2) [of "(None, False) # st" "w2 @ '']'' @ r"] e_last.hyps show ?case
    by (simp add: scans_def value_position_def split: if_splits)
next
  case (e_cons v t w1 w2 vs u)
  from e_cons.IH(2) [of "(None, False) # st" "w2 @ '','' @ u @ r"] e_cons.IH(4) [of st r] e_cons.hyps
  show ?case by (simp add: scans_def value_position_def split: if_splits)
next
  case (m_last k q v t w1 w2 w3 w4)
  from m_last.IH(2) [of "(Some (insert k seen), False) # st" "w4 @ ''}'' @ r"] m_last.hyps show ?case
    by (auto simp add: scans_def value_position_def json_tokens_literal [OF m_last.hyps(1)] scan_key [OF m_last.hyps(1)]
        split: if_splits)
next
  case (m_cons k q v t w1 w2 w3 w4 es u)
  from m_cons.IH(2) [of "(Some (insert k seen), False) # st" "w4 @ '','' @ u @ r"]
    m_cons.IH(4) [of "insert k seen" st r] m_cons.hyps
  show ?case
    by (auto simp add: scans_def value_position_def json_tokens_literal [OF m_cons.hyps(1)] scan_key [OF m_cons.hyps(1)]
        split: if_splits)
qed (simp_all add: scans_def json_tokens_silent silent_def)

text \<open>So the scan accepts a rendering exactly when no object in it repeats a key, and
  otherwise names a repeated key.\<close>

lemma rejectDuplicateKeys_renders:
  assumes "renders H v t" "blank w" "blank w'"
  shows "rejectDuplicateKeys H (w @ t @ w') = Inr () \<longleftrightarrow> distinct_deep v"
    and "\<not> distinct_deep v \<Longrightarrow> \<exists>k. rejectDuplicateKeys H (w @ t @ w') = Inl (duplicate_key_error k)"
proof -
  have "value_position []" by (simp add: value_position_def)
  then have "scans H [] (t @ w') (distinct_deep v) [] w'" by (rule scans_renders(1) [OF assms(1)])
  moreover have "json_tokens w' = []" using json_tokens_blank [OF assms(3), of "[]"] by simp
  ultimately show "rejectDuplicateKeys H (w @ t @ w') = Inr () \<longleftrightarrow> distinct_deep v"
    "\<not> distinct_deep v \<Longrightarrow> \<exists>k. rejectDuplicateKeys H (w @ t @ w') = Inl (duplicate_key_error k)"
    by (auto simp: rejectDuplicateKeys_def scans_def json_tokens_blank [OF assms(2)] split: if_splits)
qed

end
