(* ===== verification/Codec.thy ===== *)
theory Codec
  imports Graph KeyScan
begin

text \<open>
  \<open>app/sdk/archive/codec.ts\<close>: the strict version 1 decoder and the printer. Error messages carry the path of the offending field as the source
  builds it.
\<close>

section \<open>Field decoders\<close>

definition MAX_ARCHIVE_BYTES :: nat where
  "MAX_ARCHIVE_BYTES = 16 * 1024 * 1024"

definition MAX_ARCHIVE_NODES :: nat where
  "MAX_ARCHIVE_NODES = 10000"

text \<open>\<open>object\<close> accepts plain objects only.\<close>

definition plain_object :: "jsval \<Rightarrow> string \<Rightarrow> (string \<times> jsval) list result" where
  "plain_object value path = (case value of
      JObject obj \<Rightarrow> Inr obj
    | _ \<Rightarrow> Inl (Error (path @ '': expected a plain object'')))"

fun require_fields :: "(string \<times> jsval) list \<Rightarrow> string list \<Rightarrow> string \<Rightarrow> unit result" where
  "require_fields value [] path = Inr ()"
| "require_fields value (field # required) path =
     (if get value field = None then Inl (Error (path @ '': missing '' @ field))
      else require_fields value required path)"

fun known_fields :: "string list \<Rightarrow> string list \<Rightarrow> string \<Rightarrow> unit result" where
  "known_fields [] allowed path = Inr ()"
| "known_fields (field # rest) allowed path =
     (if field \<notin> set allowed then Inl (Error (path @ '': unknown field '' @ field))
      else known_fields rest allowed path)"

definition check_fields ::
  "(string \<times> jsval) list \<Rightarrow> string list \<Rightarrow> string list \<Rightarrow> string \<Rightarrow> unit result" where
  "check_fields value required optional path =
     bindE (require_fields value required path) (\<lambda>_.
     known_fields (keys value) (required @ optional) path)"

definition hash_field :: "host \<Rightarrow> jsval \<Rightarrow> string \<Rightarrow> string result" where
  "hash_field H value path =
     (let failure = Inl (Error (path @ '': expected 32-byte hex or Base58 hash'')) in
      case value of
        JString s \<Rightarrow> catchE (bindE (to32Bytes H value) (\<lambda>b. Inr (hex_of_bytes b))) (\<lambda>_. failure)
      | _ \<Rightarrow> failure)"

definition archivePublicKey :: "host \<Rightarrow> jsval \<Rightarrow> string \<Rightarrow> string result" where
  "archivePublicKey H value path = (case value of
      JString s \<Rightarrow>
        catchE (bindE (accountPublicKey H value) (\<lambda>k. Inr (toBase58 H k)))
          (\<lambda>_. Inl (Error (path @ '': invalid public key'')))
    | _ \<Rightarrow> Inl (Error (path @ '': expected Base58 or hex public key'')))"

definition integer_field :: "jsval \<Rightarrow> bool \<Rightarrow> string \<Rightarrow> string result" where
  "integer_field value isSigned path =
     (let failure = Inl (Error (path @ '': expected canonical decimal string'')) in
      case value of
        JString s \<Rightarrow>
          if \<not> canonical_decimal s then failure
          else bindE (bigintOfString s) (\<lambda>n.
            let minimum = (if isSigned then - (2 ^ 63) else 0);
                maximum = (if isSigned then 2 ^ 63 - 1 else 2 ^ 64 - 1)
            in if n < minimum \<or> n > maximum then Inl (Error (path @ '': integer out of range''))
               else Inr s)
      | _ \<Rightarrow> failure)"

fun parse_items ::
  "(jsval \<Rightarrow> string \<Rightarrow> string result) \<Rightarrow> string \<Rightarrow> nat \<Rightarrow> jsval list \<Rightarrow> string list result" where
  "parse_items parse path i [] = Inr []"
| "parse_items parse path i (item # items) =
     bindE (parse item (path @ ''['' @ nat_to_decimal i @ '']'')) (\<lambda>y.
     bindE (parse_items parse path (Suc i) items) (\<lambda>ys. Inr (y # ys)))"

definition members_field ::
  "jsval \<Rightarrow> (jsval \<Rightarrow> string \<Rightarrow> string result) \<Rightarrow> string \<Rightarrow> string list result" where
  "members_field value parse path =
     (let failure = Inl (Error (path @ '': expected nonempty member list'')) in
      case value of
        JArray items \<Rightarrow>
          if items = [] then failure
          else bindE (parse_items parse path 0 items) (\<lambda>result.
            if length (remdups result) \<noteq> length result
            then Inl (Error (path @ '': duplicate members'')) else Inr result)
      | _ \<Rightarrow> failure)"

section \<open>Nodes\<close>

definition source_field :: "host \<Rightarrow> (string \<times> jsval) list \<Rightarrow> string \<Rightarrow> archive_source result" where
  "source_field H source path =
     (let sourcePath = path @ ''.source''; kind = read_prop source ''kind'' in
      if kind = JString ''hash'' \<or> kind = JString ''pack'' then
        bindE (check_fields source [''kind''] [] sourcePath) (\<lambda>_.
        Inr (if kind = JString ''hash'' then AHash else APack))
      else if kind = JString ''account'' then
        bindE (check_fields source [''kind'', ''account''] [] sourcePath) (\<lambda>_.
        bindE (archivePublicKey H (read_prop source ''account'') sourcePath) (\<lambda>a. Inr (AAccount a)))
      else if kind = JString ''branch'' then
        bindE (check_fields source [''kind'', ''previousHashId'', ''payload'', ''generation''] [] sourcePath) (\<lambda>_.
        bindE (hash_field H (read_prop source ''previousHashId'') sourcePath) (\<lambda>p.
        bindE (hash_field H (read_prop source ''payload'') sourcePath) (\<lambda>q.
        bindE (integer_field (read_prop source ''generation'') False sourcePath) (\<lambda>g.
        if g = ''0'' then Inl (Error (path @ '': branch generation cannot be zero''))
        else Inr (ABranch p q g)))))
      else if kind = JString ''batch'' then
        bindE (check_fields source [''kind'', ''members''] [] sourcePath) (\<lambda>_.
        bindE (members_field (read_prop source ''members'') (hash_field H) sourcePath) (\<lambda>ms.
        Inr (ABatch ms)))
      else Inl (Error (sourcePath @ '': unknown source kind'')))"

definition snapshot_field :: "host \<Rightarrow> jsval \<Rightarrow> string \<Rightarrow> archive_snapshot result" where
  "snapshot_field H value path =
     bindE (plain_object value (path @ ''.snapshot'')) (\<lambda>snapshot.
     bindE (check_fields snapshot [''owner'', ''lamports'', ''executable'', ''rentEpoch'', ''data''] []
       (path @ ''.snapshot'')) (\<lambda>_.
     case read_prop snapshot ''executable'' of
       JBool executable \<Rightarrow>
         (case read_prop snapshot ''data'' of
            JArray data \<Rightarrow>
              if \<not> list_all is_byte_value data
              then Inl (Error (path @ '': snapshot data must be a byte array''))
              else
                bindE (archivePublicKey H (read_prop snapshot ''owner'') ''address'') (\<lambda>owner.
                bindE (integer_field (read_prop snapshot ''lamports'') False path) (\<lambda>lamports.
                bindE (integer_field (read_prop snapshot ''rentEpoch'') False path) (\<lambda>rentEpoch.
                Inr \<lparr>as_owner = owner, as_lamports = lamports, as_executable = executable,
                  as_rentEpoch = rentEpoch, as_data = data\<rparr>)))
          | _ \<Rightarrow> Inl (Error (path @ '': snapshot data must be a byte array'')))
     | _ \<Rightarrow> Inl (Error (path @ '': executable must be boolean''))))"

definition parse_node :: "host \<Rightarrow> jsval \<Rightarrow> string \<Rightarrow> archive_node result" where
  "parse_node H value path =
     bindE (plain_object value path) (\<lambda>input.
     bindE (check_fields input [''hash'', ''source'', ''createdAt''] [''members'', ''snapshot''] path) (\<lambda>_.
     bindE (plain_object (read_prop input ''source'') (path @ ''.source'')) (\<lambda>source.
     bindE (hash_field H (read_prop input ''hash'') (path @ ''.hash'')) (\<lambda>hash.
     bindE (integer_field (read_prop input ''createdAt'') True (path @ ''.createdAt'')) (\<lambda>createdAt.
     if createdAt = ''0'' then Inl (Error (path @ '': timestamp cannot be zero''))
     else
       bindE (source_field H source path) (\<lambda>src.
       bindE (case get input ''members'' of
           None \<Rightarrow> Inr None
         | Some members \<Rightarrow>
             if src \<noteq> APack then Inl (Error (path @ '': members witness is only valid for Pack''))
             else bindE (members_field members (archivePublicKey H) (path @ ''.members'')) (\<lambda>ms. Inr (Some ms)))
         (\<lambda>members.
       bindE (case get input ''snapshot'' of
           None \<Rightarrow> Inr None
         | Some snapshot \<Rightarrow>
             if archive_kind src \<noteq> KAccount then Inl (Error (path @ '': snapshot is only valid for Account''))
             else bindE (snapshot_field H snapshot path) (\<lambda>s. Inr (Some s)))
         (\<lambda>snapshot.
       Inr \<lparr>node_hash = hash, node_source = src, node_createdAt = createdAt,
         node_members = members, node_snapshot = snapshot\<rparr>))))))))"

section \<open>Archives as values\<close>

fun source_value :: "archive_source \<Rightarrow> jsval" where
  "source_value AHash = JObject [(''kind'', JString ''hash'')]"
| "source_value (AAccount a) = JObject [(''kind'', JString ''account''), (''account'', JString a)]"
| "source_value (ABranch p q g) = JObject
     [(''kind'', JString ''branch''), (''previousHashId'', JString p), (''payload'', JString q),
      (''generation'', JString g)]"
| "source_value (ABatch ms) = JObject
     [(''kind'', JString ''batch''), (''members'', JArray (map JString ms))]"
| "source_value APack = JObject [(''kind'', JString ''pack'')]"

definition snapshot_value :: "archive_snapshot \<Rightarrow> jsval" where
  "snapshot_value s = JObject
     [(''owner'', JString (as_owner s)), (''lamports'', JString (as_lamports s)),
      (''executable'', JBool (as_executable s)), (''rentEpoch'', JString (as_rentEpoch s)),
      (''data'', JArray (as_data s))]"

definition node_value :: "archive_node \<Rightarrow> jsval" where
  "node_value n = JObject
     ([(''hash'', JString (node_hash n)), (''createdAt'', JString (node_createdAt n)),
       (''source'', source_value (node_source n))] @
      (case node_members n of None \<Rightarrow> [] | Some ms \<Rightarrow> [(''members'', JArray (map JString ms))]) @
      (case node_snapshot n of None \<Rightarrow> [] | Some s \<Rightarrow> [(''snapshot'', snapshot_value s)]))"

definition archive_value :: "hash_archive \<Rightarrow> jsval" where
  "archive_value a = JObject
     [(''format'', JString ARCHIVE_FORMAT), (''version'', jint ARCHIVE_VERSION),
      (''programId'', JString (arch_programId a)),
      (''nodes'', JObject (map (\<lambda>(k, n). (k, node_value n)) (arch_nodes a)))]"

section \<open>Parsing and printing an archive\<close>

text \<open>\<open>Buffer.byteLength(text, "utf8")\<close> for code units below 256.\<close>

definition utf8_length :: "string \<Rightarrow> nat" where
  "utf8_length s = sum_list (map (\<lambda>c. if (of_char c :: nat) < 128 then 1 else 2) s)"

definition size_error :: error where
  "size_error = Error ''Archive exceeds 16 MiB limit''"

text \<open>One entry of \<open>nodes\<close>: its address is normalized, new, and derived from its content.\<close>

definition add_node ::
  "host \<Rightarrow> string \<Rightarrow> archive_node object \<Rightarrow> string \<times> jsval \<Rightarrow> archive_node object result" where
  "add_node H programId nodes entry = (case entry of (inputPda, value) \<Rightarrow>
     bindE (archivePublicKey H (JString inputPda) ''node PDA'') (\<lambda>pda.
     if get nodes pda \<noteq> None then Inl (Error (''Duplicate node PDA: '' @ pda))
     else
       bindE (parse_node H value (''nodes.'' @ pda)) (\<lambda>parsed.
       bindE (publicKeyOf H programId) (\<lambda>program.
       bindE (canonicalHashId H (JString (node_hash parsed))
         (jint (int (kind_number (archive_kind (node_source parsed)))))) (\<lambda>hashId.
       bindE (deriveHashPda H program (JBytes hashId)) (\<lambda>address.
       if toBase58 H address \<noteq> pda
       then Inl (Error (''Node PDA does not match its hash/source: '' @ pda))
       else Inr (put nodes pda parsed)))))))"

definition parse_value_archive :: "host \<Rightarrow> jsval \<Rightarrow> hash_archive result" where
  "parse_value_archive H value =
     bindE (plain_object value ''archive'') (\<lambda>root.
     bindE (check_fields root [''format'', ''version'', ''programId'', ''nodes''] [] ''archive'') (\<lambda>_.
     if read_prop root ''format'' \<noteq> JString ARCHIVE_FORMAT \<or> read_prop root ''version'' \<noteq> jint ARCHIVE_VERSION
     then Inl (Error ''Unsupported archive format or version'')
     else
       bindE (archivePublicKey H (read_prop root ''programId'') ''programId'') (\<lambda>programId.
       bindE (plain_object (read_prop root ''nodes'') ''nodes'') (\<lambda>inputNodes.
       if length (keys inputNodes) > MAX_ARCHIVE_NODES then Inl (Error ''Archive exceeds node limit'')
       else
         bindE (foldE (add_node H programId) [] inputNodes) (\<lambda>nodes.
         let archive = \<lparr>arch_programId = programId, arch_nodes = nodes\<rparr> in
         if utf8_length (json_text H (archive_value archive)) > MAX_ARCHIVE_BYTES then Inl size_error
         else bindE (inspectArchiveGraph H archive) (\<lambda>_. Inr archive))))))"

definition parseArchive :: "host \<Rightarrow> jsval \<Rightarrow> hash_archive result" where
  "parseArchive H input = (case input of
      JString s \<Rightarrow>
        if utf8_length s > MAX_ARCHIVE_BYTES then Inl size_error
        else (case json_parse H s of
            None \<Rightarrow> Inl (HostError ''JSON.parse'')
          | Some value \<Rightarrow> bindE (rejectDuplicateKeys H s) (\<lambda>_. parse_value_archive H value))
    | value \<Rightarrow> parse_value_archive H value)"

definition sort_nodes :: "host \<Rightarrow> hash_archive \<Rightarrow> hash_archive" where
  "sort_nodes H archive =
     archive\<lparr>arch_nodes := sort_by (\<lambda>(a, _) (b, _). localeLe H a b) (arch_nodes archive)\<rparr>"

definition stringifyArchive :: "host \<Rightarrow> jsval \<Rightarrow> string result" where
  "stringifyArchive H input =
     bindE (parseArchive H input) (\<lambda>parsed.
     let archive = sort_nodes H parsed;
         pretty = json_pretty H 0 (archive_value archive) @ [CHR 0x0A]
     in Inr (if utf8_length pretty \<le> MAX_ARCHIVE_BYTES then pretty
             else json_text H (archive_value archive)))"

text \<open>\<open>createArchive(programId)\<close>, where \<open>programId.toString()\<close> is the given text.\<close>

definition createArchive :: "host \<Rightarrow> string \<Rightarrow> hash_archive result" where
  "createArchive H programId =
     parseArchive H (JObject [(''format'', JString ARCHIVE_FORMAT), (''version'', jint ARCHIVE_VERSION),
       (''programId'', JString programId), (''nodes'', JObject [])])"

section \<open>Decoded fields are normalized\<close>

lemma hash_field_ok [ok_iff]:
  "hash_field H v path = Inr s \<longleftrightarrow> (\<exists>t b. v = JString t \<and> to32Bytes H v = Inr b \<and> s = hex_of_bytes b)"
  by (cases v; cases "to32Bytes H v") (auto simp: hash_field_def)

lemma archivePublicKey_ok [ok_iff]:
  "archivePublicKey H v path = Inr s \<longleftrightarrow>
     (\<exists>t k. v = JString t \<and> accountPublicKey H v = Inr k \<and> s = toBase58 H k)"
  by (cases v; cases "accountPublicKey H v") (auto simp: archivePublicKey_def)

lemma int_to_decimal_inject [simp]: "int_to_decimal i = int_to_decimal j \<longleftrightarrow> i = j"
  by (rule decimal_text.enc_inject) simp_all

lemma integer_field_ok [ok_iff]:
  "integer_field v isSigned path = Inr s \<longleftrightarrow>
     v = JString s \<and> decimal_field (if isSigned then i64_range else u64_range) s"
proof (cases "\<exists>i. v = JString (int_to_decimal i)")
  case True
  then obtain i where "v = JString (int_to_decimal i)" by blast
  then show ?thesis
    by (auto simp: integer_field_def int_to_decimal_canonical decimal_field_def i64_range_def u64_range_def)
next
  case False
  then show ?thesis
    unfolding integer_field_def Let_def jsval_case_ok by (auto simp: canonical_decimal_iff decimal_field_def)
qed

lemma hash_field_text: "hash_field H v path = Inr s \<Longrightarrow> hash_text s"
  by (auto simp: hash_field_ok dest: to32Bytes_length)

lemma hash_field_id: "hash_text s \<Longrightarrow> hash_field H (JString s) path = Inr s"
  by (auto simp: hash_field_ok hash_text_def)

lemma archivePublicKey_text: "archivePublicKey H v path = Inr s \<Longrightarrow> key_text H s"
  by (auto simp: archivePublicKey_ok dest: accountPublicKey_length)

lemma archivePublicKey_id: "host_ok H \<Longrightarrow> key_text H s \<Longrightarrow> archivePublicKey H (JString s) path = Inr s"
  by (auto simp: archivePublicKey_ok key_text_def accountPublicKey_base58)

lemma parse_items_all:
  assumes "\<And>v path s. parse v path = Inr s \<Longrightarrow> P s" "parse_items parse path i items = Inr ss"
  shows "list_all P ss"
  using assms(2) by (induction items arbitrary: i ss) (auto intro: assms(1))

lemma parse_items_id:
  assumes "\<And>s path. s \<in> set ss \<Longrightarrow> parse (JString s) path = Inr s"
  shows "parse_items parse path i (map JString ss) = Inr ss"
  using assms by (induction ss arbitrary: i) auto

lemma length_remdups_eq: "length (remdups xs) = length xs \<longleftrightarrow> distinct xs"
  by (metis length_remdups_card_conv card_distinct distinct_card)

lemma members_field_text:
  assumes "\<And>v path s. parse v path = Inr s \<Longrightarrow> P s" "members_field value parse path = Inr ss"
  shows "member_texts_ok P ss"
proof -
  obtain items where items: "items \<noteq> []" "parse_items parse path 0 items = Inr ss" "distinct ss"
    using assms(2) by (auto simp: members_field_def Let_def length_remdups_eq jsval_case_ok split: if_splits)
  then have "ss \<noteq> []" by (cases items) auto
  with items parse_items_all [of parse P, OF assms(1) items(2)] show ?thesis
    by (simp add: member_texts_ok_def)
qed

lemma members_field_id:
  assumes "member_texts_ok P ss" "\<And>s path. P s \<Longrightarrow> parse (JString s) path = Inr s"
  shows "members_field (JArray (map JString ss)) parse path = Inr ss"
proof -
  have "parse_items parse path 0 (map JString ss) = Inr ss"
    by (rule parse_items_id) (use assms in \<open>auto simp: member_texts_ok_def list_all_iff\<close>)
  with assms(1) show ?thesis
    by (simp add: members_field_def member_texts_ok_def length_remdups_eq)
qed

lemma decimal_positive:
  "decimal_field u64_range s \<Longrightarrow> s \<noteq> ''0'' \<longleftrightarrow> decimal_field positive_u64 s"
  "decimal_field i64_range s \<Longrightarrow> s \<noteq> ''0'' \<longleftrightarrow> decimal_field nonzero_i64 s"
  unfolding int_to_decimal_0 [symmetric]
  by (auto simp: decimal_field_def positive_u64_def nonzero_i64_def)

lemma source_field_wf: "source_field H source path = Inr s \<Longrightarrow> wf_source H s"
  by (auto simp: source_field_def Let_def integer_field_ok decimal_positive
      intro: hash_field_text archivePublicKey_text members_field_text [OF hash_field_text] split: if_splits)

lemma snapshot_field_wf: "snapshot_field H v path = Inr s \<Longrightarrow> wf_snapshot H s"
  unfolding snapshot_field_def bindE_ok jsval_case_ok
  by (auto simp: wf_snapshot_def integer_field_ok intro: archivePublicKey_text split: if_splits)


lemma check_fields_ok:
  "check_fields obj required optional path = Inr u \<longleftrightarrow>
     set required \<subseteq> set (keys obj) \<and> set (keys obj) \<subseteq> set (required @ optional)"
proof -
  have "require_fields obj required path = Inr () \<longleftrightarrow> set required \<subseteq> set (keys obj)"
    by (induction obj required path rule: require_fields.induct) (auto simp: get_None_iff)
  moreover have "known_fields fs allowed path = Inr () \<longleftrightarrow> set fs \<subseteq> set allowed" for fs allowed
    by (induction fs allowed path rule: known_fields.induct) auto
  ultimately show ?thesis by (simp add: check_fields_def)
qed

lemma parse_node_wf:
  assumes "parse_node H v path = Inr n"
  shows "wf_node H n"
proof -
  obtain hash createdAt src members snapshot where n: "n = \<lparr>node_hash = hash, node_source = src,
      node_createdAt = createdAt, node_members = members, node_snapshot = snapshot\<rparr>"
    by (cases n)
  note parsed = assms [unfolded parse_node_def n]
  have fields: "\<exists>v p. hash_field H v p = Inr hash" "\<exists>v p. integer_field v True p = Inr createdAt"
    "createdAt \<noteq> ''0''" "\<exists>v p. source_field H v p = Inr src"
    using parsed by (auto split: if_splits)
  have members: "src = APack \<and> (\<exists>v p. members_field v (archivePublicKey H) p = Inr ms)"
    if "members = Some ms" for ms
    using parsed that by (auto split: if_splits option.splits)
  have snapshot: "archive_kind src = KAccount \<and> (\<exists>v p. snapshot_field H v p = Inr s)"
    if "snapshot = Some s" for s
    using parsed that by (auto split: if_splits option.splits)
  from fields have "decimal_field nonzero_i64 createdAt"
    by (auto simp: integer_field_ok simp flip: decimal_positive)
  with fields members snapshot show ?thesis
    by (auto simp: wf_node_def n intro: hash_field_text source_field_wf snapshot_field_wf
        members_field_text [OF archivePublicKey_text])
qed

section \<open>Normalized archives decode to themselves\<close>

lemma source_field_value:
  assumes "host_ok H" "wf_source H s"
  shows "\<exists>fs. source_value s = JObject fs \<and> source_field H fs path = Inr s"
proof (cases s)
  case (ABranch p q g)
  have g: "decimal_field u64_range g" "g \<noteq> ''0''"
    using assms(2) ABranch decimal_positive(1) [of g] by (auto simp: decimal_field_def positive_u64_def)
  with assms ABranch show ?thesis
    by (auto simp: source_field_def check_fields_ok hash_field_id integer_field_ok Let_def)
next
  case (AAccount a)
  with assms show ?thesis by (auto simp: source_field_def check_fields_ok archivePublicKey_id Let_def)
next
  case (ABatch ms)
  with assms show ?thesis
    by (auto simp: source_field_def check_fields_ok Let_def intro: members_field_id [OF _ hash_field_id])
qed (auto simp: source_field_def check_fields_ok Let_def)

lemma snapshot_field_value:
  "host_ok H \<Longrightarrow> wf_snapshot H s \<Longrightarrow> snapshot_field H (snapshot_value s) path = Inr s"
  by (simp add: snapshot_field_def snapshot_value_def wf_snapshot_def plain_object_def check_fields_ok
      archivePublicKey_id integer_field_ok)

lemma parse_node_value:
  assumes "host_ok H" "wf_node H n"
  shows "parse_node H (node_value n) path = Inr n"
proof -
  obtain hash createdAt src members snapshot where n: "n = \<lparr>node_hash = hash, node_source = src,
      node_createdAt = createdAt, node_members = members, node_snapshot = snapshot\<rparr>"
    by (cases n)
  have wf: "hash_text hash" "decimal_field i64_range createdAt" "createdAt \<noteq> ''0''" "wf_source H src"
    using assms(2) decimal_positive(2) [of createdAt]
    by (auto simp: wf_node_def n decimal_field_def nonzero_i64_def)
  obtain fs where fs: "source_value src = JObject fs" "\<And>path. source_field H fs path = Inr src"
    using source_field_value [OF assms(1) wf(4)] by (metis jsval.inject(6))
  have ms: "src = APack" "members_field (JArray (map JString ms)) (archivePublicKey H) p = Inr ms"
    if "members = Some ms" for ms p
    using that assms by (cases src; auto simp: wf_node_def n intro: members_field_id [OF _ archivePublicKey_id])+
  have sn: "archive_kind src = KAccount" "snapshot_field H (snapshot_value s) p = Inr s"
    if "snapshot = Some s" for s p
    using that assms by (auto simp: wf_node_def n intro: snapshot_field_value)
  show ?thesis
    using wf fs ms sn
    by (cases members; cases snapshot)
      (simp_all add: parse_node_def node_value_def n plain_object_def check_fields_ok hash_field_id
        integer_field_ok)
qed


section \<open>Well-formed archives\<close>

text \<open>What a decoded archive satisfies: normalized fields throughout, distinct addresses each
  derived from its node, both limits, and every checkable commitment.\<close>

definition wf_entry :: "host \<Rightarrow> string \<Rightarrow> string \<times> archive_node \<Rightarrow> bool" where
  "wf_entry H programId entry = (case entry of (p, n) \<Rightarrow>
     key_text H p \<and> wf_node H n \<and>
     deriveHashPda H (key_bytes H programId) (JBytes (node_id H n)) = Inr (key_bytes H p))"

definition archive_size :: "host \<Rightarrow> hash_archive \<Rightarrow> nat" where
  "archive_size H a = utf8_length (json_text H (archive_value a))"

definition wf_archive :: "host \<Rightarrow> hash_archive \<Rightarrow> bool" where
  "wf_archive H a \<longleftrightarrow>
     key_text H (arch_programId a) \<and> distinct (keys (arch_nodes a)) \<and>
     length (arch_nodes a) \<le> MAX_ARCHIVE_NODES \<and>
     list_all (wf_entry H (arch_programId a)) (arch_nodes a) \<and>
     archive_size H a \<le> MAX_ARCHIVE_BYTES \<and> (\<exists>i. inspectArchiveGraph H a = Inr i)"

lemma wf_archive_nodes: "wf_archive H a \<Longrightarrow> wf_nodes H a"
  by (auto simp: wf_archive_def wf_nodes_def wf_entry_def list_all_iff)

lemma canonicalHashId_node:
  assumes "wf_node H n"
  shows "canonicalHashId H (JString (node_hash n))
      (JNumber (Finite (of_nat (kind_number (archive_kind (node_source n)))))) = Inr (node_id H n)"
  using assms by (simp add: canonicalHashId_def node_id_def wf_node_def hash_textD)

lemma deriveHashPda_length: "host_ok H \<Longrightarrow> deriveHashPda H program h = Inr a \<Longrightarrow> length a = 32"
  by (auto simp: deriveHashPda_def findPda_def findProgramAddress_length split: option.splits)

lemma key_textE:
  assumes "host_ok H" "key_text H s"
  obtains k where "length k = 32" "s = toBase58 H k" "key_bytes H s = k"
  using assms by (auto simp: key_text_def)

lemma add_node_ok:
  assumes "host_ok H" "key_text H programId"
  shows "add_node H programId nodes (inputPda, v) = Inr nodes' \<longleftrightarrow>
    (\<exists>p n. archivePublicKey H (JString inputPda) ''node PDA'' = Inr p \<and> get nodes p = None \<and>
       parse_node H v (''nodes.'' @ p) = Inr n \<and> wf_entry H programId (p, n) \<and> nodes' = nodes @ [(p, n)])"
proof -
  have step: "add_node H programId nodes (inputPda, v) = Inr nodes' \<longleftrightarrow>
      wf_entry H programId (p, n) \<and> nodes' = nodes @ [(p, n)]"
    if p: "archivePublicKey H (JString inputPda) ''node PDA'' = Inr p" "get nodes p = None"
      and n: "parse_node H v (''nodes.'' @ p) = Inr n" for p n
  proof -
    have wf: "key_text H p" "wf_node H n"
      using archivePublicKey_text [OF p(1)] parse_node_wf [OF n] by auto
    obtain k where k: "length k = 32" "p = toBase58 H k" "key_bytes H p = k"
      using key_textE [OF assms(1) wf(1)] by blast
    have new: "put nodes p n = nodes @ [(p, n)]" using p(2) by (simp add: put_new get_None_iff)
    show ?thesis
    proof (cases "deriveHashPda H (key_bytes H programId) (JBytes (node_id H n))")
      case (Inr a)
      then have "toBase58 H a = p \<longleftrightarrow> a = k"
        using deriveHashPda_length [OF assms(1) Inr] k toBase58_inject [OF assms(1)] by blast
      with Inr k p n wf new show ?thesis
        by (auto simp: add_node_def wf_entry_def key_textD(3) [OF assms] canonicalHashId_node)
    qed (use p n wf in \<open>simp add: add_node_def wf_entry_def key_textD(3) [OF assms] canonicalHashId_node\<close>)
  qed
  have "\<exists>p n. archivePublicKey H (JString inputPda) ''node PDA'' = Inr p \<and> get nodes p = None \<and>
      parse_node H v (''nodes.'' @ p) = Inr n"
    if "add_node H programId nodes (inputPda, v) = Inr nodes'"
    using that by (auto simp: add_node_def split: if_splits)
  with step show ?thesis by blast
qed


lemma add_nodes_wf:
  assumes "host_ok H" "key_text H programId"
    and "foldE (add_node H programId) nodes entries = Inr nodes'"
    and "distinct (keys nodes)" "list_all (wf_entry H programId) nodes"
  shows "distinct (keys nodes') \<and> list_all (wf_entry H programId) nodes' \<and>
    length nodes' = length nodes + length entries"
  using assms(3-5)
proof (induction entries arbitrary: nodes)
  case (Cons entry entries)
  obtain k v where entry: "entry = (k, v)" by (cases entry)
  with Cons.prems(1) obtain p n where step: "get nodes p = None" "wf_entry H programId (p, n)"
      "foldE (add_node H programId) (nodes @ [(p, n)]) entries = Inr nodes'"
    by (auto simp: add_node_ok [OF assms(1,2)])
  have "distinct (keys (nodes @ [(p, n)]))" "list_all (wf_entry H programId) (nodes @ [(p, n)])"
    using Cons.prems step(1,2) by (simp_all add: get_None_iff)
  from Cons.IH [OF step(3) this] show ?case by simp
qed simp

lemma add_nodes_value:
  assumes "host_ok H" "key_text H programId"
    and "list_all (wf_entry H programId) entries" "distinct (keys (nodes @ entries))"
  shows "foldE (add_node H programId) nodes (map (\<lambda>(k, n). (k, node_value n)) entries) = Inr (nodes @ entries)"
  using assms(3,4)
proof (induction entries arbitrary: nodes)
  case (Cons entry entries)
  obtain p n where entry: "entry = (p, n)" by (cases entry)
  have wf: "wf_entry H programId (p, n)" "key_text H p" "wf_node H n"
    using Cons.prems(1) by (auto simp: entry wf_entry_def)
  have "get nodes p = None" using Cons.prems(2) by (simp add: entry get_None_iff)
  then have "add_node H programId nodes (p, node_value n) = Inr (nodes @ [(p, n)])"
    using wf by (simp add: add_node_ok [OF assms(1,2)] archivePublicKey_id parse_node_value assms(1))
  with Cons.IH [of "nodes @ [(p, n)]"] Cons.prems show ?case by (simp add: entry)
qed simp

text \<open>Decoding normalizes: its results are well formed, and it is the identity on the values
  of well-formed archives.\<close>

lemma parse_value_archive_wf:
  assumes "host_ok H" "parse_value_archive H v = Inr a"
  shows "wf_archive H a"
proof -
  obtain root inputNodes where a: "archivePublicKey H (read_prop root ''programId'') ''programId'' = Inr (arch_programId a)"
    "foldE (add_node H (arch_programId a)) [] inputNodes = Inr (arch_nodes a)"
    "length inputNodes \<le> MAX_ARCHIVE_NODES" "archive_size H a \<le> MAX_ARCHIVE_BYTES"
    "\<exists>i. inspectArchiveGraph H a = Inr i"
    using assms(2) by (auto simp: parse_value_archive_def archive_size_def Let_def split: if_splits)
  then show ?thesis
    using add_nodes_wf [OF assms(1) _ a(2)] archivePublicKey_text [OF a(1)]
    by (simp add: wf_archive_def)
qed

lemma parse_value_archive_value:
  assumes "host_ok H" "wf_archive H a"
  shows "parse_value_archive H (archive_value a) = Inr a"
proof -
  obtain programId nodes where a: "a = \<lparr>arch_programId = programId, arch_nodes = nodes\<rparr>" by (cases a)
  note wf = assms(2) [unfolded wf_archive_def a hash_archive.select_convs]
  have "foldE (add_node H programId) [] (map (\<lambda>(k, n). (k, node_value n)) nodes) = Inr nodes"
    using add_nodes_value [OF assms(1), of programId nodes "[]"] wf by simp
  moreover have "utf8_length (json_text H (archive_value a)) \<le> MAX_ARCHIVE_BYTES"
    using wf by (simp add: archive_size_def a)
  ultimately show ?thesis
    using wf unfolding a
    by (auto simp: parse_value_archive_def archive_value_def plain_object_def check_fields_ok
        archivePublicKey_id assms(1) Let_def simp del: json_text.simps)
qed

interpretation archive_object: codec archive_value
    "\<lambda>v. case parse_value_archive H v of Inr a \<Rightarrow> Some a | Inl _ \<Rightarrow> None"
    "\<lambda>a. host_ok H \<and> wf_archive H a" for H
  by unfold_locales (simp add: parse_value_archive_value)

lemma parseArchive_value:
  "host_ok H \<Longrightarrow> wf_archive H a \<Longrightarrow> parseArchive H (archive_value a) = Inr a"
  by (simp add: parseArchive_def archive_value_def flip: parse_value_archive_value)

lemma parseArchive_wf: "host_ok H \<Longrightarrow> parseArchive H v = Inr a \<Longrightarrow> wf_archive H a"
  by (cases v) (auto simp: parseArchive_def intro: parse_value_archive_wf split: if_splits option.splits)

end
