(* ===== verification/ArchiveText.thy ===== *)
theory ArchiveText
  imports Codec
begin

text \<open>
  The text form of archives: \<open>parseArchive\<close> decodes a JSON text as the value it denotes, so it
  reads back a well-formed archive from every rendering of its value, in particular from both
  forms \<open>stringifyArchive\<close> prints, and the printed form depends only on the set of nodes.
\<close>

section \<open>Archives as text\<close>

lemma json_ok_strings [simp]: "list_all json_ok (map JString ss)"
  by (simp add: list.pred_map list_all_iff)

lemma json_ok_jbyte [simp]: "json_ok (jbyte b)"
proof -
  have "is_integer (of_int (uint b))" "\<bar>uint b\<bar> < 10 ^ 15"
    using uint_bounded [of b] by (simp_all del: of_int_uint)
  then have "is_integer (of_int (uint b))" "\<bar>of_int (uint b) :: rat\<bar> < of_int (10 ^ 15)"
    unfolding of_int_abs [symmetric] of_int_less_iff by blast+
  then show ?thesis by (simp add: jbyte_def del: of_int_uint)
qed

lemma json_ok_source: "json_ok (source_value s)"
  by (cases s) simp_all

lemma json_ok_snapshot: "wf_snapshot H s \<Longrightarrow> json_ok (snapshot_value s)"
proof -
  assume "wf_snapshot H s"
  then obtain bs where "as_data s = map jbyte bs"
    unfolding wf_snapshot_def by (metis byte_values_iff)
  then show ?thesis by (simp add: snapshot_value_def list_all_iff)
qed

lemma json_ok_node: "wf_node H n \<Longrightarrow> json_ok (node_value n)"
  by (auto simp: node_value_def wf_node_def json_ok_source json_ok_snapshot split: option.splits)

lemma json_ok_archive: "wf_archive H a \<Longrightarrow> json_ok (archive_value a)"
  using json_ok_node by (auto simp: archive_value_def wf_archive_def wf_entry_def list_all_iff
      ARCHIVE_VERSION_def case_prod_unfold comp_def)

text \<open>A text is decoded as the value it denotes: \<open>JSON.parse\<close> finds that value in every rendering
  without repeated keys, and the key scan refuses the others.\<close>

lemma parseArchive_renders:
  assumes "renders H (JObject es) t" "blank w" "blank w'"
    and "utf8_length (w @ t @ w') \<le> MAX_ARCHIVE_BYTES"
  shows "distinct_deep (JObject es) \<Longrightarrow> parseArchive H (JString (w @ t @ w')) = parseArchive H (JObject es)"
    and "\<not> distinct_deep (JObject es) \<Longrightarrow> \<exists>e. parseArchive H (JString (w @ t @ w')) = Inl e"
proof -
  note scan = rejectDuplicateKeys_renders [OF assms(1-3)]
  {
    assume distinct: "distinct_deep (JObject es)"
    then have "rejectDuplicateKeys H (w @ t @ w') = Inr ()" using scan(1) by blast
    with json_parse_renders [OF assms(1) distinct assms(2,3)] assms(4)
    show "parseArchive H (JString (w @ t @ w')) = parseArchive H (JObject es)"
      by (simp add: parseArchive_def)
  }
  {
    assume "\<not> distinct_deep (JObject es)"
    then obtain k where "rejectDuplicateKeys H (w @ t @ w') = Inl (duplicate_key_error k)" using scan(2) by blast
    then show "\<exists>e. parseArchive H (JString (w @ t @ w')) = Inl e"
      by (auto simp: parseArchive_def split: option.splits)
  }
qed

text \<open>So every rendering of a well-formed archive within the limit is read back.\<close>

lemma parseArchive_text:
  assumes "host_ok H" "wf_archive H a" "renders H (archive_value a) t" "blank w" "blank w'"
    and "utf8_length (w @ t @ w') \<le> MAX_ARCHIVE_BYTES"
  shows "parseArchive H (JString (w @ t @ w')) = Inr a"
proof -
  obtain es where es: "archive_value a = JObject es" by (simp add: archive_value_def)
  have "distinct_deep (archive_value a)"
    by (rule json_ok_distinct [OF json_ok_archive [OF assms(2)]])
  with parseArchive_renders(1) [OF assms(3) [unfolded es] assms(4-6)] es
  have "parseArchive H (JString (w @ t @ w')) = parseArchive H (archive_value a)" by simp
  then show ?thesis by (simp only: parseArchive_value [OF assms(1,2)])
qed

section \<open>Sorting the nodes\<close>

definition same_content :: "hash_archive \<Rightarrow> hash_archive \<Rightarrow> bool" where
  "same_content a b \<longleftrightarrow> arch_programId a = arch_programId b \<and>
     (\<forall>p. get (arch_nodes a) p = get (arch_nodes b) p) \<and> set (arch_nodes a) = set (arch_nodes b)"

lemma same_content_dependencies: "same_content a b \<Longrightarrow> nodeDependencies H a n = nodeDependencies H b n"
proof -
  assume "same_content a b"
  then have pda: "node_pda H a = node_pda H b" by (simp add: fun_eq_iff node_pda_def same_content_def)
  show ?thesis unfolding nodeDependencies_def pda ..
qed

lemma same_content_commits: "same_content a b \<Longrightarrow> commits H a p n = commits H b p n"
proof -
  assume same: "same_content a b"
  then have nodes: "get (arch_nodes a) = get (arch_nodes b)" by (simp add: same_content_def fun_eq_iff)
  have "expected_commitment H a p n ds = expected_commitment H b p n ds" for ds
    unfolding expected_commitment_def nodes ..
  then show ?thesis by (simp add: commits_def same_content_dependencies [OF same])
qed

lemma same_content_inspect:
  assumes "same_content a b" "inspectArchiveGraph H a = Inr i"
  shows "\<exists>j. inspectArchiveGraph H b = Inr j"
proof -
  have eqs: "nodeDependencies H a = nodeDependencies H b" "get (arch_nodes a) = get (arch_nodes b)"
    "commits H a = commits H b" "set (arch_nodes a) = set (arch_nodes b)"
    using assms(1) same_content_dependencies [OF assms(1)] same_content_commits [OF assms(1)]
    by (auto simp: fun_eq_iff same_content_def)
  show ?thesis
    using assms(2) unfolding inspectArchiveGraph_ok order_all_iff edges_def eqs by simp
qed


lemma utf8_length_append [simp]:
  "utf8_length [] = 0" "utf8_length (s @ t) = utf8_length s + utf8_length t"
  by (simp_all add: utf8_length_def)

lemma utf8_length_join: "utf8_length (join sep ts) = sum_list (map utf8_length ts) + utf8_length sep * (length ts - 1)"
  by (induction sep ts rule: join.induct) auto

lemma archive_size_sum:
  "archive_size H c = utf8_length (''{'' @ quote ''format'' @ '':'' @ quote ARCHIVE_FORMAT @ '','' @
      quote ''version'' @ '':'' @ number_text H (Finite (of_int ARCHIVE_VERSION)) @ '','' @
      quote ''programId'' @ '':'' @ quote (arch_programId c) @ '','' @ quote ''nodes'' @ '':{'') +
    sum_list (map (\<lambda>(k, n). utf8_length (quote k @ '':'' @ json_text H (node_value n))) (arch_nodes c)) +
    utf8_length '','' * (length (arch_nodes c) - 1) + utf8_length ''}}''"
proof -
  let ?text = "\<lambda>(k, n). quote k @ '':'' @ json_text H (node_value n)"
  have "json_text H (archive_value c) = (''{'' @ quote ''format'' @ '':'' @ quote ARCHIVE_FORMAT @ '','' @
      quote ''version'' @ '':'' @ number_text H (Finite (of_int ARCHIVE_VERSION)) @ '','' @
      quote ''programId'' @ '':'' @ quote (arch_programId c) @ '','' @ quote ''nodes'' @ '':{'') @
      (join '','' (map ?text (arch_nodes c)) @ ''}}'')"
    by (simp add: archive_value_def case_prod_unfold comp_def)
  then show ?thesis
    by (simp only: archive_size_def utf8_length_append(2) utf8_length_join map_map comp_def length_map
        case_prod_unfold add.assoc)
qed

lemma archive_size_mset:
  assumes "arch_programId a = arch_programId b" "mset (arch_nodes a) = mset (arch_nodes b)"
  shows "archive_size H a = archive_size H b"
proof -
  have "mset (map f (arch_nodes a)) = mset (map f (arch_nodes b))" for f :: "string \<times> archive_node \<Rightarrow> nat"
    using assms(2) by (simp only: mset_map)
  then have "sum_list (map f (arch_nodes a)) = sum_list (map f (arch_nodes b))"
    for f :: "string \<times> archive_node \<Rightarrow> nat"
    by (simp only: sum_mset_sum_list [symmetric])
  moreover have "length (arch_nodes a) = length (arch_nodes b)"
    using assms(2) by (rule mset_eq_length)
  ultimately show ?thesis by (simp only: archive_size_sum assms(1))
qed

lemma get_mset: "mset xs = mset ys \<Longrightarrow> distinct (keys xs) \<Longrightarrow> get xs k = get ys k"
proof -
  assume eq: "mset xs = mset ys" and d: "distinct (keys xs)"
  have "mset (keys xs) = mset (keys ys)" using eq by (simp add: mset_map)
  then have d': "distinct (keys ys)" using d by (metis distinct_count_atmost_1 set_mset_mset mset_eq_setD)
  have "set xs = set ys" using eq by (rule mset_eq_setD)
  then have "get xs k = Some v \<longleftrightarrow> get ys k = Some v" for v by (simp add: get_iff_mem d d')
  then show ?thesis by (metis option.exhaust)
qed

text \<open>Well-formedness does not depend on the order of the nodes.\<close>

lemma wf_archive_mset:
  assumes "wf_archive H a" "arch_programId a = arch_programId b" "mset (arch_nodes a) = mset (arch_nodes b)"
  shows "wf_archive H b"
proof -
  note wf = assms(1) [unfolded wf_archive_def]
  have set: "set (arch_nodes a) = set (arch_nodes b)" using assms(3) by (rule mset_eq_setD)
  have length: "length (arch_nodes a) = length (arch_nodes b)" using assms(3) by (rule mset_eq_length)
  have keys: "mset (keys (arch_nodes a)) = mset (keys (arch_nodes b))" using assms(3) by (simp add: mset_map)
  have "distinct (keys (arch_nodes b))" using wf mset_eq_imp_distinct_iff [OF keys] by blast
  moreover have "same_content a b"
    using assms(2,3) wf set get_mset by (auto simp: same_content_def)
  ultimately show ?thesis
    using wf same_content_inspect archive_size_mset [OF assms(2,3), of H]
    by (auto simp: wf_archive_def length assms(2) set list_all_iff)
qed

lemma sort_nodes_wf: "wf_archive H a \<Longrightarrow> wf_archive H (sort_nodes H a)"
  by (rule wf_archive_mset) (simp_all add: sort_nodes_def)

lemma stringifyArchive_ok:
  "stringifyArchive H v = Inr t \<longleftrightarrow> (\<exists>a. parseArchive H v = Inr a \<and>
     (let sorted_archive = sort_nodes H a; pretty = json_pretty H 0 (archive_value sorted_archive) @ [CHR 0x0A] in
      t = (if utf8_length pretty \<le> MAX_ARCHIVE_BYTES then pretty else json_text H (archive_value sorted_archive))))"
  unfolding stringifyArchive_def bindE_ok Let_def sum.inject by (simp only: eq_commute)

text \<open>The text of an archive reads back to the archive, its nodes sorted.\<close>

lemma parse_stringify:
  assumes "host_ok H" "stringifyArchive H v = Inr t"
  shows "\<exists>a. parseArchive H v = Inr a \<and> parseArchive H (JString t) = Inr (sort_nodes H a)"
proof -
  obtain a where a: "parseArchive H v = Inr a"
    and t: "let pretty = json_pretty H 0 (archive_value (sort_nodes H a)) @ [CHR 0x0A] in
      t = (if utf8_length pretty \<le> MAX_ARCHIVE_BYTES then pretty else json_text H (archive_value (sort_nodes H a)))"
    using assms(2) by (auto simp: stringifyArchive_ok Let_def)
  let ?b = "sort_nodes H a"
  have wf: "wf_archive H ?b" by (rule sort_nodes_wf [OF parseArchive_wf [OF assms(1) a]])
  note ok = json_ok_archive [OF wf]
  have line: "blank []" "blank [CHR 0x0A]" by (simp_all add: blank_def json_space_def)
  have "parseArchive H (JString t) = Inr ?b"
  proof (cases "utf8_length (json_pretty H 0 (archive_value ?b) @ [CHR 0x0A]) \<le> MAX_ARCHIVE_BYTES")
    case True
    with t parseArchive_text [OF assms(1) wf json_pretty_renders [OF ok, where d = 0] line] show ?thesis
      by (simp add: Let_def del: utf8_length_append)
  next
    case False
    have "utf8_length ([] @ json_text H (archive_value ?b) @ []) \<le> MAX_ARCHIVE_BYTES"
      using wf by (simp add: wf_archive_def archive_size_def)
    from parseArchive_text [OF assms(1) wf json_text_renders [OF ok] line(1,1) this] False t show ?thesis
      by (simp add: Let_def del: utf8_length_append)
  qed
  with a show ?thesis by blast
qed

section \<open>The demonstration archive is well formed\<close>

definition plain_char :: "char \<Rightarrow> bool" where
  "plain_char c \<longleftrightarrow> c \<noteq> CHR 0x22 \<and> c \<noteq> CHR 0x5C \<and> 32 \<le> (of_char c :: nat) \<and> (of_char c :: nat) < 128"

lemma utf8_length_quote:
  assumes "list_all plain_char s"
  shows "utf8_length (quote s) = length s + 2"
proof -
  have "escape_char c = [c]" if "plain_char c" for c
    using that by (auto simp: escape_char_def plain_char_def Let_def)
  then have "concat (map escape_char s) = s"
    using assms by (induction s) auto
  moreover have "utf8_length s = length s"
    using assms by (induction s) (auto simp: utf8_length_def plain_char_def)
  ultimately show ?thesis
    by (simp add: quote_def utf8_length_def)
qed

lemma plain_digit: "n < 16 \<Longrightarrow> plain_char (digit_char n)"
  by (drule less_16_cases) (elim insertE emptyE; simp add: digit_char_def plain_char_def)

lemma plain_hex [simp]: "list_all plain_char (hex_of_bytes bs)"
  by (induction bs rule: hex_of_bytes.induct) (auto intro: plain_digit)

lemma plain_decimal: "n < 10 \<Longrightarrow> int_to_decimal (int n) = [digit_char n]"
  by (simp add: int_to_decimal_def nat_to_decimal.simps)

lemma demo_key_plain [simp]: "list_all plain_char (demo_key k)" "length (demo_key k) = 44"
proof -
  have "list_all plain_char alphabet58" by (simp add: alphabet58_def plain_char_def)
  then have "plain_char (char58 n)" if "n < 58" for n
    using that by (simp add: char58_def list_all_iff)
  then show "list_all plain_char (demo_key k)"
    using to_digits_less [of 58 44 "key_number k"]
    by (auto simp: demo_host_def demo_toBase58_def list.pred_map list_all_iff)
  show "length (demo_key k) = 44" by (simp add: demo_host_def demo_toBase58_def)
qed


lemma utf8_length_Cons: "utf8_length (c # s) = (if (of_char c :: nat) < 128 then 1 else 2) + utf8_length s"
  by (simp add: utf8_length_def)

lemma demo_byte_text: "json_text H (jbyte 3) = ''3''"
proof -
  have "jbyte 3 = jint 3" by (simp add: jbyte_def)
  moreover have "int_to_decimal 3 = ''3''" using plain_decimal [of 3] by (simp add: digit_char_def)
  moreover have "\<lfloor>3 :: rat\<rfloor> = 3" by simp
  ultimately show ?thesis by (simp add: number_text_def)
qed

lemma demo_node_sizes:
  "n \<in> {demo_leaf, demo_branch, demo_account, demo_batch, demo_pack} \<Longrightarrow>
     utf8_length (json_text demo_host (node_value n)) \<le> 1000"
proof -
  have decimals: "int_to_decimal 5 = ''5''" "int_to_decimal 6 = ''6''" "int_to_decimal 7 = ''7''"
    "int_to_decimal 8 = ''8''" "int_to_decimal 9 = ''9''" "int_to_decimal 1 = ''1''" "int_to_decimal 0 = ''0''"
    "int_to_decimal 10 = ''10''"
    by (simp_all add: int_to_decimal_def nat_to_decimal.simps digit_char_def)
  show "n \<in> {demo_leaf, demo_branch, demo_account, demo_batch, demo_pack} \<Longrightarrow>
     utf8_length (json_text demo_host (node_value n)) \<le> 1000"
    by (elim insertE emptyE)
      (simp_all add: demo_node_defs node_value_def snapshot_value_def utf8_length_Cons utf8_length_quote
        plain_char_def utf8_length_join decimals demo_byte_text sum_list_replicate del: hex_of_bytes.simps)
qed


lemma demo_archives_wf: "wf_archive demo_host demo_archive" "wf_archive demo_host demo_partial"
proof -
  have "number_text demo_host (Finite (of_int ARCHIVE_VERSION)) = ''1''"
    by (simp add: number_text_def ARCHIVE_VERSION_def int_to_decimal_def nat_to_decimal.simps digit_char_def)
  note sizes = this archive_size_sum utf8_length_Cons utf8_length_quote plain_char_def ARCHIVE_FORMAT_def
    demo_program_def demo_nodes
  have "utf8_length (json_text demo_host (node_value demo_leaf)) \<le> 1000"
    "utf8_length (json_text demo_host (node_value demo_branch)) \<le> 1000"
    "utf8_length (json_text demo_host (node_value demo_account)) \<le> 1000"
    "utf8_length (json_text demo_host (node_value demo_batch)) \<le> 1000"
    "utf8_length (json_text demo_host (node_value demo_pack)) \<le> 1000"
    by (rule demo_node_sizes; simp)+
  then have size: "archive_size demo_host demo_archive \<le> MAX_ARCHIVE_BYTES"
    "archive_size demo_host demo_partial \<le> MAX_ARCHIVE_BYTES"
    by (simp_all add: sizes MAX_ARCHIVE_BYTES_def)
  have "list_all (wf_entry demo_host demo_program) (arch_nodes demo_archive)"
    "list_all (wf_entry demo_host demo_program) (arch_nodes demo_partial)"
    by (simp_all add: demo_nodes wf_entry_def demo_wf_nodes demo_node_ids key_textI)
  with size demo_inspect show "wf_archive demo_host demo_archive" "wf_archive demo_host demo_partial"
    by (simp_all add: wf_archive_def demo_nodes MAX_ARCHIVE_NODES_def demo_program_def key_textI)
qed


lemma node_order: "host_ok H \<Longrightarrow> comparison (\<lambda>(a, _) (b, _). localeLe H a b)"
  unfolding comparison_def host_ok_def by (simp add: split_def)

lemma sort_nodes_idem: "host_ok H \<Longrightarrow> sort_nodes H (sort_nodes H a) = sort_nodes H a"
  by (simp add: sort_nodes_def comparison.sort_by_idem [OF node_order])

lemma sort_nodes_sorted: "host_ok H \<Longrightarrow> sorted_wrt (localeLe H) (keys (arch_nodes (sort_nodes H a)))"
  using comparison.sorted_sort_by [OF node_order, of H "arch_nodes a"]
  by (simp add: sort_nodes_def sorted_wrt_map split_def)

section \<open>Properties\<close>

text \<open>C1: whatever \<open>parseArchive\<close> returns is normalized: Base58 program id, distinct node
  addresses, at most the allowed number of nodes, each node with canonical field texts in
  range and stored under the program address of its own hash and kind, and a compact text
  within the size limit; and the archive passes inspection.\<close>

theorem parseArchive_normalizes:
  assumes "host_ok H" "parseArchive H input = Inr a"
  shows "key_text H (arch_programId a) \<and> distinct (keys (arch_nodes a)) \<and>
    length (arch_nodes a) \<le> MAX_ARCHIVE_NODES \<and>
    utf8_length (json_text H (archive_value a)) \<le> MAX_ARCHIVE_BYTES \<and>
    (\<forall>p n. get (arch_nodes a) p = Some n \<longrightarrow> key_text H p \<and> wf_node H n \<and>
      deriveHashPda H (key_bytes H (arch_programId a))
        (JBytes (sha256 H (canonical_frame (bytes_of_hex (node_hash n)) (archive_kind (node_source n)))))
        = Inr (key_bytes H p)) \<and>
    (\<exists>i. inspectArchiveGraph H a = Inr i)"
proof -
  have "wf_archive H a" by (rule parseArchive_wf [OF assms])
  then show ?thesis
    using get_mem by (fastforce simp: wf_archive_def archive_size_def wf_entry_def list_all_iff node_id_def)
qed

lemma parseArchive_normalizes_witness:
  "parseArchive demo_host (archive_value demo_archive) = Inr demo_archive \<and>
   wf_node demo_host demo_pack \<and>
   deriveHashPda demo_host (replicate 32 9) (JBytes demo_pack_id) = Inr demo_pack_id"
proof -
  have parsed: "parseArchive demo_host (archive_value demo_archive) = Inr demo_archive"
    by (simp add: parseArchive_value demo_archives_wf)
  have "get (arch_nodes demo_archive) (demo_key demo_pack_id) = Some demo_pack"
    by (simp add: demo_nodes)
  with parseArchive_normalizes [OF demo_host_ok parsed] parsed show ?thesis
    by (simp add: demo_node_ids [unfolded node_id_def] demo_program_def)
qed

text \<open>Decoding is idempotent: the value of a decoded archive decodes to the same archive, and
  two decoded archives with the same value are equal, so normalization loses nothing.\<close>

theorem parseArchive_idempotent:
  assumes "host_ok H" "parseArchive H input = Inr a" "parseArchive H input' = Inr b"
  shows "parseArchive H (archive_value a) = Inr a \<and> (archive_value a = archive_value b \<longleftrightarrow> a = b)"
  using assms parseArchive_wf archive_object.enc_inject [of H a b] by (simp add: parseArchive_value)

lemma parseArchive_idempotent_witness:
  "archive_value demo_archive \<noteq> archive_value demo_partial"
proof -
  have "parseArchive demo_host (archive_value demo_archive) = Inr demo_archive"
    "parseArchive demo_host (archive_value demo_partial) = Inr demo_partial"
    by (simp_all add: parseArchive_value demo_archives_wf)
  moreover have "demo_archive \<noteq> demo_partial"
    by (simp add: demo_archive_def demo_partial_def)
  ultimately show ?thesis using parseArchive_idempotent [OF demo_host_ok] by blast
qed

text \<open>An empty archive as a hand-edited text: members in another order, a key spelled with a
  \<open>\u\<close> escape, blanks around the colon and around the text; and a text that spells the same
  key in two ways.\<close>

definition demo_fields :: "jsval object" where
  "demo_fields = [(''version'', jint ARCHIVE_VERSION), (''nodes'', JObject []),
     (''format'', JString ARCHIVE_FORMAT), (''programId'', JString demo_program)]"

definition escaped_version :: string where
  "escaped_version = CHR 0x22 # (CHR 0x5C # ''u0076ersion'') @ [CHR 0x22]"

definition demo_text :: string where
  "demo_text = ''{'' @ '' '' @ escaped_version @ '' '' @ '':'' @ '' '' @ ''1'' @ [] @ '','' @
     [] @ quote ''nodes'' @ [] @ '':'' @ [] @ (''{'' @ '' '' @ ''}'') @ '' '' @ '','' @
     [] @ quote ''format'' @ [] @ '':'' @ [] @ quote ARCHIVE_FORMAT @ [] @ '','' @
     [] @ quote ''programId'' @ [] @ '':'' @ [] @ quote demo_program @ [] @ ''}''"

definition demo_repeated :: string where
  "demo_repeated = ''{'' @ [] @ escaped_version @ [] @ '':'' @ [] @ ''1'' @ [] @ '','' @
     [] @ quote ''version'' @ [] @ '':'' @ [] @ ''1'' @ [] @ ''}''"

lemma literal_escaped_version: "literal ''version'' escaped_version"
proof -
  have "spells ''version'' (CHR 0x5C # ''u0076ersion'')"
    by (intro s_code s_plain s_end) (simp_all add: unicode_escape_def is_digit_def radix_value_def digit_val_def char_of_eq_iff)
  then show ?thesis unfolding literal_def escaped_version_def by blast
qed

lemma demo_texts_render:
  "renders demo_host (JObject demo_fields) demo_text"
  "renders demo_host (JObject [(''version'', jint ARCHIVE_VERSION), (''version'', jint ARCHIVE_VERSION)]) demo_repeated"
proof -
  have "int_to_decimal 1 = ''1''" by (simp add: int_to_decimal_def nat_to_decimal.simps digit_char_def)
  then have one: "renders demo_host (jint ARCHIVE_VERSION) ''1''"
    using r_number [OF number_spelling_decimal, of 1 demo_host] by (simp add: ARCHIVE_VERSION_def)
  have blanks: "blank '' ''" "blank []" by simp_all
  note rules = one blanks literal_quote literal_escaped_version r_string [OF literal_quote]
    r_empty_object [OF blanks(1)] r_object m_last m_cons
  show "renders demo_host (JObject demo_fields) demo_text"
    unfolding demo_fields_def demo_text_def by (rule rules)+
  show "renders demo_host (JObject [(''version'', jint ARCHIVE_VERSION), (''version'', jint ARCHIVE_VERSION)]) demo_repeated"
    unfolding demo_repeated_def by (rule rules)+
qed

lemma demo_fields_value: "parseArchive demo_host (JObject demo_fields) = Inr (demo_archive\<lparr>arch_nodes := []\<rparr>)"
proof -
  let ?a = "demo_archive\<lparr>arch_nodes := []\<rparr>"
  have "archive_size demo_host ?a \<le> archive_size demo_host demo_archive"
    by (simp add: archive_size_sum demo_nodes)
  moreover have "\<exists>i. inspectArchiveGraph demo_host ?a = Inr i"
    by (simp add: inspectArchiveGraph_ok dependencyOrder_def dependency_search_def)
  ultimately have "wf_archive demo_host ?a"
    using demo_archives_wf(1) by (simp add: wf_archive_def)
  then have "parse_value_archive demo_host (archive_value ?a) = Inr ?a"
    by (rule parse_value_archive_value [OF demo_host_ok])
  then show ?thesis
    by (simp add: parseArchive_def parse_value_archive_def demo_fields_def archive_value_def plain_object_def
        check_fields_def)
qed

text \<open>C39: an archive text is decoded as the JSON value it denotes. Take any text of an object
  within the size limit, with any white space between and around its tokens and any spelling of
  its strings, keys and numbers (code units above 255 are outside the model). When no object in
  it repeats a key, however the key is spelled, decoding the text gives what decoding the object
  gives, its members in the order of the text; so a text of a decoded archive's value decodes to
  that archive. When an object in it, at any depth, repeats a key, decoding fails.\<close>

theorem parseArchive_any_layout:
  assumes "renders H (JObject es) t" "blank w" "blank w'"
    and "utf8_length (w @ t @ w') \<le> MAX_ARCHIVE_BYTES"
  shows "(distinct_deep (JObject es) \<longrightarrow> parseArchive H (JString (w @ t @ w')) = parseArchive H (JObject es)) \<and>
    (\<not> distinct_deep (JObject es) \<longrightarrow> (\<exists>e. parseArchive H (JString (w @ t @ w')) = Inl e)) \<and>
    (\<forall>input a. host_ok H \<longrightarrow> parseArchive H input = Inr a \<longrightarrow> archive_value a = JObject es \<longrightarrow>
      parseArchive H (JString (w @ t @ w')) = Inr a)"
  using parseArchive_renders [OF assms] parseArchive_text [OF _ parseArchive_wf _ assms(2-4)] assms(1)
  by (metis (no_types, lifting))

lemma parseArchive_any_layout_witness:
  "parseArchive demo_host (JString ('' '' @ demo_text @ [CHR 0x0A])) = Inr (demo_archive\<lparr>arch_nodes := []\<rparr>) \<and>
   (\<exists>e. parseArchive demo_host (JString ([] @ demo_repeated @ [])) = Inl e) \<and>
   parseArchive demo_host (JString ([] @ json_text demo_host (archive_value demo_archive) @ [])) = Inr demo_archive"
proof -
  have blanks: "blank '' ''" "blank []" "blank [CHR 0x0A]" by (simp_all add: blank_def json_space_def)
  have "utf8_length ('' '' @ demo_text @ [CHR 0x0A]) \<le> MAX_ARCHIVE_BYTES"
    by (simp add: demo_text_def escaped_version_def utf8_length_Cons utf8_length_quote plain_char_def
        ARCHIVE_FORMAT_def demo_program_def MAX_ARCHIVE_BYTES_def)
  from parseArchive_any_layout [OF demo_texts_render(1) blanks(1,3) this] demo_fields_value
  have "parseArchive demo_host (JString ('' '' @ demo_text @ [CHR 0x0A])) = Inr (demo_archive\<lparr>arch_nodes := []\<rparr>)"
    by (simp add: demo_fields_def)
  moreover have "utf8_length ([] @ demo_repeated @ []) \<le> MAX_ARCHIVE_BYTES"
    by (simp add: demo_repeated_def escaped_version_def quote_def escape_char_def utf8_length_def MAX_ARCHIVE_BYTES_def)
  from parseArchive_any_layout [OF demo_texts_render(2) blanks(2,2) this]
  have "\<exists>e. parseArchive demo_host (JString ([] @ demo_repeated @ [])) = Inl e" by simp
  moreover have "parseArchive demo_host (JString ([] @ json_text demo_host (archive_value demo_archive) @ [])) = Inr demo_archive"
  proof -
    obtain es where es: "archive_value demo_archive = JObject es" by (simp add: archive_value_def)
    have rendered: "renders demo_host (JObject es) (json_text demo_host (archive_value demo_archive))"
      using json_text_renders [OF json_ok_archive [OF demo_archives_wf(1)]] by (simp only: es)
    have fits: "utf8_length ([] @ json_text demo_host (archive_value demo_archive) @ []) \<le> MAX_ARCHIVE_BYTES"
      using demo_archives_wf(1) by (simp add: wf_archive_def archive_size_def)
    have "parseArchive demo_host (archive_value demo_archive) = Inr demo_archive"
      by (simp add: parseArchive_value demo_archives_wf)
    with parseArchive_any_layout [OF rendered blanks(2,2) fits] es demo_host_ok show ?thesis by blast
  qed
  ultimately show ?thesis by blast
qed

text \<open>C6: printing round-trips: the text of an archive, indented or (when that would be too large)
  compact, decodes to the same program id and the same nodes, in \<open>localeCompare\<close> order of
  their addresses, and printing that text again gives the same text.\<close>

theorem stringifyArchive_roundtrip:
  assumes "host_ok H" "stringifyArchive H input = Inr t"
  shows "\<exists>a b. parseArchive H input = Inr a \<and> parseArchive H (JString t) = Inr b \<and>
    arch_programId b = arch_programId a \<and> mset (arch_nodes b) = mset (arch_nodes a) \<and>
    sorted_wrt (localeLe H) (keys (arch_nodes b)) \<and> stringifyArchive H (JString t) = Inr t"
proof -
  obtain a where a: "parseArchive H input = Inr a" "parseArchive H (JString t) = Inr (sort_nodes H a)"
    using parse_stringify [OF assms] by blast
  have "stringifyArchive H (JString t) = Inr t"
    using assms(2) a by (simp add: stringifyArchive_def sort_nodes_idem [OF assms(1)])
  moreover have "arch_programId (sort_nodes H a) = arch_programId a"
    "mset (arch_nodes (sort_nodes H a)) = mset (arch_nodes a)"
    by (simp_all add: sort_nodes_def)
  ultimately show ?thesis
    using a sort_nodes_sorted [OF assms(1), of a] by blast
qed

lemma stringifyArchive_roundtrip_witness:
  "\<exists>t b. stringifyArchive demo_host (archive_value demo_archive) = Inr t \<and>
     parseArchive demo_host (JString t) = Inr b \<and> mset (arch_nodes b) = mset (arch_nodes demo_archive) \<and>
     stringifyArchive demo_host (JString t) = Inr t"
proof -
  have parsed: "parseArchive demo_host (archive_value demo_archive) = Inr demo_archive"
    by (simp add: parseArchive_value demo_archives_wf)
  then obtain t where "stringifyArchive demo_host (archive_value demo_archive) = Inr t"
    by (simp add: stringifyArchive_def Let_def)
  from stringifyArchive_roundtrip [OF demo_host_ok this] this parsed show ?thesis by auto
qed

end
