(* ===== verification/Operations.thy ===== *)
theory Operations
  imports ArchiveText
begin

text \<open>
  \<open>app/sdk/archive/operations.ts\<close>: inspection, union, extension and selection of
  archives, and the import of a Restore proof. An argument of type \<open>HashArchive\<close> is the
  JavaScript value the caller passes; every operation decodes it first and decodes its own
  result again before returning it.
\<close>

section \<open>Inspection and union\<close>

definition inspectArchive :: "host \<Rightarrow> jsval \<Rightarrow> archive_inspection result" where
  "inspectArchive H input = bindE (parseArchive H input) (inspectArchiveGraph H)"

text \<open>\<open>core\<close>, \<open>JSON.stringify([n.hash, n.source, n.createdAt])\<close>.\<close>

definition core :: "host \<Rightarrow> archive_node \<Rightarrow> string" where
  "core H n = json_text H (JArray [JString (node_hash n), source_value (node_source n),
     JString (node_createdAt n)])"

definition members_text :: "host \<Rightarrow> string list \<Rightarrow> string" where
  "members_text H ms = json_text H (JArray (map JString ms))"

definition snapshot_text :: "host \<Rightarrow> archive_snapshot \<Rightarrow> string" where
  "snapshot_text H s = json_text H (snapshot_value s)"

text \<open>Both records have the field and its texts differ.\<close>

definition witness_conflict :: "('w \<Rightarrow> string) \<Rightarrow> 'w option \<Rightarrow> 'w option \<Rightarrow> bool" where
  "witness_conflict stringify previous new =
     (case (previous, new) of (Some x, Some y) \<Rightarrow> stringify x \<noteq> stringify y | _ \<Rightarrow> False)"

definition merge_node :: "host \<Rightarrow> string \<Rightarrow> archive_node \<Rightarrow> archive_node \<Rightarrow> archive_node result" where
  "merge_node H pda previous node =
     (if core H previous \<noteq> core H node
      then Inl (Error (''Conflicting historical incarnation: '' @ pda))
      else if witness_conflict (members_text H) (node_members previous) (node_members node)
      then Inl (Error (''Conflicting members: '' @ pda))
      else if witness_conflict (snapshot_text H) (node_snapshot previous) (node_snapshot node)
      then Inl (Error (''Conflicting snapshot: '' @ pda))
      else Inr (node\<lparr>
        node_members := (case node_members previous of None \<Rightarrow> node_members node | Some ms \<Rightarrow> Some ms),
        node_snapshot := (case node_snapshot previous of None \<Rightarrow> node_snapshot node | Some s \<Rightarrow> Some s)\<rparr>))"

definition merge_entry ::
  "host \<Rightarrow> archive_node object \<Rightarrow> string \<times> archive_node \<Rightarrow> archive_node object result" where
  "merge_entry H nodes entry = (case entry of (pda, node) \<Rightarrow>
     (case get nodes pda of
        None \<Rightarrow> Inr (put nodes pda node)
      | Some previous \<Rightarrow> bindE (merge_node H pda previous node) (\<lambda>merged. Inr (put nodes pda merged))))"

definition merge_archive :: "host \<Rightarrow> hash_archive \<Rightarrow> jsval \<Rightarrow> hash_archive result" where
  "merge_archive H result input =
     bindE (parseArchive H input) (\<lambda>archive.
     if arch_programId archive \<noteq> arch_programId result
     then Inl (Error ''Cannot merge archives from different programs'')
     else bindE (foldE (merge_entry H) (arch_nodes result) (arch_nodes archive)) (\<lambda>nodes.
          Inr (result\<lparr>arch_nodes := nodes\<rparr>)))"

definition mergeArchives :: "host \<Rightarrow> jsval \<Rightarrow> jsval list \<Rightarrow> hash_archive result" where
  "mergeArchives H first others =
     bindE (parseArchive H first) (\<lambda>parsed.
     bindE (foldE (merge_archive H) parsed others) (\<lambda>result.
     parseArchive H (archive_value result)))"

text \<open>\<open>{...createArchive(archive.programId), nodes: {[pda]: node}}\<close>, its node as given.\<close>

definition addArchiveNode :: "host \<Rightarrow> jsval \<Rightarrow> string \<Rightarrow> jsval \<Rightarrow> hash_archive result" where
  "addArchiveNode H archive pda node = (case archive of
      JObject obj \<Rightarrow>
        bindE (valueString H (read_prop obj ''programId'')) (\<lambda>programId.
        bindE (createArchive H programId) (\<lambda>empty.
        mergeArchives H archive [JObject [(''format'', JString ARCHIVE_FORMAT), (''version'', jint ARCHIVE_VERSION),
          (''programId'', JString (arch_programId empty)), (''nodes'', JObject [(pda, node)])]]))
    | _ \<Rightarrow> Inl (HostError ''toString''))"

section \<open>Selection\<close>

definition select_entry ::
  "hash_archive \<Rightarrow> archive_node object \<Rightarrow> string \<Rightarrow> archive_node object result" where
  "select_entry archive nodes pda = (case get (arch_nodes archive) pda of
      None \<Rightarrow> Inl (Error (''Unknown archive node: '' @ pda))
    | Some node \<Rightarrow> Inr (put nodes pda node))"

definition selectArchive :: "host \<Rightarrow> jsval \<Rightarrow> string list \<Rightarrow> bool \<Rightarrow> hash_archive result" where
  "selectArchive H input pdas includeDependencies =
     bindE (parseArchive H input) (\<lambda>archive.
     bindE (mapE (\<lambda>pda. archivePublicKey H (JString pda) ''address'') pdas) (\<lambda>addresses.
     bindE (if includeDependencies then dependencyOrder H archive addresses True else Inr addresses) (\<lambda>ids.
     bindE (createArchive H (arch_programId archive)) (\<lambda>result.
     bindE (foldE (select_entry archive) (arch_nodes result) ids) (\<lambda>nodes.
     parseArchive H (archive_value (result\<lparr>arch_nodes := nodes\<rparr>)))))))"

section \<open>Import of a proof\<close>

fun params_kind :: "restore_params \<Rightarrow> hash_kind" where
  "params_kind (PHash payload) = KHash"
| "params_kind (PAccount snapshot) = KAccount"
| "params_kind (PBranch parent) = KBranch"
| "params_kind (PBatch members) = KBatch"
| "params_kind (PPack members) = KPack"

text \<open>\<open>canonicalHashId(member.hash, hashSourceKindOf(member.sourceKind))\<close>.\<close>

definition fingerprint_id :: "host \<Rightarrow> fingerprint_input \<Rightarrow> bytes result" where
  "fingerprint_id H member =
     bindE (hashSourceKindOf (fp_sourceKind member)) (\<lambda>kind.
     canonicalHashId H (fp_hash member) (jint (int (kind_number kind))))"

definition fingerprintId :: "host \<Rightarrow> fingerprint_input \<Rightarrow> string result" where
  "fingerprintId H member = bindE (fingerprint_id H member) (\<lambda>i. archiveHex H (JBytes i))"

definition fingerprint_pda :: "host \<Rightarrow> bytes \<Rightarrow> fingerprint_input \<Rightarrow> string result" where
  "fingerprint_pda H key member =
     bindE (fingerprint_id H member) (\<lambda>i.
     bindE (deriveHashPda H key (JBytes i)) (\<lambda>pda. Inr (toBase58 H pda)))"

text \<open>The checks of one link before its node is made. A \<open>null\<close> or missing \<open>params\<close>
  passes all of them.\<close>

definition payload_check :: "host \<Rightarrow> jsval \<Rightarrow> jsval \<Rightarrow> unit result" where
  "payload_check H hash payload =
     bindE (toBytes H payload) (\<lambda>bytes.
     let failure = Inl (Error ''Proof Hash payload does not match hash'') in
     if bytes = [] then failure
     else bindE (archiveHex H hash) (\<lambda>hex.
       if hex_of_bytes bytes \<noteq> hex \<and> hex_of_bytes (sha256 H bytes) \<noteq> hex then failure else Inr ()))"

definition link_check :: "host \<Rightarrow> restore_proof_input \<Rightarrow> unit result" where
  "link_check H link =
     bindE (case link_params link of
         Some params \<Rightarrow>
           if params_kind params \<noteq> source_kind (link_source link)
           then Inl (Error ''Proof parameters do not match source'') else Inr ()
       | None \<Rightarrow> Inr ()) (\<lambda>_.
     case (link_source link, link_params link) of
       (_, Some (PHash payload)) \<Rightarrow> payload_check H (link_hash link) payload
     | (SBranch previousHashId _ _, Some (PBranch parent)) \<Rightarrow>
         bindE (fingerprintId H parent) (\<lambda>actual.
         bindE (archiveHex H previousHashId) (\<lambda>expected.
         if actual \<noteq> expected then Inl (Error ''Proof Branch parent does not match source'') else Inr ()))
     | (SBatch ids, Some (PBatch members)) \<Rightarrow>
         bindE (mapE (fingerprintId H) members) (\<lambda>actual.
         bindE (mapE (archiveHex H) ids) (\<lambda>expected.
         if members_text H actual \<noteq> members_text H expected
         then Inl (Error ''Proof Batch members do not match source order'') else Inr ()))
     | _ \<Rightarrow> Inr ())"

definition node_of_link :: "host \<Rightarrow> bytes \<Rightarrow> restore_proof_input \<Rightarrow> archive_node result" where
  "node_of_link H key link =
     bindE (archiveHex H (link_hash link)) (\<lambda>hash.
     bindE (archiveSource H (link_source link)) (\<lambda>source.
     bindE (valueString H (link_createdAt link)) (\<lambda>createdAt.
     bindE (case link_params link of
         Some (PPack members) \<Rightarrow> bindE (mapE (fingerprint_pda H key) members) (\<lambda>ms. Inr (Some ms))
       | _ \<Rightarrow> Inr None) (\<lambda>members.
     bindE (case link_params link of
         Some (PAccount (Some snapshot)) \<Rightarrow> bindE (archiveSnapshot H snapshot) (\<lambda>s. Inr (Some s))
       | _ \<Rightarrow> Inr None) (\<lambda>snapshot.
     Inr \<lparr>node_hash = hash, node_source = source, node_createdAt = createdAt,
       node_members = members, node_snapshot = snapshot\<rparr>)))))"

definition import_link ::
  "host \<Rightarrow> bytes \<Rightarrow> archive_node object \<Rightarrow> restore_proof_input \<Rightarrow> archive_node object result" where
  "import_link H key nodes link =
     bindE (link_check H link) (\<lambda>_.
     bindE (node_of_link H key link) (\<lambda>node.
     bindE (canonicalHashId H (link_hash link) (source_object (link_source link))) (\<lambda>i.
     bindE (deriveHashPda H key (JBytes i)) (\<lambda>address.
     let pda = toBase58 H address in
     if get nodes pda \<noteq> None then Inl (Error (''Duplicate proof node: '' @ pda))
     else Inr (put nodes pda node)))))"

definition link_fingerprints :: "restore_proof_input \<Rightarrow> fingerprint_input list" where
  "link_fingerprints link = (case link_params link of
      Some (PBranch parent) \<Rightarrow> [parent]
    | Some (PBatch members) \<Rightarrow> members
    | Some (PPack members) \<Rightarrow> members
    | _ \<Rightarrow> [])"

definition generation_text :: "archive_node \<Rightarrow> string" where
  "generation_text node = (case node_source node of ABranch p q g \<Rightarrow> g | _ \<Rightarrow> ''0'')"

definition check_fingerprint :: "host \<Rightarrow> bytes \<Rightarrow> hash_archive \<Rightarrow> fingerprint_input \<Rightarrow> unit result" where
  "check_fingerprint H key archive member =
     bindE (fingerprint_pda H key member) (\<lambda>pda.
     let failure = Inl (Error (''Proof fingerprint does not match archive node: '' @ pda)) in
     case get (arch_nodes archive) pda of
       None \<Rightarrow> failure
     | Some node \<Rightarrow>
         bindE (valueString H (fp_createdAt member)) (\<lambda>createdAt.
         if node_createdAt node \<noteq> createdAt then failure
         else bindE (valueString H (fp_generation member)) (\<lambda>generation.
           if generation_text node \<noteq> generation then failure else Inr ())))"

text \<open>The program id is given by its \<open>toString()\<close> text.\<close>

definition archiveFromProof :: "host \<Rightarrow> string \<Rightarrow> restore_proof_input list \<Rightarrow> hash_archive result" where
  "archiveFromProof H programId proof =
     bindE (createArchive H programId) (\<lambda>empty.
     bindE (publicKeyOf H (arch_programId empty)) (\<lambda>key.
     bindE (foldE (import_link H key) (arch_nodes empty) proof) (\<lambda>nodes.
     bindE (parseArchive H (archive_value (empty\<lparr>arch_nodes := nodes\<rparr>))) (\<lambda>archive.
     bindE (mapE (check_fingerprint H key archive) (concat (map link_fingerprints proof))) (\<lambda>_.
     Inr archive)))))"

end
