(* ===== verification/Merge.thy ===== *)
theory Merge
  imports Operations
begin

text \<open>
  \<open>mergeArchives\<close> is the pointwise partial join of its inputs: records of one node are
  joined field by field, an absent record or witness contradicts nothing, and the result is
  decoded again. The laws of the join carry over to archives.
\<close>

section \<open>The join of two records\<close>

definition node_join :: "archive_node \<Rightarrow> archive_node \<Rightarrow> archive_node option" where
  "node_join m n =
     (if node_hash m = node_hash n \<and> node_source m = node_source n \<and> node_createdAt m = node_createdAt n
      then (case (lift_join flat_join (node_members m) (node_members n),
                  lift_join flat_join (node_snapshot m) (node_snapshot n)) of
              (Some ms, Some s) \<Rightarrow> Some (m\<lparr>node_members := ms, node_snapshot := s\<rparr>)
            | _ \<Rightarrow> None)
      else None)"

lemma node_join_Some:
  "node_join m n = Some k \<longleftrightarrow>
     node_hash m = node_hash n \<and> node_source m = node_source n \<and> node_createdAt m = node_createdAt n \<and>
     node_hash k = node_hash n \<and> node_source k = node_source n \<and> node_createdAt k = node_createdAt n \<and>
     lift_join flat_join (node_members m) (node_members n) = Some (node_members k) \<and>
     lift_join flat_join (node_snapshot m) (node_snapshot n) = Some (node_snapshot k)"
  by (cases m; cases n; cases k) (auto simp: node_join_def split: option.splits)

definition same_core :: "archive_node \<Rightarrow> archive_node \<Rightarrow> bool" where
  "same_core m n \<longleftrightarrow>
     node_hash m = node_hash n \<and> node_source m = node_source n \<and> node_createdAt m = node_createdAt n"

lemma node_join_core: "node_join m n = Some k \<Longrightarrow> same_core m n \<and> same_core k n"
  by (simp add: same_core_def node_join_Some)

lemma node_join_witnesses:
  "same_core m n \<Longrightarrow> node_join m n =
     Option.bind (lift_join flat_join (node_members m) (node_members n)) (\<lambda>ms.
     Option.bind (lift_join flat_join (node_snapshot m) (node_snapshot n)) (\<lambda>s.
     Some (m\<lparr>node_members := ms, node_snapshot := s\<rparr>)))"
  by (simp add: same_core_def node_join_def split: option.split)

lemma node_join_assoc:
  "Option.bind (node_join x y) (\<lambda>u. node_join u z) = Option.bind (node_join y z) (\<lambda>v. node_join x v)"
proof (cases "same_core x y \<and> same_core y z")
  case True
  then have "same_core x z" by (simp add: same_core_def)
  have core: "same_core (x\<lparr>node_members := ms, node_snapshot := s\<rparr>) z"
    "same_core x (y\<lparr>node_members := ms, node_snapshot := s\<rparr>)" for ms s
    using True by (simp_all add: same_core_def)
  have xy: "same_core x y" "same_core y z" using True by auto
  show ?thesis
    using field.join_assoc [of "node_members x" "node_members y" "node_members z"]
      field.join_assoc [of "node_snapshot x" "node_snapshot y" "node_snapshot z"]
    by (cases "lift_join flat_join (node_members x) (node_members y)";
        cases "lift_join flat_join (node_members y) (node_members z)";
        cases "lift_join flat_join (node_snapshot x) (node_snapshot y)";
        cases "lift_join flat_join (node_snapshot y) (node_snapshot z)")
      (simp_all add: node_join_witnesses xy core)
next
  case False
  have "node_join u z = None" if u: "node_join x y = Some u" for u
  proof (rule ccontr)
    assume "node_join u z \<noteq> None"
    then obtain r where "node_join u z = Some r" by auto
    with node_join_core [OF u] node_join_core [OF this] False show False by (simp add: same_core_def)
  qed
  moreover have "node_join x v = None" if v: "node_join y z = Some v" for v
  proof (rule ccontr)
    assume "node_join x v \<noteq> None"
    then obtain r where "node_join x v = Some r" by auto
    with node_join_core [OF v] node_join_core [OF this] False show False by (simp add: same_core_def)
  qed
  ultimately show ?thesis
    by (cases "node_join x y"; cases "node_join y z") simp_all
qed

interpretation record_join: partial_join node_join
proof
  show "node_join m m = Some m" for m
    by (simp add: node_join_Some field.join_idem)
  have "node_join m n = Some k \<Longrightarrow> node_join n m = Some k" for m n k
    unfolding node_join_Some by (simp add: field.join_commute)
  then show "node_join m n = node_join n m" for m n
    by (metis option.exhaust)
qed (rule node_join_assoc)

interpretation entry_join: partial_join "lift_join node_join"
  by (rule record_join.partial_join_lift)

section \<open>The code joins records\<close>

lemma source_value_inject: "source_value s = source_value t \<longleftrightarrow> s = t"
  by (cases s; cases t) (auto simp: inj_map_eq_map inj_def)

lemma core_eq:
  "core H m = core H n \<longleftrightarrow> same_core m n"
  unfolding core_def same_core_def
  by (subst json_compact.enc_inject) (simp_all add: json_ok_source source_value_inject)

lemma members_text_eq: "members_text H ms = members_text H ns \<longleftrightarrow> ms = ns"
  unfolding members_text_def by (subst json_compact.enc_inject) (simp_all add: inj_map_eq_map inj_def)

lemma snapshot_text_eq:
  "wf_snapshot H s \<Longrightarrow> wf_snapshot H t \<Longrightarrow> snapshot_text H s = snapshot_text H t \<longleftrightarrow> s = t"
  unfolding snapshot_text_def
  by (subst json_compact.enc_inject) (simp_all add: json_ok_snapshot, cases s, cases t, simp add: snapshot_value_def)

lemma witness_conflict_flat:
  assumes "\<And>x y. previous = Some x \<Longrightarrow> new = Some y \<Longrightarrow> stringify x = stringify y \<longleftrightarrow> x = y"
  shows "lift_join flat_join previous new = (if witness_conflict stringify previous new then None
    else Some (case previous of None \<Rightarrow> new | Some x \<Rightarrow> Some x))"
  using assms by (cases previous; cases new) (simp_all add: witness_conflict_def flat_join_def)

lemma merge_node_join:
  assumes "wf_node H m" "wf_node H n"
  shows "merge_node H p m n = Inr k \<longleftrightarrow> node_join m n = Some k"
proof -
  have members: "lift_join flat_join (node_members m) (node_members n) =
      (if witness_conflict (members_text H) (node_members m) (node_members n) then None
       else Some (case node_members m of None \<Rightarrow> node_members n | Some x \<Rightarrow> Some x))"
    by (rule witness_conflict_flat) (rule members_text_eq)
  have snapshot: "lift_join flat_join (node_snapshot m) (node_snapshot n) =
      (if witness_conflict (snapshot_text H) (node_snapshot m) (node_snapshot n) then None
       else Some (case node_snapshot m of None \<Rightarrow> node_snapshot n | Some x \<Rightarrow> Some x))"
    by (rule witness_conflict_flat) (use assms snapshot_text_eq in \<open>auto simp: wf_node_def\<close>)
  show ?thesis
    unfolding merge_node_def core_eq same_core_def node_join_Some members snapshot
    by (cases m; cases n; cases k) auto
qed


section \<open>Unions of dictionaries\<close>

lemma flat_cases: "lift_join flat_join x y = Some z \<Longrightarrow> z = x \<or> z = y"
  by (cases x; cases y) (auto simp: flat_join_def split: if_splits)

lemma node_join_wf: "wf_node H m \<Longrightarrow> wf_node H n \<Longrightarrow> node_join m n = Some k \<Longrightarrow> wf_node H k"
  unfolding node_join_Some wf_node_def by (metis flat_cases)

definition all_wf :: "host \<Rightarrow> archive_node object \<Rightarrow> bool" where
  "all_wf H nodes \<longleftrightarrow> (\<forall>p n. get nodes p = Some n \<longrightarrow> wf_node H n)"

lemma all_wf_put: "all_wf H nodes \<Longrightarrow> wf_node H n \<Longrightarrow> all_wf H (put nodes p n)"
  by (auto simp: all_wf_def)

lemma all_wf_Cons:
  assumes "p \<notin> set (keys nodes)"
  shows "all_wf H ((p, n) # nodes) \<longleftrightarrow> wf_node H n \<and> all_wf H nodes"
  unfolding all_wf_def get_Cons using assms get_key by (metis option.inject)

text \<open>\<open>nc\<close> is the union of \<open>na\<close> and \<open>nb\<close>: the keys of \<open>na\<close> come first, and every
  entry is the join of the two entries.\<close>

definition union_of :: "archive_node object \<Rightarrow> archive_node object \<Rightarrow> archive_node object \<Rightarrow> bool" where
  "union_of na nb nc \<longleftrightarrow>
     keys nc = keys na @ filter (\<lambda>p. p \<notin> set (keys na)) (keys nb) \<and>
     (\<forall>p. lift_join node_join (get na p) (get nb p) = Some (get nc p))"

lemma merge_entry_ok:
  assumes "all_wf H na" "wf_node H n"
  shows "merge_entry H na (p, n) = Inr nc \<longleftrightarrow>
    (\<exists>k. lift_join node_join (get na p) (Some n) = Some (Some k) \<and> wf_node H k \<and> nc = put na p k)"
proof (cases "get na p")
  case None
  with assms show ?thesis by (auto simp: merge_entry_def)
next
  case (Some m)
  with assms(1) have wf: "wf_node H m" by (simp add: all_wf_def)
  have "merge_entry H na (p, n) = Inr nc \<longleftrightarrow> (\<exists>k. node_join m n = Some k \<and> nc = put na p k)"
    by (auto simp: merge_entry_def Some merge_node_join [OF wf assms(2)])
  then show ?thesis
    using node_join_wf [OF wf assms(2)] by (auto simp: Some)
qed

lemma union_step:
  assumes "p \<notin> set (keys nb)" "lift_join node_join (get na p) (Some n) = Some (Some k)"
  shows "union_of (put na p k) nb nc \<longleftrightarrow> union_of na ((p, n) # nb) nc"
proof -
  have "get nb p = None" using assms(1) by (simp add: get_None_iff)
  then have "(\<forall>q. lift_join node_join (get (put na p k) q) (get nb q) = Some (get nc q)) \<longleftrightarrow>
      (\<forall>q. lift_join node_join (get na q) (get ((p, n) # nb) q) = Some (get nc q))"
    using assms(2) by (metis get_Cons get_put lift_join_None)
  moreover have "filter (\<lambda>q. q \<notin> set (keys (put na p k))) (keys nb) = filter (\<lambda>q. q \<notin> set (keys na)) (keys nb)"
    by (rule filter_cong [OF refl], simp only: set_keys_put insert_iff) (use assms(1) in blast)
  then have "keys (put na p k) @ filter (\<lambda>q. q \<notin> set (keys (put na p k))) (keys nb) =
      keys na @ filter (\<lambda>q. q \<notin> set (keys na)) (keys ((p, n) # nb))"
    by (simp add: keys_put)
  ultimately show ?thesis
    unfolding union_of_def by (simp only:)
qed

lemma merge_entries_ok:
  assumes "distinct (keys nb)" "all_wf H na" "all_wf H nb" "foldE (merge_entry H) na nb = Inr nc"
  shows "union_of na nb nc"
  using assms
proof (induction nb arbitrary: na)
  case Nil
  then show ?case by (simp add: union_of_def)
next
  case (Cons e nb)
  obtain p n where e: "e = (p, n)" by (cases e)
  have p: "p \<notin> set (keys nb)" "distinct (keys nb)" using Cons.prems(1) by (simp_all add: e)
  have wf: "wf_node H n" and "all_wf H nb" using Cons.prems(3) p(1) by (simp_all add: e all_wf_Cons)
  moreover from Cons.prems(4) obtain k where k: "lift_join node_join (get na p) (Some n) = Some (Some k)"
      "wf_node H k" "foldE (merge_entry H) (put na p k) nb = Inr nc"
    by (auto simp: e merge_entry_ok [OF Cons.prems(2) wf])
  ultimately have "union_of (put na p k) nb nc"
    using Cons.IH [OF p(2) all_wf_put [OF Cons.prems(2) k(2)] _ k(3)] by blast
  then show ?case by (simp add: e union_step [OF p(1) k(1)])
qed

lemma merge_entries_succeed:
  assumes "distinct (keys nb)" "all_wf H na" "all_wf H nb"
    and "\<And>p. lift_join node_join (get na p) (get nb p) \<noteq> None"
  shows "\<exists>nc. foldE (merge_entry H) na nb = Inr nc"
  using assms
proof (induction nb arbitrary: na)
  case (Cons e nb)
  obtain p n where e: "e = (p, n)" by (cases e)
  have p: "p \<notin> set (keys nb)" "distinct (keys nb)" "get nb p = None"
    using Cons.prems(1) by (simp_all add: e get_None_iff)
  have wf: "wf_node H n" and nb: "all_wf H nb" using Cons.prems(3) p(1) by (simp_all add: e all_wf_Cons)
  obtain r where r: "lift_join node_join (get na p) (Some n) = Some r"
    using Cons.prems(4) [of p] by (auto simp: e)
  then obtain k where k: "lift_join node_join (get na p) (Some n) = Some (Some k)"
    by (cases "get na p") auto
  have "wf_node H k"
    using k node_join_wf [OF _ wf] Cons.prems(2) wf by (cases "get na p") (auto simp: all_wf_def)
  with k have step: "merge_entry H na e = Inr (put na p k)"
    by (auto simp: e merge_entry_ok [OF Cons.prems(2) wf])
  have "lift_join node_join (get (put na p k) q) (get nb q) \<noteq> None" for q
    using Cons.prems(4) [of q] p(3) by (auto simp: e split: if_splits)
  from Cons.IH [OF p(2) all_wf_put [OF Cons.prems(2) \<open>wf_node H k\<close>] nb this] show ?case
    by (simp add: step)
qed simp

lemma wf_archive_all_wf: "wf_archive H a \<Longrightarrow> all_wf H (arch_nodes a)"
  using wf_nodes_get [OF wf_archive_nodes] by (simp add: all_wf_def)


section \<open>Decoding a union\<close>

text \<open>A result whose fields are already normalized is returned unchanged, if at all.\<close>

definition normal_fields :: "host \<Rightarrow> hash_archive \<Rightarrow> bool" where
  "normal_fields H a \<longleftrightarrow> key_text H (arch_programId a) \<and> distinct (keys (arch_nodes a)) \<and>
     (\<forall>(p, n) \<in> set (arch_nodes a). key_text H p \<and> wf_node H n)"

lemma wf_archive_normal: "wf_archive H a \<Longrightarrow> normal_fields H a"
  by (auto simp: wf_archive_def normal_fields_def wf_entry_def list_all_iff)

lemma normal_fields_all_wf: "normal_fields H a \<Longrightarrow> all_wf H (arch_nodes a)"
  by (auto simp: normal_fields_def all_wf_def dest: get_mem)

lemma add_nodes_id:
  assumes "host_ok H" "key_text H programId"
    and "\<forall>(p, n) \<in> set entries. key_text H p \<and> wf_node H n"
    and "foldE (add_node H programId) nodes (map (\<lambda>(k, n). (k, node_value n)) entries) = Inr nodes'"
  shows "nodes' = nodes @ entries"
  using assms(3,4)
proof (induction entries arbitrary: nodes)
  case (Cons e entries)
  obtain p n where e: "e = (p, n)" by (cases e)
  then have wf: "key_text H p" "wf_node H n" using Cons.prems(1) by auto
  from Cons.prems(2) have "foldE (add_node H programId) (nodes @ [(p, n)])
      (map (\<lambda>(k, n). (k, node_value n)) entries) = Inr nodes'"
    using wf by (auto simp: e add_node_ok [OF assms(1,2)] archivePublicKey_id parse_node_value assms(1))
  from Cons.IH [OF _ this] Cons.prems(1) show ?case by (simp add: e)
qed simp

lemma parse_normal_fields:
  assumes "host_ok H" "normal_fields H r"
  shows "parseArchive H (archive_value r) = Inr c \<longleftrightarrow> c = r \<and> wf_archive H r"
proof
  assume "parseArchive H (archive_value r) = Inr c"
  moreover from this have "wf_archive H c" by (rule parseArchive_wf [OF assms(1)])
  moreover have "c = r"
  proof -
    have "parse_value_archive H (archive_value r) = Inr c"
      using calculation(1) by (simp add: parseArchive_def archive_value_def)
    then obtain inputNodes programId nodes where
      r: "archivePublicKey H (JString (arch_programId r)) ''programId'' = Inr programId"
        "foldE (add_node H programId) [] (map (\<lambda>(k, n). (k, node_value n)) (arch_nodes r)) = Inr nodes"
        "c = \<lparr>arch_programId = programId, arch_nodes = nodes\<rparr>"
      by (auto simp: parse_value_archive_def archive_value_def plain_object_def Let_def split: if_splits)
    have key: "key_text H (arch_programId r)" using assms(2) by (simp add: normal_fields_def)
    then have "programId = arch_programId r" using r(1) by (simp add: archivePublicKey_id assms(1))
    with add_nodes_id [OF assms(1) key] assms(2) r(2) have "nodes = arch_nodes r"
      by (auto simp: normal_fields_def)
    with r(3) \<open>programId = arch_programId r\<close> show ?thesis by simp
  qed
  ultimately show "c = r \<and> wf_archive H r" by simp
qed (simp add: parseArchive_value assms(1))

lemma union_of_normal:
  assumes "normal_fields H a" "normal_fields H b" "union_of (arch_nodes a) (arch_nodes b) (arch_nodes c)"
    and "arch_programId c = arch_programId a"
  shows "normal_fields H c"
proof -
  note u = assms(3) [unfolded union_of_def]
  have "key_text H p \<and> wf_node H n" if "get (arch_nodes c) p = Some n" for p n
  proof -
    have j: "lift_join node_join (get (arch_nodes a) p) (get (arch_nodes b) p) = Some (Some n)"
      using u that by metis
    have part: "key_text H p \<and> wf_node H m" if "get (arch_nodes x) p = Some m" "normal_fields H x" for x m
      using that by (auto simp: normal_fields_def dest: get_mem)
    show ?thesis
    proof (cases "get (arch_nodes a) p")
      case None
      with j part [OF _ assms(2)] show ?thesis by simp
    next
      case (Some m)
      note m = this part [OF this assms(1)]
      show ?thesis
      proof (cases "get (arch_nodes b) p")
        case None
        with j m show ?thesis by simp
      next
        case (Some k)
        from j m(1) Some have "node_join m k = Some n" by simp
        with m(2) part [OF Some assms(2)] node_join_wf show ?thesis by blast
      qed
    qed
  qed
  moreover have "distinct (keys (arch_nodes c))"
    using u assms(1,2) by (auto simp: normal_fields_def)
  ultimately show ?thesis
    using assms(1,4) by (auto simp: normal_fields_def get_iff_mem)
qed

lemma object_eqI:
  assumes "distinct (keys x)" "keys x = keys y" "\<And>p. get x p = get y p"
  shows "x = y"
proof (rule nth_equalityI)
  show len: "length x = length y" using arg_cong [OF assms(2), of length] by simp
  fix i assume i: "i < length x"
  have k: "fst (x ! i) = fst (y ! i)" using assms(2) i len by (metis nth_map)
  have "get x (fst (x ! i)) = Some (snd (x ! i))" "get y (fst (y ! i)) = Some (snd (y ! i))"
    using i len assms(1,2) by (simp_all add: get_iff_mem)
  with k assms(3) show "x ! i = y ! i" by (metis option.inject prod.expand)
qed

lemma union_of_unique:
  "distinct (keys na) \<Longrightarrow> distinct (keys nb) \<Longrightarrow> union_of na nb nc \<Longrightarrow> union_of na nb nd \<Longrightarrow> nc = nd"
proof (rule object_eqI)
  assume d: "distinct (keys na)" "distinct (keys nb)" and c: "union_of na nb nc" and d': "union_of na nb nd"
  note c = c [unfolded union_of_def] and d' = d' [unfolded union_of_def]
  show "keys nc = keys nd" using c d' by simp
  show "distinct (keys nc)" using d c by auto
  show "get nc p = get nd p" for p using c d' by (metis option.inject)
qed

lemma merge_entries_iff:
  assumes "normal_fields H a" "normal_fields H b"
  shows "foldE (merge_entry H) (arch_nodes a) (arch_nodes b) = Inr nc \<longleftrightarrow>
    union_of (arch_nodes a) (arch_nodes b) nc"
proof -
  note wf = normal_fields_all_wf [OF assms(1)] normal_fields_all_wf [OF assms(2)]
  have d: "distinct (keys (arch_nodes a))" "distinct (keys (arch_nodes b))"
    using assms by (simp_all add: normal_fields_def)
  show ?thesis
  proof
    assume u: "union_of (arch_nodes a) (arch_nodes b) nc"
    then have "lift_join node_join (get (arch_nodes a) p) (get (arch_nodes b) p) \<noteq> None" for p
      by (simp add: union_of_def)
    from merge_entries_succeed [OF d(2) wf this] obtain nd where
      nd: "foldE (merge_entry H) (arch_nodes a) (arch_nodes b) = Inr nd" by blast
    from union_of_unique [OF d u merge_entries_ok [OF d(2) wf nd]] nd
    show "foldE (merge_entry H) (arch_nodes a) (arch_nodes b) = Inr nc" by simp
  qed (rule merge_entries_ok [OF d(2) wf])
qed

text \<open>Merging two inputs: exactly the well-formed union of what they decode to.\<close>

lemma merge_two:
  assumes "host_ok H"
  shows "mergeArchives H x [y] = Inr c \<longleftrightarrow>
    (\<exists>a b. parseArchive H x = Inr a \<and> parseArchive H y = Inr b \<and>
       arch_programId a = arch_programId b \<and> arch_programId c = arch_programId a \<and>
       union_of (arch_nodes a) (arch_nodes b) (arch_nodes c) \<and> wf_archive H c)"
proof (cases "parseArchive H x")
  case (Inr a)
  note a = wf_archive_normal [OF parseArchive_wf [OF assms Inr]]
  show ?thesis
  proof (cases "parseArchive H y")
    case y: (Inr b)
    note b = wf_archive_normal [OF parseArchive_wf [OF assms y]]
    have parse: "parseArchive H (archive_value (a\<lparr>arch_nodes := nc\<rparr>)) = Inr c \<longleftrightarrow>
        c = a\<lparr>arch_nodes := nc\<rparr> \<and> wf_archive H c"
      if "union_of (arch_nodes a) (arch_nodes b) nc" for nc
      using parse_normal_fields [OF assms union_of_normal [OF a b, of "a\<lparr>arch_nodes := nc\<rparr>"]] that by auto
    have "c = a\<lparr>arch_nodes := nc\<rparr> \<longleftrightarrow> arch_programId c = arch_programId a \<and> arch_nodes c = nc" for nc
      by (cases a; cases c) auto
    with parse show ?thesis
      by (auto simp: mergeArchives_def merge_archive_def Inr y merge_entries_iff [OF a b])
  qed (simp add: mergeArchives_def merge_archive_def Inr)
qed (simp add: mergeArchives_def)


text \<open>The error of a failed merge names a record both inputs have and what differs. Two optional
  fields differ only if both are there.\<close>

definition differ :: "'w option \<Rightarrow> 'w option \<Rightarrow> bool" where
  "differ x y \<longleftrightarrow> (\<exists>u v. x = Some u \<and> y = Some v \<and> u \<noteq> v)"

definition merge_conflict :: "string \<Rightarrow> archive_node \<Rightarrow> archive_node \<Rightarrow> error \<Rightarrow> bool" where
  "merge_conflict p m n e \<longleftrightarrow>
    e = Error (''Conflicting historical incarnation: '' @ p) \<and> \<not> same_core m n \<or>
    e = Error (''Conflicting members: '' @ p) \<and> same_core m n \<and> differ (node_members m) (node_members n) \<or>
    e = Error (''Conflicting snapshot: '' @ p) \<and> same_core m n \<and> \<not> differ (node_members m) (node_members n) \<and>
      differ (node_snapshot m) (node_snapshot n)"

lemma witness_conflict_differ:
  assumes "\<And>x y. previous = Some x \<Longrightarrow> new = Some y \<Longrightarrow> stringify x = stringify y \<longleftrightarrow> x = y"
  shows "witness_conflict stringify previous new \<longleftrightarrow> differ previous new"
  using assms by (cases previous; cases new) (simp_all add: witness_conflict_def differ_def)

lemma merge_node_error:
  assumes "wf_node H m" "wf_node H n" "merge_node H p m n = Inl e"
  shows "merge_conflict p m n e"
proof -
  have "witness_conflict (members_text H) (node_members m) (node_members n) \<longleftrightarrow> differ (node_members m) (node_members n)"
    by (rule witness_conflict_differ) (rule members_text_eq)
  moreover have "witness_conflict (snapshot_text H) (node_snapshot m) (node_snapshot n) \<longleftrightarrow>
      differ (node_snapshot m) (node_snapshot n)"
    by (rule witness_conflict_differ) (use assms snapshot_text_eq in \<open>auto simp: wf_node_def\<close>)
  ultimately show ?thesis
    using assms(3) by (auto simp: merge_node_def core_eq merge_conflict_def split: if_splits)
qed

lemma merge_entries_error:
  assumes "all_wf H na" "all_wf H entries" "distinct (keys entries)"
    and "foldE (merge_entry H) na entries = Inl e"
  shows "\<exists>before p n after m. entries = before @ (p, n) # after \<and> get na p = Some m \<and> merge_conflict p m n e \<and>
    (\<forall>(q, k) \<in> set before. lift_join node_join (get na q) (Some k) \<noteq> None)"
  using assms
proof (induction entries arbitrary: na)
  case (Cons x entries)
  obtain p n where x: "x = (p, n)" by (cases x)
  have p: "p \<notin> set (keys entries)" "distinct (keys entries)" using Cons.prems(3) by (simp_all add: x)
  have wf: "wf_node H n" "all_wf H entries" using Cons.prems(2) p(1) by (simp_all add: x all_wf_Cons)
  show ?case
  proof (cases "merge_entry H na (p, n)")
    case (Inl e')
    then have e': "e' = e" using Cons.prems(4) by (simp add: x)
    from Inl obtain m where m: "get na p = Some m" "merge_node H p m n = Inl e"
      by (auto simp: merge_entry_def e' bindE_err split: option.splits)
    with Cons.prems(1) have "wf_node H m" by (simp add: all_wf_def)
    from merge_node_error [OF this wf(1) m(2)] m(1) show ?thesis
      by (intro exI [of _ "[] :: archive_node object"]) (auto simp: x)
  next
    case (Inr nb)
    then obtain k where k: "wf_node H k" "nb = put na p k" "lift_join node_join (get na p) (Some n) = Some (Some k)"
      by (auto simp: merge_entry_ok [OF Cons.prems(1) wf(1)])
    have "foldE (merge_entry H) nb entries = Inl e" using Cons.prems(4) Inr by (simp add: x)
    from Cons.IH [OF _ wf(2) p(2) this] obtain before q n' after m where q: "entries = before @ (q, n') # after"
      "get nb q = Some m" "merge_conflict q m n' e" "\<forall>(q, k) \<in> set before. lift_join node_join (get nb q) (Some k) \<noteq> None"
      using all_wf_put [OF Cons.prems(1) k(1)] k(2) by blast
    have other: "get nb q' = get na q'" if "(q', k') \<in> set entries" for q' k'
    proof -
      have "q' \<noteq> p" using that p(1) by force
      then show ?thesis by (simp add: k(2))
    qed
    have "get na q = Some m" using other [of q n'] q(1,2) by simp
    moreover have "lift_join node_join (get na q') (Some k') \<noteq> None" if "(q', k') \<in> set before" for q' k'
      using bspec [OF q(4) that] other [of q' k'] that by (simp add: q(1))
    with k(3) have "\<forall>(q', k') \<in> set ((p, n) # before). lift_join node_join (get na q') (Some k') \<noteq> None" by auto
    moreover have "x # entries = ((p, n) # before) @ (q, n') # after" by (simp add: x q(1))
    ultimately show ?thesis using q(3) by blast
  qed
qed simp

lemma same_gets_mset:
  assumes "distinct (keys x)" "distinct (keys y)" "\<And>p. get x p = get y p"
  shows "mset x = mset y"
proof -
  have "(p, n) \<in> set x \<longleftrightarrow> (p, n) \<in> set y" for p n
    using assms by (metis get_iff_mem)
  then have "set x = set y" by auto
  moreover have "distinct x" "distinct y" using assms(1,2) by (simp_all add: distinct_map)
  ultimately show ?thesis by (simp add: set_eq_iff_mset_eq_distinct)
qed

lemma union_of_exists:
  assumes "normal_fields H a" "normal_fields H b"
    and "\<And>p. lift_join node_join (get (arch_nodes a) p) (get (arch_nodes b) p) = Some (r p)"
  shows "\<exists>c :: hash_archive. arch_programId c = arch_programId a \<and> union_of (arch_nodes a) (arch_nodes b) (arch_nodes c) \<and>
    (\<forall>p. get (arch_nodes c) p = r p)"
proof -
  have d: "distinct (keys (arch_nodes b))" using assms(2) by (simp add: normal_fields_def)
  obtain nc where "foldE (merge_entry H) (arch_nodes a) (arch_nodes b) = Inr nc"
    using merge_entries_succeed [OF d normal_fields_all_wf [OF assms(1)] normal_fields_all_wf [OF assms(2)]]
      assms(3) by fastforce
  then have u: "union_of (arch_nodes a) (arch_nodes b) nc"
    by (simp add: merge_entries_iff [OF assms(1,2)])
  then have "get nc p = r p" for p using assms(3) [of p] by (simp add: union_of_def)
  with u show ?thesis by (intro exI [of _ "a\<lparr>arch_nodes := nc\<rparr>"]) simp
qed

lemma union_of_distinct:
  "normal_fields H a \<Longrightarrow> normal_fields H b \<Longrightarrow> union_of (arch_nodes a) (arch_nodes b) nc \<Longrightarrow> distinct (keys nc)"
  by (auto simp: union_of_def normal_fields_def)

text \<open>Reordering the operands of a union only reorders its nodes, and a well-formed union stays
  well formed.\<close>

lemma merge_rearranged:
  assumes "host_ok H" "parseArchive H x = Inr a" "parseArchive H y = Inr b"
    and "arch_programId a = arch_programId b" "wf_archive H c" "arch_programId c = arch_programId a"
    and "\<And>p. lift_join node_join (get (arch_nodes a) p) (get (arch_nodes b) p) = Some (get (arch_nodes c) p)"
  shows "\<exists>d. mergeArchives H x [y] = Inr d \<and> arch_programId d = arch_programId c \<and>
    mset (arch_nodes d) = mset (arch_nodes c)"
proof -
  note normal = wf_archive_normal [OF parseArchive_wf [OF assms(1,2)]]
    wf_archive_normal [OF parseArchive_wf [OF assms(1,3)]]
  obtain d :: hash_archive where d: "arch_programId d = arch_programId a"
      "union_of (arch_nodes a) (arch_nodes b) (arch_nodes d)" "\<And>p. get (arch_nodes d) p = get (arch_nodes c) p"
    using union_of_exists [OF normal assms(7)] by blast
  have "mset (arch_nodes d) = mset (arch_nodes c)"
    by (rule same_gets_mset) (use d union_of_distinct [OF normal d(2)] assms(5) in \<open>auto simp: wf_archive_def\<close>)
  moreover from this have "wf_archive H d"
    using wf_archive_mset [OF assms(5), of d] d(1) assms(6) by simp
  ultimately show ?thesis
    using d assms(2-4,6) merge_two [OF assms(1), of x y d] by auto
qed

end
