(* ===== verification/Parts.thy ===== *)
theory Parts
  imports Merge
begin

text \<open>
  A part of an archive: some of its nodes, each with all or some of its witnesses. Every part
  of an archive that decodes decodes itself: dropping nodes or witnesses only removes checks,
  edges and text. Unions and selections are built from parts.
\<close>

section \<open>Parts of a node\<close>

definition node_below :: "archive_node \<Rightarrow> archive_node \<Rightarrow> bool" where
  "node_below n m \<longleftrightarrow> node_join n m = Some m"

lemma node_below_refl [simp]: "node_below n n"
  by (simp add: node_below_def record_join.join_idem)

lemma flat_below: "lift_join flat_join x y = Some y \<longleftrightarrow> x = None \<or> x = y"
  by (cases x; cases y) (auto simp: flat_join_def)

lemma node_below_iff:
  "node_below n m \<longleftrightarrow> same_core n m \<and> (node_members n = None \<or> node_members n = node_members m) \<and>
     (node_snapshot n = None \<or> node_snapshot n = node_snapshot m)"
  by (auto simp: node_below_def node_join_Some same_core_def flat_below)

lemma node_below_wf: "node_below n m \<Longrightarrow> wf_node H m \<Longrightarrow> wf_node H n"
  unfolding node_below_iff same_core_def wf_node_def by (metis option.distinct(1))

lemma same_core_derived:
  assumes "same_core n m"
  shows "node_id H n = node_id H m" "node_time n = node_time m" "node_generation n = node_generation m"
  using assms by (simp_all add: same_core_def node_id_def node_time_def node_generation_def)

section \<open>Parts of an archive\<close>

definition part_of :: "hash_archive \<Rightarrow> hash_archive \<Rightarrow> bool" where
  "part_of b a \<longleftrightarrow> arch_programId b = arch_programId a \<and> distinct (keys (arch_nodes b)) \<and>
     (\<forall>p n. get (arch_nodes b) p = Some n \<longrightarrow> (\<exists>m. get (arch_nodes a) p = Some m \<and> node_below n m))"

lemma part_of_get:
  assumes "part_of b a" "get (arch_nodes b) p = Some n"
  obtains m where "get (arch_nodes a) p = Some m" "node_below n m"
  using assms by (auto simp: part_of_def)

lemma part_node_pda: "part_of b a \<Longrightarrow> node_pda H b = node_pda H a"
  by (simp add: fun_eq_iff node_pda_def part_of_def)

lemma part_dependencies:
  assumes "part_of b a" "node_below n m" "nodeDependencies H a m = Inr ds"
  shows "nodeDependencies H b n = Inr ds \<or> nodeDependencies H b n = Inr None"
  using assms(2,3) by (auto simp: nodeDependencies_def part_node_pda [OF assms(1)] node_below_iff same_core_def
      split: archive_source.splits)

lemma part_known_dependencies:
  assumes "part_of b a" "node_below n m" "nodeDependencies H b n = Inr (Some ds)"
  shows "nodeDependencies H a m = Inr (Some ds)"
  using assms(2,3) by (auto simp: nodeDependencies_def part_node_pda [OF assms(1)] node_below_iff same_core_def
      split: archive_source.splits)

lemma part_edges: "part_of b a \<Longrightarrow> dependency_edges H b \<subseteq> dependency_edges H a"
  using part_known_dependencies by (fastforce simp: edges_def elim: part_of_get)

lemma part_present:
  assumes "part_of b a" "node_below n m" "present_deps H b n = Some ns"
  shows "\<exists>ms. present_deps H a m = Some ms \<and> list_all2 node_below ns ms"
proof -
  obtain ds where ds: "nodeDependencies H b n = Inr (Some ds)"
    "\<And>d. d \<in> set ds \<Longrightarrow> get (arch_nodes b) d \<noteq> None" "ns = map (\<lambda>d. the (get (arch_nodes b) d)) ds"
    using assms(3) by (auto simp: present_deps_def split: sum.splits option.splits if_splits)
  have below: "get (arch_nodes a) d \<noteq> None \<and> node_below (the (get (arch_nodes b) d)) (the (get (arch_nodes a) d))"
    if "d \<in> set ds" for d
  proof -
    from ds(2) [OF that] obtain y where y: "get (arch_nodes b) d = Some y" by auto
    then obtain z where "get (arch_nodes a) d = Some z" "node_below y z" by (rule part_of_get [OF assms(1)])
    with y show ?thesis by simp
  qed
  then have "present_deps H a m = Some (map (\<lambda>d. the (get (arch_nodes a) d)) ds)"
    by (simp add: present_deps_def part_known_dependencies [OF assms(1,2) ds(1)])
  with below show ?thesis
    by (auto simp: ds(3) list.rel_map list.rel_refl_strong)
qed

text \<open>Digests read only the core of a node.\<close>

lemma branch_digest_core: "same_core n m \<Longrightarrow> branch_digest H n payload = branch_digest H m payload"
  using same_core_derived [of n m] by (simp add: branch_digest_def same_core_def)

lemma aggregate_digest_core:
  assumes "list_all2 same_core ns ms"
  shows "aggregate_digest H ns = aggregate_digest H ms"
proof -
  let ?frame = "\<lambda>m. member_frame (bytes_of_hex (node_hash m), archive_kind (node_source m), node_time m)"
  have "map ?frame ns = map ?frame ms"
    using assms by (induction rule: list_all2_induct) (simp_all add: same_core_def node_time_def)
  then show ?thesis by (simp add: aggregate_digest_def)
qed

lemma part_commitment:
  assumes "part_of b a" "node_below n m" "commitment H b n = Some e" "wf_node H m"
  shows "commitment H a m = Some e"
proof -
  note core = assms(2) [unfolded node_below_iff same_core_def]
  show ?thesis
  proof (cases "archive_kind (node_source m) \<in> {KBranch, KBatch, KPack}")
    case kind: True
    have "present_deps H b n \<noteq> None"
      using assms(3) core kind by (auto simp: commitment_def split: archive_source.splits)
    then obtain ns where ns: "present_deps H b n = Some ns" by blast
    then obtain ms where ms: "present_deps H a m = Some ms" "list_all2 node_below ns ms"
      using part_present [OF assms(1,2)] by blast
    have cores: "list_all2 same_core ns ms"
      using ms(2) by (rule list_all2_mono) (simp add: node_below_iff)
    have "ms \<noteq> []" by (rule present_deps_nonempty [OF assms(4) ms(1) kind])
    then have "same_core (hd ns) (hd ms)" using cores by (cases ms; cases ns) simp_all
    then show ?thesis
      using assms(3) core branch_digest_core aggregate_digest_core [OF cores]
      by (auto simp: commitment_def ns ms split: archive_source.splits)
  next
    case False
    with assms(3) core show ?thesis by (auto simp: commitment_def split: archive_source.splits)
  qed
qed

lemma part_generation:
  assumes "part_of b a" "node_below n m" "generation_ok H a m" "wf_node H m"
  shows "generation_ok H b n"
proof -
  note core = assms(2) [unfolded node_below_iff]
  have "node_generation n = node_generation (hd ns) + 1"
    if kind: "archive_kind (node_source n) = KBranch" and ns: "present_deps H b n = Some ns" for ns
  proof -
    have kind': "archive_kind (node_source m) = KBranch" using core kind by (simp add: same_core_def)
    obtain ms where ms: "present_deps H a m = Some ms" "list_all2 node_below ns ms"
      using part_present [OF assms(1,2) ns] by blast
    have "ms \<noteq> []" using present_deps_nonempty [OF assms(4) ms(1)] kind' by simp
    then have "same_core (hd ns) (hd ms)" using ms(2) by (cases ms; cases ns) (simp_all add: node_below_iff)
    then show ?thesis
      using assms(3) kind' ms(1) same_core_derived(3) [of n m] same_core_derived(3) [of "hd ns" "hd ms"] core
      by (simp add: generation_ok_def)
  qed
  then show ?thesis by (simp add: generation_ok_def split: option.split)
qed

lemma wf_nodes_part:
  assumes "part_of b a" "wf_nodes H a"
  shows "wf_nodes H b"
  unfolding wf_nodes_def
proof (clarify)
  fix p n assume "(p, n) \<in> set (arch_nodes b)"
  then have "get (arch_nodes b) p = Some n" using assms(1) by (simp add: part_of_def get_iff_mem)
  then obtain m where "get (arch_nodes a) p = Some m" "node_below n m" by (rule part_of_get [OF assms(1)])
  with assms(2) show "wf_node H n" using node_below_wf wf_nodes_get by blast
qed

lemma inspect_part:
  assumes "host_ok H" "wf_nodes H a" "part_of b a" "inspectArchiveGraph H a = Inr i" "distinct (keys (arch_nodes a))"
  shows "\<exists>j. inspectArchiveGraph H b = Inr j"
proof -
  have a: "acyclic (dependency_edges H a)" "\<And>p n. (p, n) \<in> set (arch_nodes a) \<Longrightarrow> commits H a p n"
    using assms(4) unfolding inspectArchiveGraph_ok order_all_iff by auto
  have wf: "wf_nodes H b" by (rule wf_nodes_part [OF assms(3,2)])
  have commits: "commits H b p n" if n: "get (arch_nodes b) p = Some n" for p n
  proof -
    obtain m where m: "get (arch_nodes a) p = Some m" "node_below n m" by (rule part_of_get [OF assms(3) n])
    have wfm: "wf_node H m" "wf_node H n" using wf_nodes_get assms(2) wf m(1) n by blast+
    from a(2) [OF get_mem [OF m(1)]] have ok: "\<exists>ds. nodeDependencies H a m = Inr ds" "generation_ok H a m"
      "\<forall>e. commitment H a m = Some e \<longrightarrow> node_hash m = hex_of_bytes e"
      by (simp_all add: commits_wf [OF assms(1,2) wfm(1)])
    have "node_hash n = node_hash m" using m(2) by (simp add: node_below_iff same_core_def)
    then show ?thesis
      using ok part_dependencies [OF assms(3) m(2)] part_generation [OF assms(3) m(2) _ wfm(1)]
        part_commitment [OF assms(3) m(2) _ wfm(1)]
      unfolding commits_wf [OF assms(1) wf wfm(2)] by metis
  qed
  have "acyclic (dependency_edges H b)"
    by (rule acyclic_subset [OF a(1) part_edges [OF assms(3)]])
  moreover have "\<exists>ds. nodeDependencies H b n = Inr ds" if "get (arch_nodes b) p = Some n" for p n
    using commits [OF that] by (auto simp: commits_def)
  moreover have "\<forall>(p, n) \<in> set (arch_nodes b). commits H b p n"
    using commits assms(3) by (auto simp: part_of_def get_iff_mem)
  ultimately show ?thesis unfolding inspectArchiveGraph_ok order_all_iff by blast
qed

section \<open>The size of a part\<close>

lemma sum_list_keys:
  assumes "distinct (keys xs)"
  shows "sum_list (map (\<lambda>(k, v). f k v) xs) = (\<Sum>k \<in> set (keys xs). f k (the (get xs k)))"
proof -
  have "map (\<lambda>(k, v). f k v) xs = map (\<lambda>k. f k (the (get xs k))) (keys xs)"
    using assms by (auto simp: get_iff_mem [THEN iffD2])
  then show ?thesis using assms by (simp only: sum_list_distinct_conv_sum_set)
qed

lemma node_size_below:
  assumes "node_below n m"
  shows "utf8_length (json_text H (node_value n)) \<le> utf8_length (json_text H (node_value m))"
  using assms by (cases n; cases m)
    (auto simp: node_below_iff same_core_def node_value_def utf8_length_Cons split: option.split)

lemma part_entries:
  assumes "part_of b a"
  shows "set (keys (arch_nodes b)) \<subseteq> set (keys (arch_nodes a))"
    and "length (arch_nodes b) \<le> length (arch_nodes a)"
proof -
  show sub: "set (keys (arch_nodes b)) \<subseteq> set (keys (arch_nodes a))"
  proof
    fix p assume "p \<in> set (keys (arch_nodes b))"
    then obtain n where "get (arch_nodes b) p = Some n" using get_None_iff by fastforce
    then obtain m where "get (arch_nodes a) p = Some m" by (rule part_of_get [OF assms])
    then show "p \<in> set (keys (arch_nodes a))" by (rule get_key)
  qed
  have "length (arch_nodes b) = card (set (keys (arch_nodes b)))"
    using assms distinct_card [of "keys (arch_nodes b)"] by (simp add: part_of_def)
  also have "\<dots> \<le> card (set (keys (arch_nodes a)))" by (rule card_mono [OF _ sub]) simp
  also have "\<dots> \<le> length (arch_nodes a)" using card_length [of "keys (arch_nodes a)"] by simp
  finally show "length (arch_nodes b) \<le> length (arch_nodes a)" .
qed

lemma archive_size_part:
  assumes "part_of b a" "distinct (keys (arch_nodes a))"
  shows "archive_size H b \<le> archive_size H a"
proof -
  let ?f = "\<lambda>k n. utf8_length (quote k @ '':'' @ json_text H (node_value n))"
  let ?A = "set (keys (arch_nodes a))" and ?B = "set (keys (arch_nodes b))"
  have d: "distinct (keys (arch_nodes b))" using assms(1) by (simp add: part_of_def)
  have "(\<Sum>k \<in> ?B. ?f k (the (get (arch_nodes b) k))) \<le> (\<Sum>k \<in> ?B. ?f k (the (get (arch_nodes a) k)))"
  proof (rule sum_mono)
    fix k assume "k \<in> ?B"
    then obtain n where n: "get (arch_nodes b) k = Some n" using get_None_iff by fastforce
    then obtain m where "get (arch_nodes a) k = Some m" "node_below n m" by (rule part_of_get [OF assms(1)])
    with n show "?f k (the (get (arch_nodes b) k)) \<le> ?f k (the (get (arch_nodes a) k))"
      by (simp add: node_size_below utf8_length_Cons)
  qed
  also have "\<dots> \<le> (\<Sum>k \<in> ?A. ?f k (the (get (arch_nodes a) k)))"
    by (rule sum_mono2) (use part_entries(1) [OF assms(1)] in auto)
  finally have "sum_list (map (\<lambda>(k, n). ?f k n) (arch_nodes b)) \<le> sum_list (map (\<lambda>(k, n). ?f k n) (arch_nodes a))"
    by (simp only: sum_list_keys [OF d, of ?f] sum_list_keys [OF assms(2), of ?f])
  moreover have "arch_programId b = arch_programId a" using assms(1) by (simp add: part_of_def)
  moreover have "utf8_length '','' * (length (arch_nodes b) - 1) \<le> utf8_length '','' * (length (arch_nodes a) - 1)"
    using part_entries(2) [OF assms(1)] by (intro mult_le_mono2 diff_le_mono)
  ultimately show ?thesis unfolding archive_size_sum by (simp only: add_le_mono)
qed

text \<open>The main fact: well-formedness is inherited by parts.\<close>

lemma wf_archive_part:
  assumes "host_ok H" "wf_archive H a" "part_of b a"
  shows "wf_archive H b"
proof -
  note wf = assms(2) [unfolded wf_archive_def]
  have program: "arch_programId b = arch_programId a" and d: "distinct (keys (arch_nodes b))"
    using assms(3) by (simp_all add: part_of_def)
  have entry: "wf_entry H (arch_programId b) (p, n)" if pn: "(p, n) \<in> set (arch_nodes b)" for p n
  proof -
    have "get (arch_nodes b) p = Some n" using pn d by (simp add: get_iff_mem)
    then obtain m where m: "get (arch_nodes a) p = Some m" "node_below n m" by (rule part_of_get [OF assms(3)])
    then have e: "wf_entry H (arch_programId a) (p, m)" using wf get_mem by (fastforce simp: list_all_iff)
    have "node_id H n = node_id H m" using m(2) same_core_derived(1) by (simp add: node_below_iff)
    with e m(2) show ?thesis by (simp add: wf_entry_def program node_below_wf [OF m(2)])
  qed
  have "\<exists>j. inspectArchiveGraph H b = Inr j"
    using inspect_part [OF assms(1) wf_archive_nodes [OF assms(2)] assms(3)] wf by blast
  with entry d wf part_entries(2) [OF assms(3)] archive_size_part [OF assms(3), of H] show ?thesis
    by (auto simp: wf_archive_def program list_all_iff)
qed

end
