(* ===== verification/Unions.thy ===== *)
theory Unions
  imports Parts
begin

text \<open>
  What \<open>mergeArchives\<close> promises: the union of archives exists exactly when their records
  agree and its text and graph are acceptable, is unique, contains its inputs, is idempotent,
  commutative and associative up to the order of the nodes, and a failure names its cause.
\<close>

lemma merge_two_wf: "host_ok H \<Longrightarrow> mergeArchives H x [y] = Inr c \<Longrightarrow> wf_archive H c"
  by (auto simp: merge_two)

lemma merge_parsed:
  assumes "host_ok H" "parseArchive H x = Inr a" "parseArchive H y = Inr b"
  shows "mergeArchives H x [y] = Inr c \<longleftrightarrow> arch_programId a = arch_programId b \<and>
    arch_programId c = arch_programId a \<and> union_of (arch_nodes a) (arch_nodes b) (arch_nodes c) \<and> wf_archive H c"
  using assms(2,3) by (auto simp: merge_two [OF assms(1)])

lemma entry_below:
  "lift_join node_join (get x p) (get y p) = Some (get y p) \<Longrightarrow> get x p = Some n \<Longrightarrow>
     \<exists>m. get y p = Some m \<and> node_below n m"
  by (cases "get y p") (auto simp: node_below_def)

lemma below_entry:
  "(\<And>n. get x p = Some n \<Longrightarrow> \<exists>m. get y p = Some m \<and> node_below n m) \<Longrightarrow>
     lift_join node_join (get x p) (get y p) = Some (get y p)"
  by (cases "get x p") (auto simp: node_below_def)

lemma part_of_iff_join:
  "part_of b a \<longleftrightarrow> arch_programId b = arch_programId a \<and> distinct (keys (arch_nodes b)) \<and>
     (\<forall>p. lift_join node_join (get (arch_nodes b) p) (get (arch_nodes a) p) = Some (get (arch_nodes a) p))"
  unfolding part_of_def using entry_below below_entry by blast

lemma union_of_absorbs:
  assumes "union_of na nb nc" "set (keys nb) \<subseteq> set (keys na)" "distinct (keys na)"
    and "\<And>p. get nc p = get na p"
  shows "nc = na"
proof -
  have "filter (\<lambda>p. p \<notin> set (keys na)) (keys nb) = []"
    unfolding filter_empty_conv using assms(2) by blast
  then have "keys na = keys nc" using assms(1) by (simp add: union_of_def)
  from object_eqI [OF assms(3) this] assms(4) show ?thesis by metis
qed

lemma union_parts:
  assumes "host_ok H" "parseArchive H x = Inr a" "parseArchive H y = Inr b" "mergeArchives H x [y] = Inr c"
  shows "part_of a c" "part_of b c"
proof -
  have c: "arch_programId a = arch_programId b" "arch_programId c = arch_programId a"
    "union_of (arch_nodes a) (arch_nodes b) (arch_nodes c)"
    using assms(4) merge_parsed [OF assms(1-3)] by blast+
  have d: "distinct (keys (arch_nodes a))" "distinct (keys (arch_nodes b))"
    using parseArchive_wf [OF assms(1,2)] parseArchive_wf [OF assms(1,3)] by (simp_all add: wf_archive_def)
  have "lift_join node_join (get (arch_nodes a) p) (get (arch_nodes c) p) = Some (get (arch_nodes c) p)"
    "lift_join node_join (get (arch_nodes b) p) (get (arch_nodes c) p) = Some (get (arch_nodes c) p)" for p
    using c(3) entry_join.join_upper [of "get (arch_nodes a) p" "get (arch_nodes b) p"]
    by (simp_all add: union_of_def)
  with c d show "part_of a c" "part_of b c" by (simp_all add: part_of_iff_join)
qed

lemma merge_part:
  assumes "host_ok H" "parseArchive H x = Inr c" "parseArchive H y = Inr b" "part_of b c"
  shows "mergeArchives H x [y] = Inr c"
proof -
  have join: "lift_join node_join (get (arch_nodes c) p) (get (arch_nodes b) p) = Some (get (arch_nodes c) p)" for p
    using assms(4) entry_join.join_commute [of "get (arch_nodes c) p"] by (simp add: part_of_iff_join)
  have "filter (\<lambda>p. p \<notin> set (keys (arch_nodes c))) (keys (arch_nodes b)) = []"
    unfolding filter_empty_conv using part_entries(1) [OF assms(4)] by blast
  with join have "union_of (arch_nodes c) (arch_nodes b) (arch_nodes c)" by (simp add: union_of_def)
  with assms(4) parseArchive_wf [OF assms(1,2)] show ?thesis
    by (simp add: merge_parsed [OF assms(1-3)] part_of_def)
qed

text \<open>Two parts of one decodable archive always merge, into a part of it.\<close>

lemma merge_parts:
  assumes "host_ok H" "parseArchive H x = Inr a" "parseArchive H y = Inr b"
    and "wf_archive H d" "part_of a d" "part_of b d"
  shows "\<exists>c. mergeArchives H x [y] = Inr c \<and> part_of c d"
proof -
  note normal = wf_archive_normal [OF parseArchive_wf [OF assms(1,2)]]
    wf_archive_normal [OF parseArchive_wf [OF assms(1,3)]]
  have "\<exists>z. lift_join node_join (get (arch_nodes a) p) (get (arch_nodes b) p) = Some z \<and>
      lift_join node_join z (get (arch_nodes d) p) = Some (get (arch_nodes d) p)" for p
    by (rule entry_join.join_least) (use assms(5,6) in \<open>simp_all add: part_of_iff_join\<close>)
  then obtain r where r: "\<And>p. lift_join node_join (get (arch_nodes a) p) (get (arch_nodes b) p) = Some (r p)"
    "\<And>p. lift_join node_join (r p) (get (arch_nodes d) p) = Some (get (arch_nodes d) p)"
    by metis
  obtain c :: hash_archive where c: "arch_programId c = arch_programId a"
      "union_of (arch_nodes a) (arch_nodes b) (arch_nodes c)" "\<And>p. get (arch_nodes c) p = r p"
    using union_of_exists [OF normal r(1)] by blast
  have "distinct (keys (arch_nodes c))" by (rule union_of_distinct [OF normal c(2)])
  with c r(2) assms(5) have part: "part_of c d" by (simp add: part_of_iff_join)
  then have "wf_archive H c" by (rule wf_archive_part [OF assms(1,4)])
  with c part assms(5,6) show ?thesis
    by (auto simp: merge_parsed [OF assms(1-3)] part_of_def)
qed

section \<open>Merging many inputs\<close>

lemma part_of_refl [simp]: "distinct (keys (arch_nodes a)) \<Longrightarrow> part_of a a"
  by (simp add: part_of_def)

lemma part_of_trans: "part_of a b \<Longrightarrow> part_of b c \<Longrightarrow> part_of a c"
  using entry_join.join_trans by (simp add: part_of_iff_join) blast

lemma merge_archive_ok:
  assumes "host_ok H" "normal_fields H r"
  shows "merge_archive H r y = Inr r' \<longleftrightarrow> (\<exists>b. parseArchive H y = Inr b \<and> arch_programId b = arch_programId r \<and>
    arch_programId r' = arch_programId r \<and> union_of (arch_nodes r) (arch_nodes b) (arch_nodes r'))"
proof (cases "parseArchive H y")
  case (Inr b)
  note b = wf_archive_normal [OF parseArchive_wf [OF assms(1) Inr]]
  have eq: "r\<lparr>arch_nodes := nc\<rparr> = r' \<longleftrightarrow> arch_programId r' = arch_programId r \<and> arch_nodes r' = nc" for nc
    by (cases r; cases r') auto
  have "merge_archive H r y = Inr r' \<longleftrightarrow> arch_programId b = arch_programId r \<and>
      (\<exists>nc. union_of (arch_nodes r) (arch_nodes b) nc \<and> r\<lparr>arch_nodes := nc\<rparr> = r')"
    by (simp add: merge_archive_def Inr merge_entries_iff [OF assms(2) b])
  then show ?thesis unfolding eq Inr sum.inject by blast
qed (simp add: merge_archive_def)

lemma merge_archive_grows:
  assumes "host_ok H" "normal_fields H r" "merge_archive H r y = Inr r'"
  shows "normal_fields H r'" "part_of r r'"
proof -
  obtain b where b: "parseArchive H y = Inr b" "arch_programId r' = arch_programId r"
      "union_of (arch_nodes r) (arch_nodes b) (arch_nodes r')"
    using assms(3) by (auto simp: merge_archive_ok [OF assms(1,2)])
  note normal = wf_archive_normal [OF parseArchive_wf [OF assms(1) b(1)]]
  show "normal_fields H r'" by (rule union_of_normal [OF assms(2) normal b(3,2)])
  have "lift_join node_join (get (arch_nodes r) p) (get (arch_nodes r') p) = Some (get (arch_nodes r') p)" for p
    using b(3) entry_join.join_upper [of "get (arch_nodes r) p" "get (arch_nodes b) p"]
    by (simp add: union_of_def)
  with b(2) assms(2) show "part_of r r'" by (simp add: part_of_iff_join normal_fields_def)
qed

lemma merge_archives_grow:
  assumes "host_ok H" "normal_fields H r" "foldE (merge_archive H) r ys = Inr r'"
  shows "normal_fields H r' \<and> part_of r r'"
  using assms(2,3)
proof (induction ys arbitrary: r)
  case Nil
  then show ?case by (simp add: normal_fields_def)
next
  case (Cons y ys)
  from Cons.prems(2) obtain u where u: "merge_archive H r y = Inr u" "foldE (merge_archive H) u ys = Inr r'"
    by auto
  note grows = merge_archive_grows [OF assms(1) Cons.prems(1) u(1)]
  show ?case using Cons.IH [OF grows(1) u(2)] part_of_trans [OF grows(2)] by blast
qed

lemma merge_many:
  assumes "host_ok H"
  shows "mergeArchives H x (y # zs) = Inr r \<longleftrightarrow>
    (\<exists>u. mergeArchives H x [y] = Inr u \<and> mergeArchives H (archive_value u) zs = Inr r)"
proof (cases "parseArchive H x")
  case (Inr a)
  note a = wf_archive_normal [OF parseArchive_wf [OF assms Inr]]
  have step: "mergeArchives H x [y] = Inr u \<longleftrightarrow> merge_archive H a y = Inr u \<and> wf_archive H u" for u
    using parse_normal_fields [OF assms merge_archive_grows(1) [OF assms a]]
    by (auto simp: mergeArchives_def Inr)
  have "wf_archive H u" if "merge_archive H a y = Inr u" "foldE (merge_archive H) u zs = Inr r"
      "parseArchive H (archive_value r) = Inr r'" for u r r'
  proof -
    note u = merge_archive_grows(1) [OF assms a that(1)]
    have "wf_archive H r"
      using parse_normal_fields [OF assms] merge_archives_grow [OF assms u that(2)] that(3) by blast
    with merge_archives_grow [OF assms u that(2)] show ?thesis by (blast intro: wf_archive_part [OF assms])
  qed
  then show ?thesis
    by (auto simp: step mergeArchives_def [of H x "y # zs"] mergeArchives_def [of H "archive_value _"] Inr
        parseArchive_value [OF assms])
qed (simp add: mergeArchives_def)

section \<open>Demonstration inputs\<close>

text \<open>A part of the demonstration archive without witnesses, and an archive that contradicts it.\<close>

definition demo_bare :: hash_archive where
  "demo_bare = \<lparr>arch_programId = demo_program, arch_nodes =
     [(demo_key demo_pack_id, demo_pack\<lparr>node_members := None\<rparr>),
      (demo_key (demo_id 1 3), demo_account\<lparr>node_snapshot := None\<rparr>)]\<rparr>"

lemma demo_parts: "part_of demo_partial demo_archive" "part_of demo_bare demo_archive"
  by (simp_all add: part_of_def demo_nodes demo_bare_def node_below_iff same_core_def)

lemma demo_bare_wf: "wf_archive demo_host demo_bare"
  by (rule wf_archive_part [OF demo_host_ok demo_archives_wf(1) demo_parts(2)])

lemma demo_parsed:
  "parseArchive demo_host (archive_value demo_archive) = Inr demo_archive"
  "parseArchive demo_host (archive_value demo_partial) = Inr demo_partial"
  "parseArchive demo_host (archive_value demo_bare) = Inr demo_bare"
  by (simp_all add: parseArchive_value demo_archives_wf demo_bare_wf)

definition demo_union :: hash_archive where
  "demo_union = \<lparr>arch_programId = demo_program, arch_nodes =
     [(demo_key (demo_id 2 2), demo_branch), (demo_key demo_pack_id, demo_pack),
      (demo_key (demo_id 1 3), demo_account\<lparr>node_snapshot := None\<rparr>)]\<rparr>"

lemma demo_merged:
  "mergeArchives demo_host (archive_value demo_partial) [archive_value demo_bare] = Inr demo_union"
proof -
  have "part_of demo_union demo_archive"
    by (simp add: part_of_def demo_nodes demo_union_def node_below_iff same_core_def)
  then have "wf_archive demo_host demo_union" by (rule wf_archive_part [OF demo_host_ok demo_archives_wf(1)])
  moreover have "union_of (arch_nodes demo_partial) (arch_nodes demo_bare) (arch_nodes demo_union)"
    by (simp add: union_of_def demo_nodes demo_union_def demo_bare_def node_join_Some demo_pack_def flat_join_def)
  moreover have "arch_programId demo_union = demo_program" "arch_programId demo_bare = demo_program"
    by (simp_all add: demo_union_def demo_bare_def)
  ultimately show ?thesis by (simp add: merge_parsed [OF demo_host_ok demo_parsed(2,3)])
qed

definition demo_rival :: hash_archive where
  "demo_rival = \<lparr>arch_programId = demo_program, arch_nodes =
     [(demo_key (demo_id 0 1), demo_leaf\<lparr>node_createdAt := int_to_decimal 6\<rparr>)]\<rparr>"

lemma demo_hash_wf:
  assumes "0 < d" "d < 10"
  shows "wf_archive demo_host \<lparr>arch_programId = demo_program,
    arch_nodes = [(demo_key (demo_id 0 1), demo_leaf\<lparr>node_createdAt := int_to_decimal (int d)\<rparr>)]\<rparr>"
    (is "wf_archive demo_host ?a")
proof -
  let ?n = "demo_leaf\<lparr>node_createdAt := int_to_decimal (int d)\<rparr>"
  have "decimal_field nonzero_i64 (int_to_decimal (int d))"
    using assms by (intro decimal_fieldI) (simp add: nonzero_i64_def i64_range_def)
  then have wf: "wf_node demo_host ?n"
    using demo_wf_nodes(1) by (simp add: wf_node_def)
  have i: "node_id demo_host ?n = demo_id 0 1"
    using demo_node_ids(1) by (simp add: node_id_def)
  have deps: "nodeDependencies demo_host a ?n = Inr (Some [])" for a
    by (simp add: nodeDependencies_def demo_leaf_def)
  have "wf_nodes demo_host ?a" by (simp add: wf_nodes_def wf)
  moreover have "node_source ?n = AHash" by (simp add: demo_leaf_def)
  ultimately have "commits demo_host ?a p ?n" for p
    by (simp add: commits_wf [OF demo_host_ok _ wf] deps generation_ok_def commitment_def)
  then have "\<exists>j. inspectArchiveGraph demo_host ?a = Inr j"
    by (simp add: inspectArchiveGraph_ok dependencyOrder_def dependency_search_def deps search.simps)
  moreover have "archive_size demo_host ?a \<le> MAX_ARCHIVE_BYTES"
  proof -
    have decimal: "int_to_decimal (int d) = [digit_char d]" by (rule plain_decimal [OF assms(2)])
    have "plain_char (digit_char d)" using assms(2) by (intro plain_digit) simp
    moreover have "number_text demo_host (Finite (of_int ARCHIVE_VERSION)) = ''1''"
      by (simp add: number_text_def ARCHIVE_VERSION_def int_to_decimal_def nat_to_decimal.simps digit_char_def)
    moreover have "list_all plain_char ARCHIVE_FORMAT" by (simp add: ARCHIVE_FORMAT_def plain_char_def)
    moreover have "length ARCHIVE_FORMAT < 100" by (simp add: ARCHIVE_FORMAT_def)
    ultimately show ?thesis
      unfolding decimal
      by (simp add: archive_size_sum demo_leaf_def node_value_def utf8_length_Cons utf8_length_quote
          plain_char_def demo_program_def MAX_ARCHIVE_BYTES_def del: hex_of_bytes.simps)
  qed
  ultimately show ?thesis
    by (simp add: wf_archive_def wf_entry_def wf i key_textI demo_program_def MAX_ARCHIVE_NODES_def)
qed

lemma demo_rival_wf: "wf_archive demo_host demo_rival"
  using demo_hash_wf [of 6] by (simp add: demo_rival_def)

section \<open>Properties\<close>

text \<open>C4: merging two inputs succeeds with an archive exactly when both decode, for the same
  program, and the archive is their union: the nodes of the first in their order, then the new
  ones of the second, each record the join of the two records (equal hash, source and
  timestamp; a witness absent on one side is taken from the other), and it decodes.\<close>

theorem mergeArchives_union:
  assumes "host_ok H"
  shows "mergeArchives H x [y] = Inr c \<longleftrightarrow>
    (\<exists>a b. parseArchive H x = Inr a \<and> parseArchive H y = Inr b \<and>
       arch_programId a = arch_programId b \<and> arch_programId c = arch_programId a \<and>
       keys (arch_nodes c) =
         keys (arch_nodes a) @ filter (\<lambda>p. p \<notin> set (keys (arch_nodes a))) (keys (arch_nodes b)) \<and>
       (\<forall>p. lift_join node_join (get (arch_nodes a) p) (get (arch_nodes b) p) = Some (get (arch_nodes c) p)) \<and>
       parseArchive H (archive_value c) = Inr c)"
proof -
  have "wf_archive H c \<longleftrightarrow> parseArchive H (archive_value c) = Inr c"
    using parseArchive_value [OF assms] parseArchive_wf [OF assms] by blast
  then show ?thesis by (simp add: merge_two [OF assms] union_of_def)
qed

lemma mergeArchives_union_witness:
  "\<exists>a b. parseArchive demo_host (archive_value demo_partial) = Inr a \<and>
     parseArchive demo_host (archive_value demo_bare) = Inr b \<and> arch_programId a = arch_programId b \<and>
     lift_join node_join (get (arch_nodes a) (demo_key demo_pack_id)) (get (arch_nodes b) (demo_key demo_pack_id))
       = Some (get (arch_nodes demo_union) (demo_key demo_pack_id))"
  using mergeArchives_union [OF demo_host_ok, THEN iffD1, OF demo_merged] by blast

text \<open>The union contains every node and witness of both inputs, and merging an input again
  changes nothing: merging is idempotent.\<close>

theorem mergeArchives_absorbs:
  assumes "host_ok H" "parseArchive H x = Inr a" "parseArchive H y = Inr b" "mergeArchives H x [y] = Inr c"
  shows "part_of a c \<and> part_of b c \<and>
    mergeArchives H (archive_value c) [x] = Inr c \<and> mergeArchives H (archive_value c) [y] = Inr c"
proof -
  have c: "parseArchive H (archive_value c) = Inr c"
    by (rule parseArchive_value [OF assms(1) merge_two_wf [OF assms(1,4)]])
  note parts = union_parts [OF assms]
  then show ?thesis
    using merge_part [OF assms(1) c assms(2) parts(1)] merge_part [OF assms(1) c assms(3) parts(2)] by blast
qed

lemma mergeArchives_absorbs_witness:
  "part_of demo_partial demo_union \<and> part_of demo_bare demo_union \<and>
   mergeArchives demo_host (archive_value demo_union) [archive_value demo_bare] = Inr demo_union"
  using mergeArchives_absorbs [OF demo_host_ok demo_parsed(2,3) demo_merged] by blast

text \<open>C19: parts of one archive always merge, into their least common extension: when both inputs
  are parts of an archive that decodes, the merge succeeds and its result is a part of that
  archive as well.\<close>

theorem mergeArchives_parts_merge:
  assumes "host_ok H" "parseArchive H x = Inr a" "parseArchive H y = Inr b"
    and "parseArchive H z = Inr d" "part_of a d" "part_of b d"
  shows "\<exists>c. mergeArchives H x [y] = Inr c \<and> part_of c d"
  by (rule merge_parts [OF assms(1-3) parseArchive_wf [OF assms(1,4)] assms(5,6)])

lemma mergeArchives_parts_merge_witness:
  "\<exists>c. mergeArchives demo_host (archive_value demo_bare) [archive_value demo_partial] = Inr c \<and>
     part_of c demo_archive"
  by (rule mergeArchives_parts_merge [OF demo_host_ok demo_parsed(3,2,1) demo_parts(2,1)])

text \<open>Merging is commutative: the other order succeeds too, with the same program and the
  same records under the same addresses (only the order of the nodes may differ).\<close>

theorem mergeArchives_commute:
  assumes "host_ok H" "mergeArchives H x [y] = Inr c"
  shows "\<exists>d. mergeArchives H y [x] = Inr d \<and> arch_programId d = arch_programId c \<and>
    mset (arch_nodes d) = mset (arch_nodes c)"
proof -
  obtain a b where ab: "parseArchive H x = Inr a" "parseArchive H y = Inr b"
    "arch_programId a = arch_programId b" "arch_programId c = arch_programId a"
    and u: "union_of (arch_nodes a) (arch_nodes b) (arch_nodes c)" and c: "wf_archive H c"
    using assms(2) by (auto simp: merge_two [OF assms(1)])
  have "lift_join node_join (get (arch_nodes b) p) (get (arch_nodes a) p) = Some (get (arch_nodes c) p)" for p
    using u entry_join.join_commute [of "get (arch_nodes b) p"] by (simp add: union_of_def)
  with merge_rearranged [OF assms(1) ab(2,1) _ c] ab(3,4) show ?thesis by simp
qed

lemma mergeArchives_commute_witness:
  "\<exists>d. mergeArchives demo_host (archive_value demo_bare) [archive_value demo_partial] = Inr d \<and>
     mset (arch_nodes d) = mset (arch_nodes demo_union)"
  using mergeArchives_commute [OF demo_host_ok demo_merged] by blast

text \<open>C18: merging is associative: when the first two inputs merge, and the result merges with the
  third, then the last two merge, the first merges with that, and both groupings hold the
  same records.\<close>

theorem mergeArchives_assoc:
  assumes "host_ok H" "mergeArchives H x [y] = Inr u" "mergeArchives H (archive_value u) [z] = Inr r"
  shows "\<exists>v s. mergeArchives H y [z] = Inr v \<and> mergeArchives H x [archive_value v] = Inr s \<and>
    arch_programId s = arch_programId r \<and> mset (arch_nodes s) = mset (arch_nodes r)"
proof -
  obtain a b where ab: "parseArchive H x = Inr a" "parseArchive H y = Inr b"
    "arch_programId a = arch_programId b" "arch_programId u = arch_programId a"
    "union_of (arch_nodes a) (arch_nodes b) (arch_nodes u)"
    using assms(2) by (auto simp: merge_two [OF assms(1)])
  have u: "parseArchive H (archive_value u) = Inr u"
    by (rule parseArchive_value [OF assms(1) merge_two_wf [OF assms(1,2)]])
  obtain c where c: "parseArchive H z = Inr c" "arch_programId u = arch_programId c"
    "arch_programId r = arch_programId u" "union_of (arch_nodes u) (arch_nodes c) (arch_nodes r)" "wf_archive H r"
    using assms(3) u by (auto simp: merge_two [OF assms(1)])
  have r: "parseArchive H (archive_value r) = Inr r" by (rule parseArchive_value [OF assms(1) c(5)])
  note parts = union_parts [OF assms(1) ab(1,2) assms(2)] union_parts [OF assms(1) u c(1) assms(3)]
  obtain v where v: "mergeArchives H y [z] = Inr v"
    using merge_parts [OF assms(1) ab(2) c(1,5) part_of_trans [OF parts(2,3)] parts(4)] by blast
  have pv: "parseArchive H (archive_value v) = Inr v"
    by (rule parseArchive_value [OF assms(1) merge_two_wf [OF assms(1) v]])
  have uv: "arch_programId v = arch_programId b" "union_of (arch_nodes b) (arch_nodes c) (arch_nodes v)"
    using v by (simp_all add: merge_parsed [OF assms(1) ab(2) c(1)])
  have "lift_join node_join (get (arch_nodes a) p) (get (arch_nodes v) p) = Some (get (arch_nodes r) p)" for p
    using entry_join.join_assoc [of "get (arch_nodes a) p" "get (arch_nodes b) p" "get (arch_nodes c) p"]
      ab(5) c(4) uv(2) by (simp add: union_of_def)
  with merge_rearranged [OF assms(1) ab(1) pv _ c(5)] ab(3,4) c(3) uv(1) v show ?thesis by auto
qed

lemma mergeArchives_assoc_witness:
  "\<exists>v s. mergeArchives demo_host (archive_value demo_bare) [archive_value demo_bare] = Inr v \<and>
     mergeArchives demo_host (archive_value demo_partial) [archive_value v] = Inr s \<and>
     mset (arch_nodes s) = mset (arch_nodes demo_union)"
proof -
  have "mergeArchives demo_host (archive_value demo_union) [archive_value demo_bare] = Inr demo_union"
    by (rule merge_part [OF demo_host_ok parseArchive_value [OF demo_host_ok merge_two_wf [OF demo_host_ok demo_merged]]
          demo_parsed(3) union_parts(2) [OF demo_host_ok demo_parsed(2,3) demo_merged]])
  from mergeArchives_assoc [OF demo_host_ok demo_merged this] show ?thesis by blast
qed

text \<open>Merging a list of inputs is merging them one at a time: it succeeds exactly when every
  step does, with the same result, although the code decodes only the final union.\<close>

theorem mergeArchives_stepwise:
  assumes "host_ok H"
  shows "mergeArchives H x (y # zs) = Inr r \<longleftrightarrow>
    (\<exists>u. mergeArchives H x [y] = Inr u \<and> mergeArchives H (archive_value u) zs = Inr r)"
  by (rule merge_many [OF assms])

lemma mergeArchives_stepwise_witness:
  "mergeArchives demo_host (archive_value demo_partial) [archive_value demo_bare, archive_value demo_archive] \<noteq>
     Inr demo_partial"
proof
  assume "mergeArchives demo_host (archive_value demo_partial) [archive_value demo_bare, archive_value demo_archive] =
     Inr demo_partial"
  from mergeArchives_stepwise [OF demo_host_ok, THEN iffD1, OF this] obtain u where
    "mergeArchives demo_host (archive_value demo_partial) [archive_value demo_bare] = Inr u"
    "mergeArchives demo_host (archive_value u) [archive_value demo_archive] = Inr demo_partial" by blast
  then have "mergeArchives demo_host (archive_value demo_union) [archive_value demo_archive] = Inr demo_partial"
    by (simp add: demo_merged)
  then have "part_of demo_archive demo_partial"
    using union_parts(2) [OF demo_host_ok _ demo_parsed(1)] merge_two_wf [OF demo_host_ok demo_merged]
      parseArchive_value [OF demo_host_ok] by blast
  from part_entries(2) [OF this] show False by (simp add: demo_nodes)
qed

text \<open>C20: a failed merge of two decodable inputs has a true cause: the programs differ; or a node of
  the second is recorded in the first with a different hash, source or timestamp, or else with a
  members list on both sides that differs, or else with a snapshot on both sides that differs,
  and the error names that node and what differs, and is the first such node in the order of the
  second input; or no node conflicts, and decoding the union in the first input's program failed with
  that error. A members list or snapshot that only one side has is never a conflict.\<close>

theorem mergeArchives_error:
  assumes "host_ok H" "parseArchive H x = Inr a" "parseArchive H y = Inr b" "mergeArchives H x [y] = Inl e"
  shows "arch_programId a \<noteq> arch_programId b \<and> e = Error ''Cannot merge archives from different programs'' \<or>
    arch_programId a = arch_programId b \<and>
    (\<exists>before p n after m. arch_nodes b = before @ (p, n) # after \<and> get (arch_nodes a) p = Some m \<and>
      (let core = (\<lambda>k. (node_hash k, node_source k, node_createdAt k));
           members_differ = (\<exists>u v. node_members m = Some u \<and> node_members n = Some v \<and> u \<noteq> v);
           snapshots_differ = (\<exists>u v. node_snapshot m = Some u \<and> node_snapshot n = Some v \<and> u \<noteq> v) in
       e = Error (''Conflicting historical incarnation: '' @ p) \<and> core m \<noteq> core n \<or>
       e = Error (''Conflicting members: '' @ p) \<and> core m = core n \<and> members_differ \<or>
       e = Error (''Conflicting snapshot: '' @ p) \<and> core m = core n \<and> \<not> members_differ \<and> snapshots_differ) \<and>
      (\<forall>(q, k) \<in> set before. lift_join node_join (get (arch_nodes a) q) (Some k) \<noteq> None)) \<or>
    arch_programId a = arch_programId b \<and>
    (\<exists>c :: hash_archive. arch_programId c = arch_programId a \<and> union_of (arch_nodes a) (arch_nodes b) (arch_nodes c) \<and>
      parseArchive H (archive_value c) = Inl e)"
proof (cases "arch_programId b = arch_programId a")
  case False
  with assms(2-4) show ?thesis by (simp add: mergeArchives_def merge_archive_def)
next
  case True
  note normal = wf_archive_normal [OF parseArchive_wf [OF assms(1,2)]]
    wf_archive_normal [OF parseArchive_wf [OF assms(1,3)]]
  note wf = normal_fields_all_wf [OF normal(1)] normal_fields_all_wf [OF normal(2)]
  have d: "distinct (keys (arch_nodes b))" using normal(2) by (simp add: normal_fields_def)
  show ?thesis
  proof (cases "foldE (merge_entry H) (arch_nodes a) (arch_nodes b)")
    case (Inl e')
    with assms(2-4) True have "foldE (merge_entry H) (arch_nodes a) (arch_nodes b) = Inl e"
      by (simp add: mergeArchives_def merge_archive_def)
    from merge_entries_error [OF wf d this] obtain before p n after m where c: "arch_nodes b = before @ (p, n) # after"
      "get (arch_nodes a) p = Some m" "merge_conflict p m n e"
      "\<forall>(q, k) \<in> set before. lift_join node_join (get (arch_nodes a) q) (Some k) \<noteq> None"
      by blast
    show ?thesis
      by (rule disjI2, rule disjI1, rule conjI, rule True [symmetric], rule exI [of _ before], rule exI [of _ p],
          rule exI [of _ n], rule exI [of _ after], rule exI [of _ m])
        (use c in \<open>simp only: merge_conflict_def same_core_def differ_def Let_def prod.inject simp_thms\<close>)
  next
    case (Inr nc)
    with assms(2-4) True have "parseArchive H (archive_value (a\<lparr>arch_nodes := nc\<rparr>)) = Inl e"
      by (simp add: mergeArchives_def merge_archive_def)
    moreover from Inr have "union_of (arch_nodes a) (arch_nodes b) (arch_nodes (a\<lparr>arch_nodes := nc\<rparr>))"
      by (simp add: merge_entries_iff [OF normal])
    ultimately show ?thesis using True by (intro disjI2 exI [of _ "a\<lparr>arch_nodes := nc\<rparr>"] conjI) simp_all
  qed
qed

lemma mergeArchives_error_witness:
  "mergeArchives demo_host (archive_value demo_archive) [archive_value demo_rival] =
     Inl (Error (''Conflicting historical incarnation: '' @ demo_key (demo_id 0 1)))"
proof -
  let ?n = "demo_leaf\<lparr>node_createdAt := int_to_decimal 6\<rparr>"
  note parsed = demo_parsed(1) parseArchive_value [OF demo_host_ok demo_rival_wf]
  have get: "get (arch_nodes demo_rival) p = (if p = demo_key (demo_id 0 1) then Some ?n else None)" for p
    by (simp add: demo_rival_def)
  have program: "arch_programId demo_rival = demo_program" by (simp add: demo_rival_def)
  have none: "\<not> union_of (arch_nodes demo_archive) (arch_nodes demo_rival) nc" for nc
  proof
    assume "union_of (arch_nodes demo_archive) (arch_nodes demo_rival) nc"
    then have "lift_join node_join (get (arch_nodes demo_archive) (demo_key (demo_id 0 1)))
        (get (arch_nodes demo_rival) (demo_key (demo_id 0 1))) \<noteq> None"
      by (simp add: union_of_def)
    then show False by (simp add: get demo_nodes node_join_def demo_leaf_def)
  qed
  then have "mergeArchives demo_host (archive_value demo_archive) [archive_value demo_rival] \<noteq> Inr c" for c
    by (simp add: merge_parsed [OF demo_host_ok parsed])
  then obtain e where e: "mergeArchives demo_host (archive_value demo_archive) [archive_value demo_rival] = Inl e"
    by (metis sum.exhaust)
  have leaf: "get (arch_nodes demo_archive) (demo_key (demo_id 0 1)) = Some demo_leaf" by (simp add: demo_nodes)
  have same: "arch_programId demo_archive = arch_programId demo_rival" using program by simp
  obtain before p n after m where conflict: "arch_nodes demo_rival = before @ (p, n) # after"
    "get (arch_nodes demo_archive) p = Some m" "e = Error (''Conflicting historical incarnation: '' @ p) \<or>
      (\<exists>u v. node_members m = Some u \<and> node_members n = Some v) \<or> (\<exists>u v. node_snapshot m = Some u \<and> node_snapshot n = Some v)"
    using mergeArchives_error [OF demo_host_ok parsed e, unfolded Let_def] none same by blast
  have "(p, n) \<in> set (arch_nodes demo_rival)" by (simp only: conflict(1)) simp
  then have "p = demo_key (demo_id 0 1)" "n = ?n" by (simp_all add: demo_rival_def)
  moreover from this leaf conflict(2) have "m = demo_leaf" by simp
  moreover have "node_members demo_leaf = None" "node_snapshot demo_leaf = None" by (simp_all add: demo_leaf_def)
  ultimately have "e = Error (''Conflicting historical incarnation: '' @ demo_key (demo_id 0 1))"
    using conflict(3) by auto
  with e show ?thesis by simp
qed

end
