(* ===== verification/Selection.thy ===== *)
theory Selection
  imports Unions
begin

text \<open>
  What \<open>selectArchive\<close> and \<open>addArchiveNode\<close> promise. A selection is a part of its archive,
  so decoding it again never fails; with dependencies it is closed under them.
\<close>

section \<open>Selected nodes\<close>

lemma select_entries_ok:
  "foldE (select_entry a) nodes ids = Inr nodes' \<longleftrightarrow>
     (\<forall>p \<in> set ids. get (arch_nodes a) p \<noteq> None) \<and>
     nodes' = foldl (\<lambda>ns p. put ns p (the (get (arch_nodes a) p))) nodes ids"
  by (induction ids arbitrary: nodes) (auto simp: select_entry_def split: option.split)

lemma foldl_put_get:
  "get (foldl (\<lambda>ns p. put ns p (f p)) nodes ids) p = (if p \<in> set ids then Some (f p) else get nodes p)"
  by (induction ids arbitrary: nodes) auto

lemma foldl_put_keys:
  "distinct (keys nodes) \<Longrightarrow> distinct (keys (foldl (\<lambda>ns p. put ns p (f p)) nodes ids))"
  by (induction ids arbitrary: nodes) auto

lemma foldl_put_distinct:
  "distinct ids \<Longrightarrow> set ids \<inter> set (keys nodes) = {} \<Longrightarrow>
     foldl (\<lambda>ns p. put ns p (f p)) nodes ids = nodes @ map (\<lambda>p. (p, f p)) ids"
  by (induction ids arbitrary: nodes) (auto simp: put_new)

text \<open>The archive that holds the records of the given nodes.\<close>

definition restricted :: "hash_archive \<Rightarrow> string list \<Rightarrow> hash_archive" where
  "restricted a ids = a\<lparr>arch_nodes := foldl (\<lambda>ns p. put ns p (the (get (arch_nodes a) p))) [] ids\<rparr>"

lemma restricted_get:
  "get (arch_nodes (restricted a ids)) p = (if p \<in> set ids then Some (the (get (arch_nodes a) p)) else None)"
  by (simp add: restricted_def foldl_put_get)

lemma restricted_part:
  assumes "\<forall>p \<in> set ids. get (arch_nodes a) p \<noteq> None"
  shows "part_of (restricted a ids) a"
proof -
  have "distinct (keys (arch_nodes (restricted a ids)))"
    by (simp add: restricted_def foldl_put_keys)
  moreover have "\<exists>m. get (arch_nodes a) p = Some m \<and> node_below n m"
    if "get (arch_nodes (restricted a ids)) p = Some n" for p n
    using that assms by (auto simp: restricted_get split: if_splits)
  ultimately show ?thesis by (simp add: part_of_def restricted_def)
qed

lemma createArchive_wf:
  assumes "host_ok H" "wf_archive H a"
  shows "createArchive H (arch_programId a) = Inr (a\<lparr>arch_nodes := []\<rparr>)"
proof -
  have "part_of (a\<lparr>arch_nodes := []\<rparr>) a" by (simp add: part_of_def)
  from parseArchive_value [OF assms(1) wf_archive_part [OF assms this]] show ?thesis
    by (simp add: createArchive_def archive_value_def)
qed

text \<open>Selecting known nodes always succeeds.\<close>

lemma select_known:
  assumes "host_ok H" "wf_archive H a"
  shows "bindE (createArchive H (arch_programId a)) (\<lambda>result.
      bindE (foldE (select_entry a) (arch_nodes result) ids) (\<lambda>nodes.
      parseArchive H (archive_value (result\<lparr>arch_nodes := nodes\<rparr>)))) = Inr s \<longleftrightarrow>
    (\<forall>p \<in> set ids. get (arch_nodes a) p \<noteq> None) \<and> s = restricted a ids"
proof -
  have "parseArchive H (archive_value (restricted a ids)) = Inr (restricted a ids)"
    if "\<forall>p \<in> set ids. get (arch_nodes a) p \<noteq> None"
    by (rule parseArchive_value [OF assms(1) wf_archive_part [OF assms restricted_part [OF that]]])
  then show ?thesis
    by (auto simp: createArchive_wf [OF assms] select_entries_ok restricted_def)
qed

lemma mapE_keys:
  assumes "mapE (\<lambda>pda. archivePublicKey H (JString pda) path) pdas = Inr addresses"
  shows "list_all (key_text H) addresses"
  unfolding list_all_iff using mapE_set [OF assms] archivePublicKey_text by blast

lemma selectArchive_ok:
  assumes "host_ok H"
  shows "selectArchive H input pdas includeDependencies = Inr s \<longleftrightarrow>
    (\<exists>a addresses ids. parseArchive H input = Inr a \<and>
       mapE (\<lambda>pda. archivePublicKey H (JString pda) ''address'') pdas = Inr addresses \<and>
       (if includeDependencies then dependencyOrder H a addresses True else Inr addresses) = Inr ids \<and>
       (\<forall>p \<in> set ids. get (arch_nodes a) p \<noteq> None) \<and> s = restricted a ids)"
proof -
  define F where "F a ids = bindE (createArchive H (arch_programId a)) (\<lambda>result.
      bindE (foldE (select_entry a) (arch_nodes result) ids) (\<lambda>nodes.
      parseArchive H (archive_value (result\<lparr>arch_nodes := nodes\<rparr>))))" for a ids
  have F: "F a ids = Inr s \<longleftrightarrow> (\<forall>p \<in> set ids. get (arch_nodes a) p \<noteq> None) \<and> s = restricted a ids"
    if "parseArchive H input = Inr a" for a ids
    unfolding F_def by (rule select_known [OF assms parseArchive_wf [OF assms that]])
  show ?thesis
    unfolding selectArchive_def F_def [symmetric] bindE_ok using F by blast
qed

lemma ex_image: "(\<exists>s. \<exists>i. P i \<and> Q i \<and> s = f i) \<longleftrightarrow> (\<exists>i. P i \<and> Q i)"
  by blast

lemma selectArchive_parsed:
  assumes "host_ok H" "parseArchive H input = Inr a"
    and "mapE (\<lambda>pda. archivePublicKey H (JString pda) ''address'') pdas = Inr addresses"
  shows "selectArchive H input pdas includeDependencies = Inr s \<longleftrightarrow>
    (\<exists>ids. (if includeDependencies then dependencyOrder H a addresses True else Inr addresses) = Inr ids \<and>
      (\<forall>p \<in> set ids. get (arch_nodes a) p \<noteq> None) \<and> s = restricted a ids)"
  by (simp add: selectArchive_ok [OF assms(1)] assms(2,3))

section \<open>Properties\<close>

text \<open>C21: a selection with dependencies holds exactly the records, unchanged, of the nodes
  reachable from the requested ones, each dependency before its dependents; it is closed: an
  inspection of it finds no missing node and no pack without members; and it keeps the
  program.\<close>

theorem selectArchive_closed:
  assumes "host_ok H" "selectArchive H input pdas True = Inr s"
  shows "\<exists>a addresses. parseArchive H input = Inr a \<and>
    mapE (\<lambda>pda. archivePublicKey H (JString pda) ''address'') pdas = Inr addresses \<and>
    arch_programId s = arch_programId a \<and> dependencyOrder H a addresses True = Inr (keys (arch_nodes s)) \<and>
    (\<forall>p \<in> set (keys (arch_nodes s)). get (arch_nodes s) p = get (arch_nodes a) p) \<and>
    (\<exists>i. inspectArchiveGraph H s = Inr i \<and> insp_missingNodes i = [] \<and>
      (\<forall>p. (p, ''members'') \<notin> set (insp_missingWitnesses i)))"
proof -
  obtain a addresses ids where a: "parseArchive H input = Inr a"
    "mapE (\<lambda>pda. archivePublicKey H (JString pda) ''address'') pdas = Inr addresses"
    and order: "dependencyOrder H a addresses True = Inr ids"
    and known: "\<forall>p \<in> set ids. get (arch_nodes a) p \<noteq> None" and s: "s = restricted a ids"
    using assms(2) unfolding selectArchive_ok [OF assms(1)] by auto
  note search = dependency_search_ok [OF order [unfolded dependencyOrder_def]]
  have nodes: "arch_nodes s = map (\<lambda>p. (p, the (get (arch_nodes a) p))) ids"
    using foldl_put_distinct [of ids "[]"] search(2) by (simp add: s restricted_def)
  then have keys: "keys (arch_nodes s) = ids" by (simp add: comp_def)
  have part: "part_of s a" unfolding s by (rule restricted_part [OF known])
  have records: "get (arch_nodes s) p = get (arch_nodes a) p" if "p \<in> set ids" for p
    using known that by (auto simp: s restricted_get)
  have "wf_archive H s" by (rule wf_archive_part [OF assms(1) parseArchive_wf [OF assms(1) a(1)] part])
  then obtain i where i: "inspectArchiveGraph H s = Inr i" by (auto simp: wf_archive_def)
  then have i': "i = inspection_of H s" by (simp add: inspectArchiveGraph_ok)
  have deps: "\<exists>ds. nodeDependencies H s n = Inr (Some ds) \<and> set ds \<subseteq> set ids"
    if "(p, n) \<in> set (arch_nodes s)" for p n
  proof -
    have p: "p \<in> set ids" "get (arch_nodes a) p = Some n" using that known by (auto simp: nodes)
    then obtain ds where ds: "nodeDependencies H a n = Inr (Some ds)"
      using search(4) by (fastforce simp: expandable_def)
    moreover have "nodeDependencies H s n = nodeDependencies H a n"
      unfolding nodeDependencies_def part_node_pda [OF part] ..
    moreover have "d \<in> set ids" if "d \<in> set ds" for d
      by (rule topological_index [OF search(3) p(1)]) (use ds p that in \<open>auto simp: edges_def wanted_def\<close>)
    ultimately show ?thesis by auto
  qed
  have present: "get (arch_nodes s) d \<noteq> None" if "d \<in> set ids" for d
    using that known records by auto
  have "d \<notin> set (insp_missingNodes i)" for d
  proof
    assume "d \<in> set (insp_missingNodes i)"
    then obtain p n where pn: "(p, n) \<in> set (arch_nodes s)" "d \<in> set (known_deps H s n)" "get (arch_nodes s) d = None"
      unfolding i' inspection_of_sets by auto
    from deps [OF pn(1)] pn(2) have "d \<in> set ids" by (auto simp: known_deps_def)
    from present [OF this] pn(3) show False by simp
  qed
  then have "insp_missingNodes i = []" by (meson list.set_sel(1))
  moreover have "(p, ''members'') \<notin> set (insp_missingWitnesses i)" for p
  proof
    assume "(p, ''members'') \<in> set (insp_missingWitnesses i)"
    then obtain q n where "(q, n) \<in> set (arch_nodes s)" "(p, ''members'') \<in> set (node_gaps H s q n)"
      unfolding i' inspection_of_sets by auto
    with deps show False by (fastforce simp: node_gaps_def split: if_splits)
  qed
  moreover have "arch_programId s = arch_programId a" by (simp add: s restricted_def)
  ultimately show ?thesis using a order keys i records by auto
qed

lemma demo_selected:
  "\<exists>s. selectArchive demo_host (archive_value demo_archive) [demo_key demo_batch_id, demo_key demo_pack_id] True = Inr s"
proof -
  have address: "archivePublicKey demo_host (JString (demo_key k)) path = Inr (demo_key k)" if "length k = 32" for k path
    using that by (simp add: archivePublicKey_def)
  have addresses: "mapE (\<lambda>pda. archivePublicKey demo_host (JString pda) ''address'')
      [demo_key demo_batch_id, demo_key demo_pack_id] = Inr [demo_key demo_batch_id, demo_key demo_pack_id]"
    by (simp add: address)
  have "get (arch_nodes demo_archive) p \<noteq> None"
    if "p \<in> set [demo_key (demo_id 0 1), demo_key (demo_id 2 2), demo_key demo_batch_id, demo_key demo_pack_id]" for p
    using that by (auto simp: demo_nodes)
  then show ?thesis
    unfolding selectArchive_parsed [OF demo_host_ok demo_parsed(1) addresses] if_True demo_order sum.inject by blast
qed

lemma selectArchive_closed_witness:
  "\<exists>s i. selectArchive demo_host (archive_value demo_archive) [demo_key demo_batch_id, demo_key demo_pack_id] True = Inr s \<and>
     inspectArchiveGraph demo_host s = Inr i \<and> insp_missingNodes i = []"
  using demo_selected selectArchive_closed [OF demo_host_ok] by metis

text \<open>C22: a selection succeeds whenever its input decodes and the requested nodes can be listed:
  without dependencies, when they are all present; with dependencies, when the dependency
  order exists. Decoding the selected records again never fails, and merging them back into
  the archive gives the archive.\<close>

theorem selectArchive_decides:
  assumes "host_ok H" "parseArchive H input = Inr a"
    and "mapE (\<lambda>pda. archivePublicKey H (JString pda) ''address'') pdas = Inr addresses"
  shows "((\<exists>s. selectArchive H input pdas includeDependencies = Inr s) \<longleftrightarrow>
      (if includeDependencies then \<exists>ids. dependencyOrder H a addresses True = Inr ids
       else \<forall>p \<in> set addresses. get (arch_nodes a) p \<noteq> None)) \<and>
    (\<forall>s. selectArchive H input pdas includeDependencies = Inr s \<longrightarrow>
      mergeArchives H input [archive_value s] = Inr a)"
proof -
  have known: "\<forall>p \<in> set ids. get (arch_nodes a) p \<noteq> None" if "dependencyOrder H a addresses True = Inr ids" for ids
    using dependency_search_ok(4) [OF that [unfolded dependencyOrder_def]] by (auto simp: expandable_def)
  have merged: "mergeArchives H input [archive_value s] = Inr a"
    if s: "selectArchive H input pdas includeDependencies = Inr s" for s
  proof -
    obtain ids where "\<forall>p \<in> set ids. get (arch_nodes a) p \<noteq> None" "s = restricted a ids"
      using s unfolding selectArchive_parsed [OF assms] by blast
    then have part: "part_of s a" using restricted_part by blast
    have "wf_archive H s" by (rule wf_archive_part [OF assms(1) parseArchive_wf [OF assms(1,2)] part])
    from merge_part [OF assms(1,2) parseArchive_value [OF assms(1) this] part] show ?thesis .
  qed
  have "(\<exists>s. selectArchive H input pdas includeDependencies = Inr s) \<longleftrightarrow>
      (\<exists>ids. (if includeDependencies then dependencyOrder H a addresses True else Inr addresses) = Inr ids \<and>
        (\<forall>p \<in> set ids. get (arch_nodes a) p \<noteq> None))"
    unfolding selectArchive_parsed [OF assms] by (rule ex_image)
  also have "\<dots> \<longleftrightarrow> (if includeDependencies then \<exists>ids. dependencyOrder H a addresses True = Inr ids
       else \<forall>p \<in> set addresses. get (arch_nodes a) p \<noteq> None)"
    using known by (cases includeDependencies) (simp_all only: if_True if_False sum.inject simp_thms, blast+)
  finally have "(\<exists>s. selectArchive H input pdas includeDependencies = Inr s) \<longleftrightarrow>
      (if includeDependencies then \<exists>ids. dependencyOrder H a addresses True = Inr ids
       else \<forall>p \<in> set addresses. get (arch_nodes a) p \<noteq> None)" .
  with merged show ?thesis by blast
qed

lemma selectArchive_decides_witness:
  "(\<exists>s. selectArchive demo_host (archive_value demo_partial) [demo_key (demo_id 2 2)] False = Inr s) \<and>
   (\<nexists>s. selectArchive demo_host (archive_value demo_partial) [demo_key (demo_id 2 2)] True = Inr s)"
proof -
  have addresses: "mapE (\<lambda>pda. archivePublicKey demo_host (JString pda) ''address'') [demo_key (demo_id 2 2)] =
      Inr [demo_key (demo_id 2 2)]"
    by (simp add: archivePublicKey_def)
  have "\<nexists>ids. dependencyOrder demo_host demo_partial [demo_key (demo_id 2 2)] True = Inr ids"
    by (simp add: dependencyOrder_def dependency_search_def demo_nodes demo_dependencies search.simps)
  moreover have "\<forall>p \<in> set [demo_key (demo_id 2 2)]. get (arch_nodes demo_partial) p \<noteq> None"
    by (simp add: demo_nodes)
  ultimately show ?thesis
    using selectArchive_decides [OF demo_host_ok demo_parsed(2) addresses, of False]
      selectArchive_decides [OF demo_host_ok demo_parsed(2) addresses, of True] by (metis (no_types))
qed

text \<open>C23: adding a node decodes the archive and the node, requires the address to be the one the
  node's own content derives, and changes nothing else: the result contains the archive and
  the node, has no other node, and its record at every other address is the archive's.\<close>

theorem addArchiveNode_correct:
  assumes "host_ok H" "addArchiveNode H archive pda node = Inr c"
  shows "\<exists>a p n m. parseArchive H archive = Inr a \<and> archivePublicKey H (JString pda) ''node PDA'' = Inr p \<and>
    parse_node H node (''nodes.'' @ p) = Inr n \<and>
    deriveHashPda H (key_bytes H (arch_programId a)) (JBytes (node_id H n)) = Inr (key_bytes H p) \<and>
    part_of a c \<and> get (arch_nodes c) p = Some m \<and> node_below n m \<and>
    (\<forall>q. q \<noteq> p \<longrightarrow> get (arch_nodes c) q = get (arch_nodes a) q)"
proof -
  let ?v = "\<lambda>e :: hash_archive. JObject [(''format'', JString ARCHIVE_FORMAT), (''version'', jint ARCHIVE_VERSION),
    (''programId'', JString (arch_programId e)), (''nodes'', JObject [(pda, node)])]"
  obtain e where "mergeArchives H archive [?v e] = Inr c"
    using assms(2) by (auto simp: addArchiveNode_def split: jsval.splits)
  note merged = this
  then obtain a b where ab: "parseArchive H archive = Inr a" "parseArchive H (?v e) = Inr b"
    "arch_programId a = arch_programId b" and u: "union_of (arch_nodes a) (arch_nodes b) (arch_nodes c)"
    by (auto simp: merge_two [OF assms(1)])
  have "parse_value_archive H (?v e) = Inr b" using ab(2) by (simp add: parseArchive_def)
  then have nodes: "key_text H (arch_programId b)" "foldE (add_node H (arch_programId b)) [] [(pda, node)] = Inr (arch_nodes b)"
    using archivePublicKey_text
    by (auto simp: parse_value_archive_def plain_object_def Let_def split: if_splits)
  then obtain p n where p: "archivePublicKey H (JString pda) ''node PDA'' = Inr p"
    "parse_node H node (''nodes.'' @ p) = Inr n" "wf_entry H (arch_programId b) (p, n)" "arch_nodes b = [(p, n)]"
    by (auto simp: add_node_ok [OF assms(1)])
  have "get (arch_nodes c) q = get (arch_nodes a) q" if "q \<noteq> p" for q
  proof -
    have "lift_join node_join (get (arch_nodes a) q) None = Some (get (arch_nodes c) q)"
      using u that unfolding union_of_def p(4) by (metis get_Cons get_Nil)
    then show ?thesis by simp
  qed
  moreover have "get (arch_nodes b) p = Some n" by (simp add: p(4))
  then obtain m where "get (arch_nodes c) p = Some m" "node_below n m"
    using union_parts(2) [OF assms(1) ab(1,2) merged] by (auto elim: part_of_get)
  ultimately show ?thesis
    using ab p(1-3) union_parts(1) [OF assms(1) ab(1,2) merged] by (auto simp: wf_entry_def)
qed

lemma addArchiveNode_correct_witness:
  "\<exists>c m. addArchiveNode demo_host (archive_value demo_partial) (demo_key (demo_id 0 1)) (node_value demo_leaf) = Inr c \<and>
     get (arch_nodes c) (demo_key (demo_id 0 1)) = Some m \<and> node_below demo_leaf m"
proof -
  let ?one = "\<lparr>arch_programId = demo_program, arch_nodes = [(demo_key (demo_id 0 1), demo_leaf)]\<rparr>"
  have part: "part_of ?one demo_archive" by (simp add: part_of_def demo_nodes)
  have wf: "wf_archive demo_host ?one" by (rule wf_archive_part [OF demo_host_ok demo_archives_wf(1) part])
  have v: "archive_value ?one = JObject [(''format'', JString ARCHIVE_FORMAT), (''version'', jint ARCHIVE_VERSION),
      (''programId'', JString demo_program), (''nodes'', JObject [(demo_key (demo_id 0 1), node_value demo_leaf)])]"
    by (simp add: archive_value_def)
  obtain c where c: "mergeArchives demo_host (archive_value demo_partial) [archive_value ?one] = Inr c"
    using merge_parts [OF demo_host_ok demo_parsed(2) parseArchive_value [OF demo_host_ok wf] demo_archives_wf(1)
        demo_parts(1) part] by blast
  have "createArchive demo_host demo_program = Inr (demo_partial\<lparr>arch_nodes := []\<rparr>)"
    using createArchive_wf [OF demo_host_ok demo_archives_wf(2)] by simp
  then have "addArchiveNode demo_host (archive_value demo_partial) (demo_key (demo_id 0 1)) (node_value demo_leaf) = Inr c"
    using c unfolding v by (simp add: addArchiveNode_def archive_value_def [of demo_partial] valueString_def)
  moreover have "parse_node demo_host (node_value demo_leaf) path = Inr demo_leaf" for path
    by (rule parse_node_value [OF demo_host_ok demo_wf_nodes(1)])
  moreover have "archivePublicKey demo_host (JString (demo_key (demo_id 0 1))) path = Inr (demo_key (demo_id 0 1))" for path
    by (simp add: archivePublicKey_def)
  moreover note this addArchiveNode_correct [OF demo_host_ok calculation(1)]
  ultimately show ?thesis by auto
qed

end
