(* ===== verification/RestoreProof.thy ===== *)
theory RestoreProof
  imports Selection
begin

text \<open>
  \<open>app/sdk/archive/proof.ts\<close>: the compiler from an archive closure to the links of a
  Restore proof, and what the compiled links are.
\<close>

section \<open>The compiler\<close>

record archive_proof_options =
  opt_anchor :: string
  opt_targets :: "string list"
  opt_existingAccounts :: "string list option"

text \<open>\<open>archive.nodes[pda]\<close> at its first use, a \<open>TypeError\<close> when there is none.\<close>

definition archive_record :: "hash_archive \<Rightarrow> string \<Rightarrow> archive_node result" where
  "archive_record archive pda = (case get (arch_nodes archive) pda of
      None \<Rightarrow> Inl (HostError ''undefined node'')
    | Some node \<Rightarrow> Inr node)"

definition member_fingerprint :: "host \<Rightarrow> hash_archive \<Rightarrow> string \<Rightarrow> fingerprint_input result" where
  "member_fingerprint H archive pda = bindE (archive_record archive pda) (nodeFingerprint H)"

definition entry_params ::
  "host \<Rightarrow> hash_archive \<Rightarrow> string list \<Rightarrow> string list \<Rightarrow> string \<Rightarrow> archive_node \<Rightarrow> hash_source \<Rightarrow>
   string list option \<Rightarrow> restore_params option result" where
  "entry_params H archive targets existing pda node source dependencies =
     (let deps = (case dependencies of None \<Rightarrow> Inl (HostError ''null dependencies'') | Some ds \<Rightarrow> Inr ds) in
      case source of
        SHash \<Rightarrow> Inr (if pda \<in> set targets then Some (PHash (JString (node_hash node))) else None)
      | SAccount k \<Rightarrow>
          if node_snapshot node = None \<and> pda \<notin> set existing
          then Inl (Error (''Missing Account snapshot: '' @ pda))
          else if pda \<in> set existing then Inr (Some (PAccount None))
          else (case node_snapshot node of
              None \<Rightarrow> Inl (HostError ''undefined snapshot'')
            | Some snapshot \<Rightarrow>
                bindE (snapshotFromArchive H snapshot) (\<lambda>s. Inr (Some (PAccount (Some s)))))
      | SBranch p q g \<Rightarrow>
          bindE deps (\<lambda>ds. case ds of
              [] \<Rightarrow> Inl (HostError ''undefined node'')
            | d # _ \<Rightarrow> bindE (member_fingerprint H archive d) (\<lambda>parent. Inr (Some (PBranch parent))))
      | SBatch ids \<Rightarrow>
          bindE deps (\<lambda>ds. bindE (mapE (member_fingerprint H archive) ds) (\<lambda>ms. Inr (Some (PBatch ms))))
      | SPack \<Rightarrow>
          bindE deps (\<lambda>ds. bindE (mapE (member_fingerprint H archive) ds) (\<lambda>ms. Inr (Some (PPack ms)))))"

definition proof_entry ::
  "host \<Rightarrow> hash_archive \<Rightarrow> string list \<Rightarrow> string list \<Rightarrow> string \<Rightarrow> restore_proof_input result" where
  "proof_entry H archive targets existing pda =
     bindE (archive_record archive pda) (\<lambda>node.
     bindE (sourceFromArchive H (node_source node)) (\<lambda>source.
     bindE (bigintOfString (node_createdAt node)) (\<lambda>createdAt.
     bindE (nodeDependencies H archive node) (\<lambda>dependencies.
     bindE (entry_params H archive targets existing pda node source dependencies) (\<lambda>params.
     Inr \<lparr>link_hash = JString (node_hash node), link_source = source,
       link_createdAt = JBigInt createdAt, link_params = params\<rparr>)))))"

definition buildRestoreProof ::
  "host \<Rightarrow> jsval \<Rightarrow> archive_proof_options \<Rightarrow> restore_proof_input list result" where
  "buildRestoreProof H input options =
     bindE (parseArchive H input) (\<lambda>archive.
     bindE (archivePublicKey H (JString (opt_anchor options)) ''address'') (\<lambda>anchor.
     bindE (dependencyOrder H archive [anchor] True) (\<lambda>order.
     bindE (mapE (\<lambda>pda. archivePublicKey H (JString pda) ''address'') (opt_targets options)) (\<lambda>targets.
     if \<not> distinct targets then Inl (Error ''Duplicate restore targets'')
     else (case find (\<lambda>target. target \<notin> set order) targets of
         Some target \<Rightarrow> Inl (Error (''Target not reachable from anchor: '' @ target))
       | None \<Rightarrow>
           bindE (mapE (\<lambda>pda. archivePublicKey H (JString pda) ''address'')
             (case opt_existingAccounts options of None \<Rightarrow> [] | Some pdas \<Rightarrow> pdas)) (\<lambda>accounts.
           mapE (proof_entry H archive targets (anchor # accounts))
             (anchor # filter (\<lambda>pda. pda \<noteq> anchor) order)))))))"

section \<open>Compiled links\<close>

definition fingerprint_of :: "archive_node \<Rightarrow> fingerprint_input" where
  "fingerprint_of n = \<lparr>fp_hash = JString (node_hash n),
     fp_sourceKind = jint (int (kind_number (archive_kind (node_source n)))),
     fp_createdAt = JBigInt (node_time n), fp_generation = JBigInt (node_generation n)\<rparr>"

definition source_input :: "host \<Rightarrow> archive_node \<Rightarrow> hash_source" where
  "source_input H n = projr (sourceFromArchive H (node_source n))"

definition snapshot_input :: "host \<Rightarrow> archive_snapshot \<Rightarrow> account_snapshot_input" where
  "snapshot_input H s = \<lparr>snap_owner = JPubKey (key_bytes H (as_owner s)),
     snap_lamports = JBigInt (decimal_value (as_lamports s)), snap_executable = as_executable s,
     snap_rentEpoch = JBigInt (decimal_value (as_rentEpoch s)), snap_data = JArray (as_data s)\<rparr>"

text \<open>The parameters a node with present dependencies \<open>ms\<close> gets.\<close>

definition params_of ::
  "host \<Rightarrow> string list \<Rightarrow> string list \<Rightarrow> string \<Rightarrow> archive_node \<Rightarrow> archive_node list \<Rightarrow> restore_params option" where
  "params_of H targets existing p n ms = (case node_source n of
      AHash \<Rightarrow> if p \<in> set targets then Some (PHash (JString (node_hash n))) else None
    | AAccount k \<Rightarrow> Some (PAccount (if p \<in> set existing then None
        else map_option (snapshot_input H) (node_snapshot n)))
    | ABranch a b g \<Rightarrow> Some (PBranch (fingerprint_of (hd ms)))
    | ABatch ids \<Rightarrow> Some (PBatch (map fingerprint_of ms))
    | APack \<Rightarrow> Some (PPack (map fingerprint_of ms)))"

definition link_of ::
  "host \<Rightarrow> string list \<Rightarrow> string list \<Rightarrow> string \<Rightarrow> archive_node \<Rightarrow> archive_node list \<Rightarrow> restore_proof_input" where
  "link_of H targets existing p n ms = \<lparr>link_hash = JString (node_hash n), link_source = source_input H n,
     link_createdAt = JBigInt (node_time n), link_params = params_of H targets existing p n ms\<rparr>"

lemma source_input_wf:
  assumes "host_ok H" "wf_node H n"
  shows "sourceFromArchive H (node_source n) = Inr (source_input H n)"
    and "source_kind (source_input H n) = archive_kind (node_source n)"
    and "archiveSource H (source_input H n) = Inr (node_source n)"
  using wf_sourceD [OF assms(1), of "node_source n"] assms(2)
  by (auto simp: source_input_def wf_node_def)

lemma snapshot_input_wf:
  assumes "host_ok H" "wf_snapshot H s"
  shows "snapshotFromArchive H s = Inr (snapshot_input H s)"
  using assms(2) key_textD [OF assms(1), of "as_owner s"] decimal_fieldD(2) [of u64_range]
  by (simp add: snapshotFromArchive_def snapshot_input_def wf_snapshot_def)

lemma member_fingerprints_wf:
  assumes "host_ok H" "wf_nodes H a" "\<forall>d \<in> set ds. get (arch_nodes a) d \<noteq> None"
  shows "mapE (member_fingerprint H a) ds = Inr (map (\<lambda>d. fingerprint_of (the (get (arch_nodes a) d))) ds)"
proof (rule mapE_map)
  fix d assume "d \<in> set ds"
  with assms(3) obtain m where m: "get (arch_nodes a) d = Some m" by auto
  then have "wf_node H m" by (rule wf_nodes_get [OF assms(2)])
  with m show "member_fingerprint H a d = Inr (fingerprint_of (the (get (arch_nodes a) d)))"
    by (simp add: member_fingerprint_def archive_record_def nodeFingerprint_wf [OF assms(1)] fingerprint_of_def)
qed

lemma proof_entry_wf:
  assumes "host_ok H" "wf_nodes H a" "get (arch_nodes a) p = Some n" "present_deps H a n = Some ms"
  shows "proof_entry H a targets existing p =
    (if archive_kind (node_source n) = KAccount \<and> node_snapshot n = None \<and> p \<notin> set existing
     then Inl (Error (''Missing Account snapshot: '' @ p)) else Inr (link_of H targets existing p n ms))"
proof -
  have n: "wf_node H n" by (rule wf_nodes_get [OF assms(2,3)])
  obtain ds where ds: "nodeDependencies H a n = Inr (Some ds)" "\<forall>d \<in> set ds. get (arch_nodes a) d \<noteq> None"
    "ms = map (\<lambda>d. the (get (arch_nodes a) d)) ds"
    using assms(4) by (auto simp: present_deps_def split: sum.splits option.splits if_splits)
  note fps = member_fingerprints_wf [OF assms(1,2) ds(2)]
  have snapshot: "snapshotFromArchive H s = Inr (snapshot_input H s)" if "node_snapshot n = Some s" for s
    using that n snapshot_input_wf [OF assms(1)] by (simp add: wf_node_def)
  have "entry_params H a targets existing p n (source_input H n) (Some ds) =
    (if archive_kind (node_source n) = KAccount \<and> node_snapshot n = None \<and> p \<notin> set existing
     then Inl (Error (''Missing Account snapshot: '' @ p)) else Inr (params_of H targets existing p n ms))"
  proof (cases "source_input H n")
    case SHash
    with source_input_wf(2) [OF assms(1) n] show ?thesis
      by (cases "node_source n") (simp_all add: entry_params_def params_of_def)
  next
    case (SAccount k)
    with source_input_wf(2) [OF assms(1) n] snapshot show ?thesis
      by (cases "node_source n"; cases "node_snapshot n") (simp_all add: entry_params_def params_of_def)
  next
    case (SBranch k b g)
    with source_input_wf(2) [OF assms(1) n] have kind: "archive_kind (node_source n) = KBranch" by simp
    then obtain d rest where d: "ds = d # rest"
      using nodeDependencies_nonempty(1) [OF n ds(1)] by (cases ds) auto
    have "member_fingerprint H a d = Inr (fingerprint_of (the (get (arch_nodes a) d)))"
      using member_fingerprints_wf [OF assms(1,2), of "[d]"] ds(2) by (simp add: d)
    with SBranch kind show ?thesis
      by (cases "node_source n") (simp_all add: entry_params_def params_of_def d ds(3))
  next
    case (SBatch ids)
    with source_input_wf(2) [OF assms(1) n] fps show ?thesis
      by (cases "node_source n") (simp_all add: entry_params_def params_of_def ds(3) comp_def)
  next
    case SPack
    with source_input_wf(2) [OF assms(1) n] fps show ?thesis
      by (cases "node_source n") (simp_all add: entry_params_def params_of_def ds(3) comp_def)
  qed
  then show ?thesis
    by (simp add: proof_entry_def archive_record_def assms(3) source_input_wf(1) [OF assms(1) n]
        node_time_wf(1) [OF assms(1) n] ds(1) link_of_def)
qed

text \<open>Every node of a complete dependency order has all its dependencies in it.\<close>

lemma order_present:
  assumes "dependencyOrder H a roots True = Inr order" "p \<in> set order"
  obtains n ds where "get (arch_nodes a) p = Some n" "nodeDependencies H a n = Inr (Some ds)"
    "set ds \<subseteq> set order" "present_deps H a n = Some (map (\<lambda>d. the (get (arch_nodes a) d)) ds)"
proof -
  note search = dependency_search_ok [OF assms(1) [unfolded dependencyOrder_def]]
  from search(4) assms(2) obtain n ds where n: "get (arch_nodes a) p = Some n" "nodeDependencies H a n = Inr (Some ds)"
    by (fastforce simp: expandable_def)
  have sub: "d \<in> set order" if "d \<in> set ds" for d
    by (rule topological_index [OF search(3) assms(2)]) (use n that in \<open>auto simp: edges_def wanted_def\<close>)
  moreover have "get (arch_nodes a) d \<noteq> None" if "d \<in> set ds" for d
    using search(4) sub [OF that] by (auto simp: expandable_def)
  ultimately show thesis
    by (intro that [OF n]) (use n in \<open>auto simp: present_deps_def\<close>)
qed

section \<open>Compiled proofs\<close>

text \<open>The compiled link of a node of a complete closure.\<close>

definition compiled_link ::
  "host \<Rightarrow> hash_archive \<Rightarrow> string list \<Rightarrow> string list \<Rightarrow> string \<Rightarrow> restore_proof_input" where
  "compiled_link H a targets existing p =
     (let n = the (get (arch_nodes a) p) in link_of H targets existing p n (the (present_deps H a n)))"

definition proof_order :: "string \<Rightarrow> string list \<Rightarrow> string list" where
  "proof_order anchor order = anchor # filter (\<lambda>pda. pda \<noteq> anchor) order"

definition snapshot_absent :: "hash_archive \<Rightarrow> string list \<Rightarrow> string \<Rightarrow> bool" where
  "snapshot_absent a existing p \<longleftrightarrow> p \<notin> set existing \<and>
     (\<exists>n. get (arch_nodes a) p = Some n \<and> archive_kind (node_source n) = KAccount \<and> node_snapshot n = None)"

lemma proof_order_set:
  assumes "dependencyOrder H a [anchor] True = Inr order"
  shows "set (proof_order anchor order) = set order" "distinct (proof_order anchor order)" "anchor \<in> set order"
proof -
  note search = dependency_search_ok [OF assms [unfolded dependencyOrder_def]]
  show "anchor \<in> set order" using search(1) by (auto simp: reach_def wanted_def)
  then show "set (proof_order anchor order) = set order" by (auto simp: proof_order_def)
  show "distinct (proof_order anchor order)" using search(2) by (simp add: proof_order_def)
qed

lemma proof_entries:
  assumes "host_ok H" "wf_nodes H a" "dependencyOrder H a roots True = Inr order" "set ids \<subseteq> set order"
  shows "mapE (proof_entry H a targets existing) ids = Inr links \<longleftrightarrow>
    (\<forall>p \<in> set ids. \<not> snapshot_absent a existing p) \<and> links = map (compiled_link H a targets existing) ids"
  using assms(4)
proof (induction ids arbitrary: links)
  case (Cons p ids)
  have "p \<in> set order" using Cons.prems by simp
  then obtain n ms where n: "get (arch_nodes a) p = Some n" "present_deps H a n = Some ms"
    by (rule order_present [OF assms(3)])
  have entry: "proof_entry H a targets existing p = (if snapshot_absent a existing p
      then Inl (Error (''Missing Account snapshot: '' @ p)) else Inr (compiled_link H a targets existing p))"
    unfolding proof_entry_wf [OF assms(1,2) n] by (simp add: snapshot_absent_def compiled_link_def n conj_commute conj_left_commute)
  show ?case using Cons by (auto simp: entry)
qed auto

lemma find_guard:
  "(case find P xs of Some x \<Rightarrow> Inl (f x) | None \<Rightarrow> k) = Inr r \<longleftrightarrow> (\<forall>x \<in> set xs. \<not> P x) \<and> k = Inr r"
  by (induction xs) auto

lemma buildRestoreProof_ok:
  assumes "host_ok H"
  shows "buildRestoreProof H input options = Inr links \<longleftrightarrow>
    (\<exists>a anchor order targets accounts. parseArchive H input = Inr a \<and>
       archivePublicKey H (JString (opt_anchor options)) ''address'' = Inr anchor \<and>
       dependencyOrder H a [anchor] True = Inr order \<and>
       mapE (\<lambda>pda. archivePublicKey H (JString pda) ''address'') (opt_targets options) = Inr targets \<and>
       distinct targets \<and> set targets \<subseteq> set order \<and>
       mapE (\<lambda>pda. archivePublicKey H (JString pda) ''address'')
         (case opt_existingAccounts options of None \<Rightarrow> [] | Some pdas \<Rightarrow> pdas) = Inr accounts \<and>
       (\<forall>p \<in> set order. \<not> snapshot_absent a (anchor # accounts) p) \<and>
       links = map (compiled_link H a targets (anchor # accounts)) (proof_order anchor order))"
proof -
  have entries: "mapE (proof_entry H a targets existing) (anchor # filter (\<lambda>pda. pda \<noteq> anchor) order) = Inr links \<longleftrightarrow>
      (\<forall>p \<in> set order. \<not> snapshot_absent a existing p) \<and>
      links = map (compiled_link H a targets existing) (proof_order anchor order)"
    if "parseArchive H input = Inr a" "dependencyOrder H a [anchor] True = Inr order" for a anchor order targets existing
    using proof_entries [OF assms wf_archive_nodes [OF parseArchive_wf [OF assms that(1)]] that(2),
        of "proof_order anchor order" targets existing links]
    unfolding proof_order_set(1) [OF that(2)] by (simp only: proof_order_def simp_thms order_refl)
  have targets: "(if \<not> distinct targets then Inl d
      else case find (\<lambda>target. target \<notin> set order) targets of Some t \<Rightarrow> Inl (f t) | None \<Rightarrow> k) = Inr links \<longleftrightarrow>
      distinct targets \<and> set targets \<subseteq> set order \<and> k = Inr links" for targets order :: "string list" and d f k
    by (auto simp: find_guard)
  show ?thesis
    unfolding buildRestoreProof_def bindE_ok targets using entries by blast
qed

lemma compiled_fields:
  assumes "host_ok H" "wf_archive H a" "get (arch_nodes a) p = Some n"
  shows "link_hash (compiled_link H a targets existing p) = JString (node_hash n)"
    and "link_createdAt (compiled_link H a targets existing p) = JBigInt (node_time n)"
    and "link_source (compiled_link H a targets existing p) = source_input H n"
    and "link_id H (compiled_link H a targets existing p) = Inr (node_id H n)"
proof -
  have n: "wf_node H n" by (rule wf_nodes_get [OF wf_archive_nodes [OF assms(2)] assms(3)])
  show "link_hash (compiled_link H a targets existing p) = JString (node_hash n)"
    "link_createdAt (compiled_link H a targets existing p) = JBigInt (node_time n)"
    "link_source (compiled_link H a targets existing p) = source_input H n"
    by (simp_all add: compiled_link_def link_of_def assms(3) Let_def)
  moreover have "hash_text (node_hash n)" using n by (simp add: wf_node_def)
  ultimately show "link_id H (compiled_link H a targets existing p) = Inr (node_id H n)"
    using source_input_wf(2) [OF assms(1) n] hash_textD [of "node_hash n"]
    by (simp add: link_id_def canonicalHashId_def node_id_def)
qed

end
