(* ===== verification/ProofImport.thy ===== *)
theory ProofImport
  imports RestoreProof
begin

text \<open>
  What a compiled Restore proof is worth: its fingerprints identify the dependencies, the
  instruction encoder accepts it, and \<open>archiveFromProof\<close> reads the archive records back.
\<close>

section \<open>Fingerprints\<close>

lemma fingerprint_of_id:
  assumes "host_ok H" "wf_node H m"
  shows "fingerprint_id H (fingerprint_of m) = Inr (node_id H m)"
  by (simp add: fingerprint_id_def fingerprint_of_def canonicalHashId_node [OF assms(2)])

lemma node_address:
  assumes "wf_archive H a" "get (arch_nodes a) p = Some n" "host_ok H"
  shows "deriveHashPda H (key_bytes H (arch_programId a)) (JBytes (node_id H n)) = Inr (key_bytes H p)"
    and "toBase58 H (key_bytes H p) = p" "wf_node H n"
proof -
  have e: "wf_entry H (arch_programId a) (p, n)"
    using assms(1) get_mem [OF assms(2)] by (auto simp: wf_archive_def list_all_iff)
  then show "deriveHashPda H (key_bytes H (arch_programId a)) (JBytes (node_id H n)) = Inr (key_bytes H p)"
    "toBase58 H (key_bytes H p) = p" "wf_node H n"
    using key_textD(2) [OF assms(3)] by (simp_all add: wf_entry_def)
qed

lemma fingerprint_of_pda:
  assumes "host_ok H" "wf_archive H a" "get (arch_nodes a) d = Some m"
  shows "fingerprint_pda H (key_bytes H (arch_programId a)) (fingerprint_of m) = Inr d"
  using node_address [OF assms(2,3,1)] by (simp add: fingerprint_pda_def fingerprint_of_id [OF assms(1)])

text \<open>The fingerprints of a link are those of the dependencies of its node, in their order.\<close>

lemma compiled_fingerprints:
  assumes "wf_node H n" "get (arch_nodes a) p = Some n" "nodeDependencies H a n = Inr (Some ds)"
    and "present_deps H a n = Some (map (\<lambda>d. the (get (arch_nodes a) d)) ds)"
  shows "link_fingerprints (compiled_link H a targets existing p) =
    map (\<lambda>d. fingerprint_of (the (get (arch_nodes a) d))) ds"
proof (cases "node_source n")
  case (ABranch q b g)
  then obtain d where "ds = [d]"
    using nodeDependencies_nonempty(2) [OF assms(1,3)] by (cases ds) auto
  with ABranch show ?thesis
    by (simp add: link_fingerprints_def compiled_link_def link_of_def params_of_def assms(2,4) Let_def)
next
  case AHash
  with assms(3) show ?thesis
    by (auto simp: link_fingerprints_def compiled_link_def link_of_def params_of_def assms(2) Let_def nodeDependencies_def)
next
  case (AAccount k)
  with assms(3) show ?thesis
    by (auto simp: link_fingerprints_def compiled_link_def link_of_def params_of_def assms(2) Let_def nodeDependencies_def)
qed (simp_all add: link_fingerprints_def compiled_link_def link_of_def params_of_def assms(2,4) Let_def comp_def)

section \<open>The encoder accepts compiled proofs\<close>

lemma encode_fingerprint_of:
  assumes "host_ok H" "wf_node H m"
  shows "\<exists>w. encodeFingerprint H (fingerprint_of m) = Inr w"
  using assms(2) node_time_wf(2) [OF assms] node_generation_wf [OF assms] hash_textD [of "node_hash m"]
  by (simp add: encodeFingerprint_def fingerprint_of_def normalizeSourceKind_def asI64_def asU64_def
      nonzero_i64_def i64_range_def u64_range_def wf_node_def bindE_def split: sum.splits)

lemma encode_source_input:
  assumes "host_ok H" "wf_node H n"
  shows "\<exists>w. encodeHashSource H (source_input H n) = Inr w"
proof -
  have "mapE (to32Bytes H) (map JString ids) = Inr (map bytes_of_hex ids)" if "list_all hash_text ids" for ids
    using that by (induction ids) (simp_all add: hash_textD)
  moreover have "wf_source H (node_source n)" using assms(2) by (simp add: wf_node_def)
  ultimately show ?thesis
    using source_input_wf(1) [OF assms] key_textD [OF assms(1)] hash_textD decimal_fieldD [of positive_u64]
    by (cases "node_source n")
      (auto simp: member_texts_ok_def asU64_ok positive_u64_def simp del: map_map dest!: sym [of _ "source_input H n"])
qed

lemma encode_snapshot_input:
  assumes "host_ok H" "wf_snapshot H s"
  shows "\<exists>w. encodeAccountSnapshot H (Some (snapshot_input H s)) = Inr w"
proof -
  obtain bs where "as_data s = map jbyte bs" using assms(2) by (metis byte_values_iff wf_snapshot_def)
  with assms(2) key_textD(1) [OF assms(1), of "as_owner s"] show ?thesis
    by (simp add: encodeAccountSnapshot_def snapshot_input_def wf_snapshot_def del: map_map)
qed

lemma compiled_encodes:
  assumes "host_ok H" "wf_archive H a" "dependencyOrder H a roots True = Inr order" "p \<in> set order"
  shows "\<exists>w. encode_link H (compiled_link H a targets existing p) = Inr w"
proof -
  obtain n ds where n: "get (arch_nodes a) p = Some n" "nodeDependencies H a n = Inr (Some ds)"
    "set ds \<subseteq> set order" "present_deps H a n = Some (map (\<lambda>d. the (get (arch_nodes a) d)) ds)"
    by (rule order_present [OF assms(3,4)])
  let ?ms = "map (\<lambda>d. the (get (arch_nodes a) d)) ds"
  have wf: "wf_node H n" by (rule wf_nodes_get [OF wf_archive_nodes [OF assms(2)] n(1)])
  have ms: "list_all (wf_node H) ?ms" by (rule present_deps_wf [OF wf_archive_nodes [OF assms(2)] n(4)])
  have fps: "\<exists>ws. mapE (encodeFingerprint H) (map fingerprint_of ms) = Inr ws" if "list_all (wf_node H) ms" for ms
    using that encode_fingerprint_of [OF assms(1)] by (induction ms) fastforce+
  have params: "\<exists>w. encodeRestoreParameters H params = Inr w" if "params_of H targets existing p n ?ms = Some params" for params
  proof (cases "node_source n")
    case AHash
    with that wf hash_textD(2) [of "node_hash n"] toBytes_hex [of H "bytes_of_hex (node_hash n)"] show ?thesis
      by (auto simp: params_of_def wf_node_def split: if_splits)
  next
    case (AAccount k)
    have "\<exists>w. encodeAccountSnapshot H (if p \<in> set existing then None
        else map_option (snapshot_input H) (node_snapshot n)) = Inr w"
      using encode_snapshot_input [OF assms(1)] wf
      by (cases "node_snapshot n") (auto simp: wf_node_def encodeAccountSnapshot_def)
    with AAccount that show ?thesis by (auto simp: params_of_def)
  next
    case (ABranch q b g)
    then have "?ms \<noteq> []" using present_deps_nonempty [OF wf n(4)] by simp
    from hd_in_set [OF this] ms have "wf_node H (hd ?ms)" unfolding list_all_iff by blast
    from encode_fingerprint_of [OF assms(1) this] ABranch that show ?thesis by (auto simp: params_of_def)
  next
    case (ABatch ids)
    with that fps [OF ms] show ?thesis by (auto simp: params_of_def simp del: map_map)
  next
    case APack
    with that fps [OF ms] show ?thesis by (auto simp: params_of_def simp del: map_map)
  qed
  have "to32Bytes H (JString (node_hash n)) = Inr (bytes_of_hex (node_hash n))"
    using wf hash_textD(3) by (simp add: wf_node_def)
  moreover have "asI64 H (JBigInt (node_time n)) = Inr (node_time n)"
    using node_time_wf(2) [OF assms(1) wf] by (simp add: asI64_ok nonzero_i64_def)
  moreover obtain w where "encodeHashSource H (source_input H n) = Inr w"
    using encode_source_input [OF assms(1) wf] by blast
  ultimately show ?thesis
    using params
    by (cases "params_of H targets existing p n ?ms")
      (auto simp: encode_link_def compiled_link_def link_of_def n(1,4) Let_def)
qed

section \<open>Importing a compiled proof\<close>

text \<open>No two ids of the archive share a program address: an id whose address is that of a node is
  the node's id. (A violation is a collision of the address derivation.)\<close>

definition no_collision :: "host \<Rightarrow> hash_archive \<Rightarrow> bool" where
  "no_collision H a \<longleftrightarrow> (\<forall>p n i. get (arch_nodes a) p = Some n \<longrightarrow> length i = 32 \<longrightarrow>
     deriveHashPda H (key_bytes H (arch_programId a)) (JBytes i) = Inr (key_bytes H p) \<longrightarrow> i = node_id H n)"

lemma dependency_id:
  assumes "host_ok H" "wf_archive H a" "no_collision H a" "hash_text i"
    and "node_pda H a i = Inr d" "get (arch_nodes a) d = Some m"
  shows "hex_of_bytes (node_id H m) = i"
proof -
  have "key_text H (arch_programId a)" using assms(2) by (simp add: wf_archive_def)
  with assms(5) obtain k where k: "deriveHashPda H (key_bytes H (arch_programId a)) (JString i) = Inr k" "d = toBase58 H k"
    by (auto simp: node_pda_def key_textD(3) [OF assms(1)])
  have "deriveHashPda H (key_bytes H (arch_programId a)) (JBytes (bytes_of_hex i)) = Inr (key_bytes H d)"
    using k hash_textD(1,3) [OF assms(4)] deriveHashPda_length [OF assms(1) k(1)] assms(1)
    by (simp add: deriveHashPda_def)
  with assms(3,6) hash_textD(1) [OF assms(4)] have "bytes_of_hex i = node_id H m"
    unfolding no_collision_def by blast
  then show ?thesis using hash_textD(2) [OF assms(4)] by simp
qed

lemma fingerprintId_of:
  assumes "host_ok H" "wf_node H m"
  shows "fingerprintId H (fingerprint_of m) = Inr (hex_of_bytes (node_id H m))"
  by (simp add: fingerprintId_def fingerprint_of_id [OF assms] archiveHex_ok node_id_def sha256_length [OF assms(1)])

lemma payload_check_self:
  assumes "hash_text s"
  shows "payload_check H (JString s) (JString s) = Inr ()"
proof -
  obtain b where b: "length b = 32" "s = hex_of_bytes b" using assms by (auto simp: hash_text_def)
  then have "b \<noteq> []" by auto
  with b show ?thesis by (simp add: payload_check_def archiveHex_def Let_def del: hex_of_bytes.simps)
qed

lemma dependency_ids:
  assumes "host_ok H" "wf_archive H a" "no_collision H a"
    and "list_all hash_text ids" "mapE (node_pda H a) ids = Inr ds" "\<forall>d \<in> set ds. get (arch_nodes a) d \<noteq> None"
  shows "map (\<lambda>d. hex_of_bytes (node_id H (the (get (arch_nodes a) d)))) ds = ids"
  using assms(4-6)
proof (induction ids arbitrary: ds)
  case (Cons i ids)
  then obtain d ds' where d: "node_pda H a i = Inr d" "mapE (node_pda H a) ids = Inr ds'" "ds = d # ds'" by auto
  with Cons.prems(3) obtain m where "get (arch_nodes a) d = Some m" by auto
  with dependency_id [OF assms(1-3) _ d(1) this] Cons d show ?case by simp
qed simp

lemma link_check_compiled:
  assumes "host_ok H" "wf_archive H a" "no_collision H a" "dependencyOrder H a roots True = Inr order" "p \<in> set order"
  shows "link_check H (compiled_link H a targets existing p) = Inr ()"
proof -
  obtain n ds where n: "get (arch_nodes a) p = Some n" "nodeDependencies H a n = Inr (Some ds)"
    "set ds \<subseteq> set order" "present_deps H a n = Some (map (\<lambda>d. the (get (arch_nodes a) d)) ds)"
    by (rule order_present [OF assms(4,5)])
  let ?get = "\<lambda>d. the (get (arch_nodes a) d)" and ?L = "compiled_link H a targets existing p"
  have wf: "wf_node H n" by (rule wf_nodes_get [OF wf_archive_nodes [OF assms(2)] n(1)])
  have present: "\<forall>d \<in> set ds. get (arch_nodes a) d \<noteq> None"
    using n(2,4) by (auto simp: present_deps_def split: if_splits)
  have member: "wf_node H (?get d)" if "d \<in> set ds" for d
    using present that wf_nodes_get [OF wf_archive_nodes [OF assms(2)]] by auto
  have actual: "mapE (fingerprintId H) (map (\<lambda>d. fingerprint_of (?get d)) ds) = Inr (map (\<lambda>d. hex_of_bytes (node_id H (?get d))) ds)"
    using mapE_map [of ds "\<lambda>d. fingerprintId H (fingerprint_of (?get d))"] fingerprintId_of [OF assms(1) member]
    by (simp add: mapE_ok list.rel_map)
  have fields: "link_hash ?L = JString (node_hash n)" "link_source ?L = source_input H n"
    "link_params ?L = params_of H targets existing p n (map ?get ds)"
    by (simp_all add: compiled_link_def link_of_def n(1,4) Let_def)
  have src: "sourceFromArchive H (node_source n) = Inr (source_input H n)" by (rule source_input_wf(1) [OF assms(1) wf])
  show ?thesis
  proof (cases "node_source n")
    case AHash
    with src have "source_input H n = SHash" by simp
    with AHash wf payload_check_self show ?thesis
      by (simp add: link_check_def fields params_of_def wf_node_def)
  next
    case (AAccount k)
    with src obtain v where "source_input H n = SAccount v" by (cases "source_input H n") auto
    with AAccount show ?thesis by (simp add: link_check_def fields params_of_def)
  next
    case (ABranch q b g)
    with src obtain i where "SBranch (JString q) (JString b) i = source_input H n" by auto
    note s = this [symmetric]
    from ABranch n(2) obtain d where d: "node_pda H a q = Inr d" "ds = [d]" by (auto simp: nodeDependencies_def)
    with present obtain m where m: "get (arch_nodes a) d = Some m" by auto
    have q: "hash_text q" using wf ABranch by (simp add: wf_node_def)
    from dependency_id [OF assms(1-3) q d(1) m] fingerprintId_of [OF assms(1) member] ABranch m d(2) q show ?thesis
      by (simp add: link_check_def fields params_of_def s archiveHex_id)
  next
    case (ABatch ids)
    with src have s: "source_input H n = SBatch (map JString ids)" by simp
    have ids: "list_all hash_text ids" using wf ABatch by (simp add: wf_node_def member_texts_ok_def)
    then have "mapE (archiveHex H) (map JString ids) = Inr ids" by (induction ids) (simp_all add: archiveHex_id)
    moreover have "mapE (node_pda H a) ids = Inr ds" using ABatch n(2) by (auto simp: nodeDependencies_def)
    note dependency_ids [OF assms(1-3) ids this present]
    ultimately show ?thesis
      using actual ABatch by (simp add: link_check_def fields params_of_def s comp_def)
  next
    case APack
    with src have "source_input H n = SPack" by simp
    with APack show ?thesis by (simp add: link_check_def fields params_of_def)
  qed
qed

text \<open>The record read back: the snapshot of an existing account is not in the proof.\<close>

definition imported :: "string list \<Rightarrow> string \<Rightarrow> archive_node \<Rightarrow> archive_node" where
  "imported existing p n = (if p \<in> set existing then n\<lparr>node_snapshot := None\<rparr> else n)"

lemma archiveSnapshot_input:
  assumes "host_ok H" "wf_snapshot H s"
  shows "archiveSnapshot H (snapshot_input H s) = Inr s"
proof -
  note s = assms(2) [unfolded wf_snapshot_def]
  obtain bs where bs: "as_data s = map jbyte bs" using s by (metis byte_values_iff)
  have "int_to_decimal (decimal_value (as_lamports s)) = as_lamports s"
    "int_to_decimal (decimal_value (as_rentEpoch s)) = as_rentEpoch s"
    using s decimal_fieldD(3) [of u64_range] by metis+
  with s bs key_textD(1,2) [OF assms(1)] show ?thesis
    by (cases s) (simp add: archiveSnapshot_def snapshot_input_def valueString_def spread_def del: map_map)
qed

lemma node_of_compiled:
  assumes "host_ok H" "wf_archive H a" "dependencyOrder H a roots True = Inr order" "p \<in> set order"
    and "get (arch_nodes a) p = Some n"
  shows "node_of_link H (key_bytes H (arch_programId a)) (compiled_link H a targets existing p) =
    Inr (imported existing p n)"
proof -
  obtain n' ds where n: "get (arch_nodes a) p = Some n'" "nodeDependencies H a n' = Inr (Some ds)"
    "set ds \<subseteq> set order" "present_deps H a n' = Some (map (\<lambda>d. the (get (arch_nodes a) d)) ds)"
    by (rule order_present [OF assms(3,4)])
  with assms(5) have n': "n' = n" by simp
  let ?get = "\<lambda>d. the (get (arch_nodes a) d)" and ?L = "compiled_link H a targets existing p"
  have wf: "wf_node H n" by (rule wf_nodes_get [OF wf_archive_nodes [OF assms(2)] assms(5)])
  have "fingerprint_pda H (key_bytes H (arch_programId a)) (fingerprint_of (?get d)) = Inr d" if "d \<in> set ds" for d
  proof -
    have "get (arch_nodes a) d = Some (?get d)"
      using n(2,4) that by (auto simp: present_deps_def split: if_splits)
    then show ?thesis by (rule fingerprint_of_pda [OF assms(1,2)])
  qed
  then have members: "mapE (fingerprint_pda H (key_bytes H (arch_programId a))) (map (\<lambda>d. fingerprint_of (?get d)) ds) = Inr ds"
    by (induction ds) auto
  have created: "valueString H (JBigInt (node_time n)) = Inr (node_createdAt n)"
    using wf decimal_fieldD(3) [of nonzero_i64 "node_createdAt n"] by (simp add: valueString_def node_time_def wf_node_def)
  note fields = compiled_fields(1-3) [OF assms(1,2,5), of targets existing]
  have params: "link_params ?L = params_of H targets existing p n (map ?get ds)"
    using n(4) by (simp add: compiled_link_def link_of_def assms(5) n' Let_def)
  have hash: "archiveHex H (JString (node_hash n)) = Inr (node_hash n)"
    using wf by (simp add: wf_node_def archiveHex_id)
  have mems: "node_members n = None" if "archive_kind (node_source n) \<noteq> KPack"
    using wf that by (auto simp: wf_node_def)
  have snaps: "node_snapshot n = None" if "archive_kind (node_source n) \<noteq> KAccount"
    using wf that by (auto simp: wf_node_def)
  have snapshot: "archiveSnapshot H (snapshot_input H s) = Inr s" if "node_snapshot n = Some s" for s
    using wf that archiveSnapshot_input [OF assms(1)] by (simp add: wf_node_def)
  have packed: "node_members n = Some ds" if "node_source n = APack"
    using that n(2) by (simp add: nodeDependencies_def n')
  have M: "(case link_params ?L of
         Some (PPack ms) \<Rightarrow> bindE (mapE (fingerprint_pda H (key_bytes H (arch_programId a))) ms) (\<lambda>ms. Inr (Some ms))
       | _ \<Rightarrow> Inr None) = Inr (node_members n)"
    using mems packed members by (cases "node_source n") (simp_all add: params params_of_def comp_def)
  have S: "(case link_params ?L of
         Some (PAccount (Some snapshot)) \<Rightarrow> bindE (archiveSnapshot H snapshot) (\<lambda>s. Inr (Some s))
       | _ \<Rightarrow> Inr None) = Inr (if p \<in> set existing then None else node_snapshot n)"
    using snaps snapshot by (cases "node_source n"; cases "node_snapshot n") (simp_all add: params params_of_def)
  have "imported existing p n = \<lparr>node_hash = node_hash n, node_source = node_source n, node_createdAt = node_createdAt n,
      node_members = node_members n, node_snapshot = (if p \<in> set existing then None else node_snapshot n)\<rparr>"
    by (cases n) (simp add: imported_def)
  then show ?thesis
    using source_input_wf(3) [OF assms(1) wf] hash created
    by (simp only: node_of_link_def fields M S bindE_simps)
qed

lemma import_compiled:
  assumes "host_ok H" "wf_archive H a" "no_collision H a" "dependencyOrder H a roots True = Inr order" "p \<in> set order"
    and "get (arch_nodes a) p = Some n" "get nodes p = None"
  shows "import_link H (key_bytes H (arch_programId a)) nodes (compiled_link H a targets existing p) =
    Inr (nodes @ [(p, imported existing p n)])"
proof -
  note n = node_address [OF assms(2,6,1)]
  have "hash_text (node_hash n)" using n(3) by (simp add: wf_node_def)
  then have "canonicalHashId H (link_hash (compiled_link H a targets existing p))
      (source_object (link_source (compiled_link H a targets existing p))) = Inr (node_id H n)"
    using source_input_wf(2) [OF assms(1) n(3)] hash_textD [of "node_hash n"]
    by (simp add: compiled_fields [OF assms(1,2,6)] canonicalHashId_def node_id_def)
  moreover have "put nodes p v = nodes @ [(p, v)]" for v
    using assms(7) by (simp add: put_new get_None_iff)
  ultimately show ?thesis
    using n assms(7)
    by (simp add: import_link_def link_check_compiled [OF assms(1-5)] node_of_compiled [OF assms(1,2,4,5,6)])
qed

lemma import_compiled_links:
  assumes "host_ok H" "wf_archive H a" "no_collision H a" "dependencyOrder H a roots True = Inr order"
    and "set ids \<subseteq> set order" "distinct ids" "set ids \<inter> set (keys nodes) = {}"
  shows "foldE (import_link H (key_bytes H (arch_programId a))) nodes (map (compiled_link H a targets existing) ids) =
    Inr (nodes @ map (\<lambda>p. (p, imported existing p (the (get (arch_nodes a) p)))) ids)"
  using assms(5-7)
proof (induction ids arbitrary: nodes)
  case (Cons p ids)
  then have p: "p \<in> set order" by simp
  obtain n where n: "get (arch_nodes a) p = Some n" by (rule order_present [OF assms(4) p])
  have "get nodes p = None" using Cons.prems(3) by (simp add: get_None_iff)
  note step = import_compiled [OF assms(1-4) p n this, of targets existing]
  have "set ids \<inter> set (keys (nodes @ [(p, imported existing p n)])) = {}" using Cons.prems by auto
  from Cons.IH [OF _ _ this] Cons.prems(1,2) show ?case by (simp add: step n)
qed simp

text \<open>The archive a compiled proof imports to.\<close>

definition imported_archive :: "hash_archive \<Rightarrow> string list \<Rightarrow> string list \<Rightarrow> hash_archive" where
  "imported_archive a existing ids =
     a\<lparr>arch_nodes := map (\<lambda>p. (p, imported existing p (the (get (arch_nodes a) p)))) ids\<rparr>"

lemma get_map_keys: "get (map (\<lambda>p. (p, f p)) ids) p = (if p \<in> set ids then Some (f p) else None)"
  by (induction ids) auto

lemma imported_archive_part:
  assumes "distinct ids" "\<forall>p \<in> set ids. get (arch_nodes a) p \<noteq> None"
  shows "part_of (imported_archive a existing ids) a"
  using assms by (auto simp: part_of_def imported_archive_def get_map_keys comp_def imported_def
      node_below_iff same_core_def split: if_splits)

lemma check_imported:
  assumes "host_ok H" "wf_archive H a" "d \<in> set ids" "get (arch_nodes a) d = Some m"
  shows "check_fingerprint H (key_bytes H (arch_programId a)) (imported_archive a existing ids) (fingerprint_of m) = Inr ()"
proof -
  have wf: "wf_node H m" by (rule wf_nodes_get [OF wf_archive_nodes [OF assms(2)] assms(4)])
  have "int_to_decimal (node_time m) = node_createdAt m"
    using wf decimal_fieldD(3) [of nonzero_i64 "node_createdAt m"] by (simp add: node_time_def wf_node_def)
  moreover have "generation_text (imported existing d m) = int_to_decimal (node_generation m)"
    using wf decimal_fieldD(3) [of positive_u64] int_to_decimal_0
    by (cases "node_source m") (simp_all add: generation_text_def node_generation_def imported_def wf_node_def)
  moreover have "node_createdAt (imported existing d m) = node_createdAt m" by (simp add: imported_def)
  moreover have "get (arch_nodes (imported_archive a existing ids)) d = Some (imported existing d m)"
    using assms(3,4) by (simp add: imported_archive_def get_map_keys)
  moreover have "valueString H (fp_createdAt (fingerprint_of m)) = Inr (int_to_decimal (node_time m))"
    "valueString H (fp_generation (fingerprint_of m)) = Inr (int_to_decimal (node_generation m))"
    by (simp_all add: fingerprint_of_def valueString_def)
  ultimately show ?thesis
    by (simp add: check_fingerprint_def fingerprint_of_pda [OF assms(1,2,4)] Let_def)
qed

text \<open>Importing the links of a closed set of nodes reads their records back.\<close>

lemma import_proof:
  assumes "host_ok H" "wf_archive H a" "no_collision H a" "dependencyOrder H a roots True = Inr order"
    and "set ids = set order" "distinct ids"
  shows "archiveFromProof H (arch_programId a) (map (compiled_link H a targets existing) ids) =
    Inr (imported_archive a existing ids)"
proof -
  have present: "\<forall>p \<in> set ids. get (arch_nodes a) p \<noteq> None"
    using order_present [OF assms(4)] assms(5) by (metis option.distinct(1))
  have wf: "wf_archive H (imported_archive a existing ids)"
    by (rule wf_archive_part [OF assms(1,2) imported_archive_part [OF assms(6) present]])
  let ?links = "map (compiled_link H a targets existing) ids"
  have "check_fingerprint H (key_bytes H (arch_programId a)) (imported_archive a existing ids) f = Inr ()"
    if f: "p \<in> set ids" "f \<in> set (link_fingerprints (compiled_link H a targets existing p))" for p f
  proof -
    have p: "p \<in> set order" using f(1) assms(5) by auto
    obtain n ds where n: "get (arch_nodes a) p = Some n" "nodeDependencies H a n = Inr (Some ds)"
      "set ds \<subseteq> set order" "present_deps H a n = Some (map (\<lambda>d. the (get (arch_nodes a) d)) ds)"
      by (rule order_present [OF assms(4) p])
    have "wf_node H n" by (rule wf_nodes_get [OF wf_archive_nodes [OF assms(2)] n(1)])
    from f(2) compiled_fingerprints [OF this n(1,2,4)] obtain d where
      d: "d \<in> set ds" "f = fingerprint_of (the (get (arch_nodes a) d))" by auto
    then have "d \<in> set ids" using n(3) assms(5) by auto
    moreover from this present obtain m where "get (arch_nodes a) d = Some m" by auto
    ultimately show ?thesis using check_imported [OF assms(1,2)] d(2) by simp
  qed
  then have "mapE (check_fingerprint H (key_bytes H (arch_programId a)) (imported_archive a existing ids))
      (concat (map link_fingerprints ?links)) = Inr (map (\<lambda>_. ()) (concat (map link_fingerprints ?links)))"
    by (intro mapE_map) auto
  moreover have "publicKeyOf H (arch_programId a) = Inr (key_bytes H (arch_programId a))"
    using assms(2) key_textD(3) [OF assms(1)] by (simp add: wf_archive_def)
  moreover have "foldE (import_link H (key_bytes H (arch_programId a))) [] (map (compiled_link H a targets existing) ids) =
      Inr (arch_nodes (imported_archive a existing ids))"
    using import_compiled_links [OF assms(1-4) _ assms(6), of "[]"] assms(5) by (simp add: imported_archive_def)
  moreover have "(a\<lparr>arch_nodes := []\<rparr>)\<lparr>arch_nodes := arch_nodes (imported_archive a existing ids)\<rparr> =
      imported_archive a existing ids"
    by (simp add: imported_archive_def)
  ultimately show ?thesis
    by (simp add: archiveFromProof_def createArchive_wf [OF assms(1,2)] parseArchive_value [OF assms(1) wf]
        del: map_map)
qed

section \<open>The demonstration proof\<close>

definition demo_options :: archive_proof_options where
  "demo_options = \<lparr>opt_anchor = demo_key demo_batch_id, opt_targets = [demo_key (demo_id 0 1)],
     opt_existingAccounts = None\<rparr>"

lemma demo_address: "length k = 32 \<Longrightarrow> archivePublicKey demo_host (JString (demo_key k)) path = Inr (demo_key k)"
  by (simp add: archivePublicKey_def)

lemma demo_batch_order:
  "dependencyOrder demo_host demo_archive [demo_key demo_batch_id] True =
     Inr [demo_key (demo_id 0 1), demo_key (demo_id 2 2), demo_key demo_batch_id]"
  by (simp add: dependencyOrder_def dependency_search_def demo_nodes demo_dependencies search.simps)

lemma demo_proof:
  "buildRestoreProof demo_host (archive_value demo_archive) demo_options =
     Inr (map (compiled_link demo_host demo_archive [demo_key (demo_id 0 1)] [demo_key demo_batch_id])
       [demo_key demo_batch_id, demo_key (demo_id 0 1), demo_key (demo_id 2 2)])"
  unfolding buildRestoreProof_ok [OF demo_host_ok]
proof (intro exI conjI)
  show "parseArchive demo_host (archive_value demo_archive) = Inr demo_archive" by (rule demo_parsed(1))
  show "archivePublicKey demo_host (JString (opt_anchor demo_options)) ''address'' = Inr (demo_key demo_batch_id)"
    by (simp add: demo_options_def demo_address)
  show "dependencyOrder demo_host demo_archive [demo_key demo_batch_id] True =
     Inr [demo_key (demo_id 0 1), demo_key (demo_id 2 2), demo_key demo_batch_id]" by (rule demo_batch_order)
  show "mapE (\<lambda>pda. archivePublicKey demo_host (JString pda) ''address'') (opt_targets demo_options) =
      Inr [demo_key (demo_id 0 1)]"
    by (simp add: demo_options_def demo_address)
  show "mapE (\<lambda>pda. archivePublicKey demo_host (JString pda) ''address'')
      (case opt_existingAccounts demo_options of None \<Rightarrow> [] | Some pdas \<Rightarrow> pdas) = Inr []"
    by (simp add: demo_options_def)
  show "\<forall>p \<in> set [demo_key (demo_id 0 1), demo_key (demo_id 2 2), demo_key demo_batch_id].
      \<not> snapshot_absent demo_archive [demo_key demo_batch_id] p"
    by (simp add: snapshot_absent_def demo_nodes demo_leaf_def demo_branch_def)
qed (simp_all add: proof_order_def)

lemma demo_no_collision: "no_collision demo_host demo_archive"
proof -
  have "i = node_id demo_host n"
    if "get (arch_nodes demo_archive) p = Some n" "length i = 32" "i = key_bytes demo_host p" for p n i
    using that by (auto simp: demo_nodes demo_node_ids split: if_splits)
  then show ?thesis by (simp add: no_collision_def)
qed

section \<open>Properties\<close>

text \<open>C15: a compiled proof starts with the anchor and then lists every other node reachable from
  it, once each: the link at a position carries the hash, source and timestamp of that node and
  has its canonical id.\<close>

theorem buildRestoreProof_links:
  assumes "host_ok H" "parseArchive H input = Inr a"
    and "archivePublicKey H (JString (opt_anchor options)) ''address'' = Inr anchor"
    and "buildRestoreProof H input options = Inr links"
  shows "\<exists>ids. ids \<noteq> [] \<and> hd ids = anchor \<and> distinct ids \<and>
    set ids = {p. (anchor, p) \<in> (dependency_edges H a)\<^sup>*} \<and>
    list_all2 (\<lambda>p link. \<exists>n. get (arch_nodes a) p = Some n \<and>
      link_hash link = JString (node_hash n) \<and> archiveSource H (link_source link) = Inr (node_source n) \<and>
      link_createdAt link = JBigInt (node_time n) \<and> link_id H link = Inr (node_id H n)) ids links"
proof -
  obtain order targets accounts where order: "dependencyOrder H a [anchor] True = Inr order"
    and links: "links = map (compiled_link H a targets (anchor # accounts)) (proof_order anchor order)"
    using assms(2-4) by (auto simp: buildRestoreProof_ok [OF assms(1)])
  note ids = proof_order_set [OF order]
  have wf: "wf_archive H a" by (rule parseArchive_wf [OF assms(1,2)])
  have "\<exists>n. get (arch_nodes a) p = Some n \<and> link_hash link = JString (node_hash n) \<and>
      archiveSource H (link_source link) = Inr (node_source n) \<and> link_createdAt link = JBigInt (node_time n) \<and>
      link_id H link = Inr (node_id H n)"
    if "p \<in> set (proof_order anchor order)" "link = compiled_link H a targets (anchor # accounts) p" for p link
  proof -
    have "p \<in> set order" using that(1) by (simp only: ids(1))
    then obtain n where n: "get (arch_nodes a) p = Some n" by (rule order_present [OF order])
    moreover have "wf_node H n" by (rule wf_nodes_get [OF wf_archive_nodes [OF wf] n])
    ultimately show ?thesis
      using compiled_fields [OF assms(1) wf n] source_input_wf(3) [OF assms(1)] that(2) by simp
  qed
  then have "list_all2 (\<lambda>p link. \<exists>n. get (arch_nodes a) p = Some n \<and>
      link_hash link = JString (node_hash n) \<and> archiveSource H (link_source link) = Inr (node_source n) \<and>
      link_createdAt link = JBigInt (node_time n) \<and> link_id H link = Inr (node_id H n)) (proof_order anchor order) links"
    unfolding links list.rel_map by (intro list.rel_refl_strong) blast
  moreover have "set order = {p. (anchor, p) \<in> (dependency_edges H a)\<^sup>*}"
    using dependency_search_ok(1) [OF order [unfolded dependencyOrder_def]] by (auto simp: reach_def wanted_def)
  moreover have "proof_order anchor order \<noteq> []" "hd (proof_order anchor order) = anchor"
    by (simp_all add: proof_order_def)
  ultimately show ?thesis using ids(1,2) by blast
qed

lemma buildRestoreProof_links_witness:
  "\<exists>ids. hd ids = demo_key demo_batch_id \<and>
     set ids = {p. (demo_key demo_batch_id, p) \<in> (dependency_edges demo_host demo_archive)\<^sup>*}"
  using buildRestoreProof_links [OF demo_host_ok demo_parsed(1) _ demo_proof] 
  by (auto simp: demo_options_def demo_address)

text \<open>C16: what each compiled link materializes. The link of a node has its hash, source and timestamp,
  and parameters of the node's own kind: a raw hash has its own hash as payload when it is a
  target and no parameters otherwise; an account has its archived snapshot, or none when its
  record is the anchor or listed as existing; a branch has the fingerprint of its one
  dependency, a batch and a pack those of all their dependencies in order. A fingerprint holds the
  dependency's archived hash, kind, timestamp and generation, and derives its address.\<close>

theorem buildRestoreProof_params:
  assumes "host_ok H" "parseArchive H input = Inr a"
    and "archivePublicKey H (JString (opt_anchor options)) ''address'' = Inr anchor"
    and "mapE (\<lambda>pda. archivePublicKey H (JString pda) ''address'') (opt_targets options) = Inr targets"
    and "mapE (\<lambda>pda. archivePublicKey H (JString pda) ''address'')
      (case opt_existingAccounts options of None \<Rightarrow> [] | Some pdas \<Rightarrow> pdas) = Inr accounts"
    and "buildRestoreProof H input options = Inr links" "link \<in> set links"
  shows "\<exists>p n ds ms. get (arch_nodes a) p = Some n \<and> link_id H link = Inr (node_id H n) \<and>
    link_hash link = JString (node_hash n) \<and> sourceFromArchive H (node_source n) = Inr (link_source link) \<and>
    link_createdAt link = JBigInt (decimal_value (node_createdAt n)) \<and>
    nodeDependencies H a n = Inr (Some ds) \<and> list_all2 (\<lambda>d m. get (arch_nodes a) d = Some m) ds ms \<and>
    (let fingerprint = (\<lambda>m. \<lparr>fp_hash = JString (node_hash m),
         fp_sourceKind = jint (int (kind_number (archive_kind (node_source m)))),
         fp_createdAt = JBigInt (decimal_value (node_createdAt m)),
         fp_generation = JBigInt (case node_source m of ABranch i j g \<Rightarrow> decimal_value g | _ \<Rightarrow> 0)\<rparr>) in
     mapE (fingerprint_pda H (key_bytes H (arch_programId a))) (map fingerprint ms) = Inr ds \<and>
     (case node_source n of
        AHash \<Rightarrow> link_params link = (if p \<in> set targets then Some (PHash (JString (node_hash n))) else None)
      | AAccount k \<Rightarrow> if p = anchor \<or> p \<in> set accounts then link_params link = Some (PAccount None)
          else (\<exists>x y. link_params link = Some (PAccount (Some x)) \<and> archiveSnapshot H x = Inr y \<and> node_snapshot n = Some y)
      | ABranch i j g \<Rightarrow> \<exists>m. ms = [m] \<and> link_params link = Some (PBranch (fingerprint m))
      | ABatch ids \<Rightarrow> link_params link = Some (PBatch (map fingerprint ms))
      | APack \<Rightarrow> link_params link = Some (PPack (map fingerprint ms))))"
proof -
  obtain order where order: "dependencyOrder H a [anchor] True = Inr order"
    and absent: "\<forall>p \<in> set order. \<not> snapshot_absent a (anchor # accounts) p"
    and links: "links = map (compiled_link H a targets (anchor # accounts)) (proof_order anchor order)"
    using assms(2-6) by (auto simp: buildRestoreProof_ok [OF assms(1)])
  have wf: "wf_archive H a" by (rule parseArchive_wf [OF assms(1,2)])
  from assms(7) links obtain p where "p \<in> set (proof_order anchor order)"
    and link: "link = compiled_link H a targets (anchor # accounts) p" by auto
  then have p: "p \<in> set order" by (simp only: proof_order_set(1) [OF order])
  define node where "node d = the (get (arch_nodes a) d)" for d
  obtain n ds where n: "get (arch_nodes a) p = Some n" "nodeDependencies H a n = Inr (Some ds)"
    "set ds \<subseteq> set order" "present_deps H a n = Some (map node ds)"
    using order_present [OF order p] unfolding node_def by metis
  have wfn: "wf_node H n" by (rule wf_nodes_get [OF wf_archive_nodes [OF wf] n(1)])
  have nodes: "get (arch_nodes a) d = Some (node d)" if "d \<in> set ds" for d
    using n(2,4) that by (auto simp: node_def present_deps_def split: if_splits)
  then have found: "list_all2 (\<lambda>d m. get (arch_nodes a) d = Some m) ds (map node ds)"
    by (simp add: list.rel_map list_all2_same)
  have "fingerprint_pda H (key_bytes H (arch_programId a)) (fingerprint_of (node d)) = Inr d" if "d \<in> set ds" for d
    by (rule fingerprint_of_pda [OF assms(1) wf nodes [OF that]])
  then have fps: "mapE (fingerprint_pda H (key_bytes H (arch_programId a))) (map fingerprint_of (map node ds)) = Inr ds"
    by (induction ds) auto
  have params: "link_params link = params_of H targets (anchor # accounts) p n (map node ds)"
    by (simp add: link compiled_link_def link_of_def n(1,4) Let_def)
  have fields: "link_hash link = JString (node_hash n)" "link_id H link = Inr (node_id H n)"
    "link_createdAt link = JBigInt (decimal_value (node_createdAt n))" "link_source link = source_input H n"
    using compiled_fields [OF assms(1) wf n(1)] link by (simp_all add: node_time_def)
  have source: "sourceFromArchive H (node_source n) = Inr (link_source link)"
    unfolding fields(4) by (rule source_input_wf(1) [OF assms(1) wfn])
  have snapshot: "archiveSnapshot H (snapshot_input H s) = Inr s" if "node_snapshot n = Some s" for s
    using wfn that archiveSnapshot_input [OF assms(1)] by (simp add: wf_node_def)
  have single: "\<exists>d. ds = [d]" if "node_source n = ABranch i j g" for i j g
    using nodeDependencies_nonempty(2) [OF wfn n(2)] that by (cases ds) auto
  have kinds: "case node_source n of
        AHash \<Rightarrow> link_params link = (if p \<in> set targets then Some (PHash (JString (node_hash n))) else None)
      | AAccount k \<Rightarrow> if p = anchor \<or> p \<in> set accounts then link_params link = Some (PAccount None)
          else (\<exists>x y. link_params link = Some (PAccount (Some x)) \<and> archiveSnapshot H x = Inr y \<and> node_snapshot n = Some y)
      | ABranch i j g \<Rightarrow> \<exists>m. map node ds = [m] \<and> link_params link = Some (PBranch (fingerprint_of m))
      | ABatch ids \<Rightarrow> link_params link = Some (PBatch (map fingerprint_of (map node ds)))
      | APack \<Rightarrow> link_params link = Some (PPack (map fingerprint_of (map node ds)))"
  proof (cases "node_source n")
    case (AAccount k)
    have "p \<in> set (anchor # accounts) \<or> node_snapshot n \<noteq> None"
      using absent p n(1) AAccount by (auto simp: snapshot_absent_def)
    with snapshot show ?thesis by (auto simp: AAccount params params_of_def)
  next
    case (ABranch i j g)
    with single [OF ABranch] show ?thesis by (auto simp: params params_of_def)
  qed (simp_all add: params params_of_def)
  show ?thesis
    using kinds fps unfolding Let_def node_time_def [symmetric] node_generation_def [symmetric] fingerprint_of_def [symmetric]
    by (intro exI [of _ p] exI [of _ n] exI [of _ ds] exI [of _ "map node ds"])
      (use n(1,2) found fields source in \<open>simp add: node_time_def del: map_map\<close>)
qed

lemma demo_options_parsed:
  "archivePublicKey demo_host (JString (opt_anchor demo_options)) ''address'' = Inr (demo_key demo_batch_id)"
  "mapE (\<lambda>pda. archivePublicKey demo_host (JString pda) ''address'') (opt_targets demo_options) = Inr [demo_key (demo_id 0 1)]"
  "mapE (\<lambda>pda. archivePublicKey demo_host (JString pda) ''address'')
      (case opt_existingAccounts demo_options of None \<Rightarrow> [] | Some pdas \<Rightarrow> pdas) = Inr []"
  by (simp_all add: demo_options_def demo_address)

text \<open>The batch of the demonstration archive, with the fingerprints of its two members.\<close>

lemma buildRestoreProof_params_witness:
  "\<exists>ms. link_params (compiled_link demo_host demo_archive [demo_key (demo_id 0 1)] [demo_key demo_batch_id]
       (demo_key demo_batch_id)) = Some (PBatch (map (\<lambda>m. \<lparr>fp_hash = JString (node_hash m),
         fp_sourceKind = jint (int (kind_number (archive_kind (node_source m)))),
         fp_createdAt = JBigInt (decimal_value (node_createdAt m)),
         fp_generation = JBigInt (case node_source m of ABranch i j g \<Rightarrow> decimal_value g | _ \<Rightarrow> 0)\<rparr>) ms)) \<and>
     ms = [demo_leaf, demo_branch]"
proof -
  let ?link = "compiled_link demo_host demo_archive [demo_key (demo_id 0 1)] [demo_key demo_batch_id] (demo_key demo_batch_id)"
  have "?link \<in> set (map (compiled_link demo_host demo_archive [demo_key (demo_id 0 1)] [demo_key demo_batch_id])
        [demo_key demo_batch_id, demo_key (demo_id 0 1), demo_key (demo_id 2 2)])"
    by simp
  note facts = buildRestoreProof_params [OF demo_host_ok demo_parsed(1) demo_options_parsed demo_proof this, unfolded Let_def]
  from facts obtain p n ds ms where found: "get (arch_nodes demo_archive) p = Some n" "link_id demo_host ?link = Inr (node_id demo_host n)"
    "nodeDependencies demo_host demo_archive n = Inr (Some ds)" "list_all2 (\<lambda>d m. get (arch_nodes demo_archive) d = Some m) ds ms"
    and params: "node_source n = ABatch ids \<Longrightarrow> link_params ?link = Some (PBatch (map (\<lambda>m. \<lparr>fp_hash = JString (node_hash m),
         fp_sourceKind = jint (int (kind_number (archive_kind (node_source m)))),
         fp_createdAt = JBigInt (decimal_value (node_createdAt m)),
         fp_generation = JBigInt (case node_source m of ABranch i j g \<Rightarrow> decimal_value g | _ \<Rightarrow> 0)\<rparr>) ms))" for ids
    by (elim exE conjE) (rule that, assumption+, simp only: archive_source.case)
  have wf: "wf_archive demo_host demo_archive" by (rule parseArchive_wf [OF demo_host_ok demo_parsed(1)])
  have "get (arch_nodes demo_archive) (demo_key demo_batch_id) = Some demo_batch" by (simp add: demo_nodes)
  from compiled_fields(4) [OF demo_host_ok wf this] found(2) have "node_id demo_host n = demo_batch_id"
    by (simp add: demo_node_ids)
  with get_mem [OF found(1)] have n: "n = demo_batch" by (auto simp: demo_nodes demo_node_ids)
  have "ds = [demo_key (demo_id 0 1), demo_key (demo_id 2 2)]" using found(3) by (simp add: n demo_dependencies)
  with found(4) have "ms = [demo_leaf, demo_branch]" by (auto simp: demo_nodes list_all2_Cons1)
  with params n show ?thesis by (simp add: demo_batch_def)
qed

text \<open>C17: the compiler decides: on a decodable archive and valid addresses it compiles a proof
  exactly when the closure of the anchor is complete and acyclic, the targets are distinct and
  in it, and every account in it that is neither the anchor nor listed as existing has a
  snapshot.\<close>

theorem buildRestoreProof_decides:
  assumes "host_ok H" "parseArchive H input = Inr a"
    and "archivePublicKey H (JString (opt_anchor options)) ''address'' = Inr anchor"
    and "mapE (\<lambda>pda. archivePublicKey H (JString pda) ''address'') (opt_targets options) = Inr targets"
    and "mapE (\<lambda>pda. archivePublicKey H (JString pda) ''address'')
      (case opt_existingAccounts options of None \<Rightarrow> [] | Some pdas \<Rightarrow> pdas) = Inr accounts"
  shows "(\<exists>links. buildRestoreProof H input options = Inr links) \<longleftrightarrow>
    (\<exists>order. dependencyOrder H a [anchor] True = Inr order \<and> distinct targets \<and> set targets \<subseteq> set order \<and>
      (\<forall>p \<in> set order. \<forall>n k. get (arch_nodes a) p = Some n \<longrightarrow> node_source n = AAccount k \<longrightarrow>
        node_snapshot n \<noteq> None \<or> p = anchor \<or> p \<in> set accounts))"
proof -
  have kind: "archive_kind (node_source n) = KAccount \<longleftrightarrow> (\<exists>k. node_source n = AAccount k)" for n
    by (cases "node_source n") auto
  have "(\<exists>links. buildRestoreProof H input options = Inr links) \<longleftrightarrow>
    (\<exists>order. dependencyOrder H a [anchor] True = Inr order \<and> distinct targets \<and> set targets \<subseteq> set order \<and>
      (\<forall>p \<in> set order. \<not> snapshot_absent a (anchor # accounts) p))"
    unfolding buildRestoreProof_ok [OF assms(1)] assms(2-5) sum.inject by blast
  moreover have "\<not> snapshot_absent a (anchor # accounts) p \<longleftrightarrow>
      (\<forall>n k. get (arch_nodes a) p = Some n \<longrightarrow> node_source n = AAccount k \<longrightarrow>
        node_snapshot n \<noteq> None \<or> p = anchor \<or> p \<in> set accounts)" for p
    by (auto simp: snapshot_absent_def kind)
  ultimately show ?thesis by (simp only:)
qed

text \<open>The demonstration pack cannot be proved from an archive without its member.\<close>

lemma buildRestoreProof_decides_witness:
  "\<nexists>links. buildRestoreProof demo_host (archive_value demo_partial)
     \<lparr>opt_anchor = demo_key (demo_id 2 2), opt_targets = [], opt_existingAccounts = None\<rparr> = Inr links"
proof -
  let ?o = "\<lparr>opt_anchor = demo_key (demo_id 2 2), opt_targets = [], opt_existingAccounts = None\<rparr>"
  have o: "archivePublicKey demo_host (JString (opt_anchor ?o)) ''address'' = Inr (demo_key (demo_id 2 2))"
    "mapE (\<lambda>pda. archivePublicKey demo_host (JString pda) ''address'') (opt_targets ?o) = Inr []"
    "mapE (\<lambda>pda. archivePublicKey demo_host (JString pda) ''address'')
      (case opt_existingAccounts ?o of None \<Rightarrow> [] | Some pdas \<Rightarrow> pdas) = Inr []"
    by (simp_all add: demo_address)
  have "\<nexists>order. dependencyOrder demo_host demo_partial [demo_key (demo_id 2 2)] True = Inr order"
    by (simp add: dependencyOrder_def dependency_search_def demo_nodes demo_dependencies search.simps)
  then show ?thesis
    unfolding buildRestoreProof_decides [OF demo_host_ok demo_parsed(2) o] by blast
qed

text \<open>C7: the instruction encoder accepts every compiled proof: \<open>prepareRestore\<close> never fails on
  it, its anchor is the canonical id of the anchor node, and the ids it asks to restore are
  those of the other nodes in proof order, without the raw hashes that are not targets; the
  anchor is never among them.\<close>

theorem prepareRestore_compiled:
  assumes "host_ok H" "parseArchive H input = Inr a"
    and "archivePublicKey H (JString (opt_anchor options)) ''address'' = Inr anchor"
    and "buildRestoreProof H input options = Inr links"
  shows "\<exists>r n. prepareRestore H links True = Inr r \<and>
    get (arch_nodes a) anchor = Some n \<and> anchorId r = node_id H n \<and> anchorId r \<notin> set (restoredIds r) \<and>
    length (proofEncoded r) = length links \<and>
    mapE (link_id H) (filter (\<lambda>link. link_params link \<noteq> None) (tl links)) = Inr (restoredIds r)"
proof -
  obtain order targets accounts where order: "dependencyOrder H a [anchor] True = Inr order"
    and links: "links = map (compiled_link H a targets (anchor # accounts)) (proof_order anchor order)"
    using assms(2-4) by (auto simp: buildRestoreProof_ok [OF assms(1)])
  let ?link = "compiled_link H a targets (anchor # accounts)" and ?get = "\<lambda>p. the (get (arch_nodes a) p)"
  have wf: "wf_archive H a" by (rule parseArchive_wf [OF assms(1,2)])
  have present: "get (arch_nodes a) p = Some (?get p)" if "p \<in> set order" for p
    by (rule order_present [OF order that]) simp
  have id: "link_id H (?link p) = Inr (node_id H (?get p))" if "p \<in> set order" for p
    by (rule compiled_fields(4) [OF assms(1) wf present [OF that]])
  define rest where "rest = filter (\<lambda>pda. pda \<noteq> anchor) order"
  have order': "proof_order anchor order = anchor # rest" by (simp add: proof_order_def rest_def)
  define sel where "sel = filter (\<lambda>p. link_params (?link p) \<noteq> None) rest"
  have "\<exists>w. encode_link H (?link p) = Inr w" if "p \<in> set order" for p
    by (rule compiled_encodes [OF assms(1) wf order that])
  then obtain enc where enc: "\<And>p. p \<in> set order \<Longrightarrow> encode_link H (?link p) = Inr (enc p)" by metis
  have "mapE (encode_link H) (map ?link ps) = Inr (map enc ps)" if "set ps \<subseteq> set order" for ps
    using that by (induction ps) (auto simp: enc)
  then have encoded: "mapE (encode_link H) links = Inr (map enc (proof_order anchor order))"
    using proof_order_set(1) [OF order] unfolding links by blast
  have selection: "restore_selection links True = map ?link sel"
    by (simp add: restore_selection_def links order' sel_def filter_map comp_def)
  have ids: "mapE (link_id H) (map ?link ps) = Inr (map (\<lambda>p. node_id H (?get p)) ps)" if "set ps \<subseteq> set order" for ps
    using that by (induction ps) (auto simp: id)
  have sel: "set sel \<subseteq> set order" "anchor \<notin> set sel" by (auto simp: sel_def rest_def)
  have "node_id H (?get p) \<noteq> node_id H (?get anchor)" if "p \<in> set order" "p \<noteq> anchor" for p
    using node_address(1,2) [OF wf present [OF that(1)] assms(1)] that(2)
      node_address(1,2) [OF wf present [OF proof_order_set(3) [OF order]] assms(1)] by (metis sum.inject(2))
  then have fresh: "node_id H (?get anchor) \<notin> set (map (\<lambda>p. node_id H (?get p)) sel)"
    using sel unfolding set_map image_iff by (metis subsetD)
  let ?r = "\<lparr>proofEncoded = map enc (proof_order anchor order), anchorId = node_id H (?get anchor),
    restoredIds = map (\<lambda>p. node_id H (?get p)) sel\<rparr>"
  have "prepareRestore H links True = Inr ?r"
    unfolding prepareRestore_ok selection using encoded ids [OF sel(1)] fresh id [OF proof_order_set(3) [OF order]]
    by (simp add: links order')
  moreover have "mapE (link_id H) (filter (\<lambda>link. link_params link \<noteq> None) (tl links)) = Inr (restoredIds ?r)"
    using ids [OF sel(1)] selection by (simp add: restore_selection_def)
  ultimately show ?thesis
    using present [OF proof_order_set(3) [OF order]] fresh
    by (intro exI [of _ ?r] exI [of _ "?get anchor"]) (simp add: links)
qed

lemma prepareRestore_compiled_witness:
  "\<exists>links r. buildRestoreProof demo_host (archive_value demo_archive) demo_options = Inr links \<and>
     prepareRestore demo_host links True = Inr r \<and> anchorId r = demo_batch_id"
proof -
  have "get (arch_nodes demo_archive) (demo_key demo_batch_id) = Some demo_batch" by (simp add: demo_nodes)
  then show ?thesis
    using prepareRestore_compiled [OF demo_host_ok demo_parsed(1) demo_options_parsed(1) demo_proof] demo_proof
    by (auto simp: demo_node_ids)
qed

text \<open>C3: proofs carry the archive: importing the proof compiled for an anchor, for the archive's
  program, always succeeds and gives back the records of the anchor's closure, each unchanged
  except that an account listed as existing (or the anchor itself) comes without its snapshot.
  The one assumption is that no two ids among the archive's nodes collide on one program
  address.\<close>

theorem archiveFromProof_buildRestoreProof:
  assumes "host_ok H" "parseArchive H input = Inr a" "no_collision H a"
    and "archivePublicKey H (JString (opt_anchor options)) ''address'' = Inr anchor"
    and "mapE (\<lambda>pda. archivePublicKey H (JString pda) ''address'')
      (case opt_existingAccounts options of None \<Rightarrow> [] | Some pdas \<Rightarrow> pdas) = Inr accounts"
    and "buildRestoreProof H input options = Inr links"
  shows "\<exists>b. archiveFromProof H (arch_programId a) links = Inr b \<and> arch_programId b = arch_programId a \<and>
    set (keys (arch_nodes b)) = {p. (anchor, p) \<in> (dependency_edges H a)\<^sup>*} \<and>
    (\<forall>p \<in> set (keys (arch_nodes b)). \<exists>n. get (arch_nodes a) p = Some n \<and> get (arch_nodes b) p =
      Some (if p = anchor \<or> p \<in> set accounts then n\<lparr>node_snapshot := None\<rparr> else n))"
proof -
  obtain order targets where order: "dependencyOrder H a [anchor] True = Inr order"
    and links: "links = map (compiled_link H a targets (anchor # accounts)) (proof_order anchor order)"
    using assms(2,4-6) by (auto simp: buildRestoreProof_ok [OF assms(1)])
  note ids = proof_order_set [OF order]
  let ?b = "imported_archive a (anchor # accounts) (proof_order anchor order)"
  have keys: "keys (arch_nodes ?b) = proof_order anchor order" by (simp add: imported_archive_def comp_def)
  have "archiveFromProof H (arch_programId a) links = Inr ?b"
    unfolding links by (rule import_proof [OF assms(1) parseArchive_wf [OF assms(1,2)] assms(3) order ids(1,2)])
  moreover have "set order = {p. (anchor, p) \<in> (dependency_edges H a)\<^sup>*}"
    using dependency_search_ok(1) [OF order [unfolded dependencyOrder_def]] by (auto simp: reach_def wanted_def)
  then have "set (keys (arch_nodes ?b)) = {p. (anchor, p) \<in> (dependency_edges H a)\<^sup>*}"
    by (simp only: keys ids(1))
  moreover have "\<exists>n. get (arch_nodes a) p = Some n \<and> get (arch_nodes ?b) p =
      Some (if p = anchor \<or> p \<in> set accounts then n\<lparr>node_snapshot := None\<rparr> else n)"
    if "p \<in> set (keys (arch_nodes ?b))" for p
  proof -
    have p: "p \<in> set order" using that by (simp only: keys ids(1))
    then obtain n where n: "get (arch_nodes a) p = Some n" by (rule order_present [OF order])
    moreover have "get (arch_nodes ?b) p = Some (imported (anchor # accounts) p n)"
      using that n by (simp only: keys) (simp add: imported_archive_def get_map_keys)
    ultimately show ?thesis by (simp add: imported_def)
  qed
  moreover have "arch_programId ?b = arch_programId a" by (simp add: imported_archive_def)
  ultimately show ?thesis by blast
qed

lemma archiveFromProof_buildRestoreProof_witness:
  "\<exists>links b. buildRestoreProof demo_host (archive_value demo_archive) demo_options = Inr links \<and>
     archiveFromProof demo_host demo_program links = Inr b \<and> arch_programId b = demo_program"
  using archiveFromProof_buildRestoreProof [OF demo_host_ok demo_parsed(1) demo_no_collision demo_options_parsed(1,3) demo_proof]
    demo_proof by auto

end
