(* ===== verification/ClientBase.thy ===== *)
theory ClientBase
  imports ProofImport
begin

text \<open>
  The ground of the client: what it is given (the Anchor program, its provider and the RPC
  node, all outside the repository), how an asynchronous method is modelled, and the small
  modules \<open>client/transactions.ts\<close>, \<open>client/accounts.ts\<close> and \<open>rent.ts\<close>.
\<close>

section \<open>Instructions and requests\<close>

record account_meta =
  meta_pubkey :: bytes
  meta_isSigner :: bool
  meta_isWritable :: bool

text \<open>The method of the Anchor program an instruction builder calls, with its arguments.\<close>

datatype ix_call =
    IxRegister bytes
  | IxVote
  | IxUnvote
  | IxVerify
  | IxBranch bytes bool
  | IxBatch
  | IxPack
  | IxAccount
  | IxRestore "wire_link list"

text \<open>A built instruction: the call, the named accounts of \<open>accountsStrict\<close> and the
  remaining accounts.\<close>

record instruction =
  ix_call :: ix_call
  ix_accounts :: "(string \<times> bytes) list"
  ix_remaining :: "account_meta list"

datatype account_name = HashAccount | VoteInfo

text \<open>Everything the client does outside itself, in the order it does it. \<open>ESubmit\<close> is
  \<open>builder.rpc()\<close> with the extra signer, if any, which Anchor sends and confirms through the same
  provider, paid by its wallet; \<open>ESend\<close> is the SDK's own call of \<open>provider.sendAndConfirm\<close> with
  fee payer and signers. Every transaction of the SDK is one of the two.\<close>

datatype event =
    EFetchNullable account_name bytes
  | EFetch account_name bytes
  | EAccountInfo bytes "nat option"
  | ESubmit instruction "bytes option"
  | ESend instruction bytes "bytes list"
  | EConfirm string
  | ERent nat

text \<open>A decoded hash account of the coder, and the response to \<open>confirmTransaction\<close>
  (\<open>conf_err\<close> is the JSON text of \<open>value.err\<close>, if there is one).\<close>

record raw_hash_account =
  raw_hash :: jsval
  raw_source :: jsval
  raw_createdAt :: jsval
  raw_voters :: jsval
  raw_bump :: nat

record confirmation =
  conf_err :: "string option"
  conf_slot :: nat

text \<open>
  The network, third-party code as a parameter: each response may depend on everything that
  was requested before. \<open>net_fetchNullable\<close> is absent on legacy account readers.
  \<open>net_decode\<close> is the account coder, \<open>net_txSize\<close> the length of the serialized
  unsigned transaction for an instruction and a fee payer (or the error of building or
  serializing it), \<open>net_errorText\<close> the string form of an error the SDK does not throw itself.
\<close>

record net =
  net_fetchNullable :: "(event list \<Rightarrow> account_name \<Rightarrow> bytes \<Rightarrow> jsval option result) option"
  net_fetch :: "event list \<Rightarrow> account_name \<Rightarrow> bytes \<Rightarrow> jsval result"
  net_accountInfo :: "event list \<Rightarrow> bytes \<Rightarrow> nat option \<Rightarrow> account_info option result"
  net_submit :: "event list \<Rightarrow> instruction \<Rightarrow> bytes option \<Rightarrow> string result"
  net_send :: "event list \<Rightarrow> instruction \<Rightarrow> bytes \<Rightarrow> bytes list \<Rightarrow> string result"
  net_confirm :: "event list \<Rightarrow> string \<Rightarrow> confirmation result"
  net_rent :: "event list \<Rightarrow> nat \<Rightarrow> jsval result"
  net_decode :: "bytes \<Rightarrow> raw_hash_account result"
  net_txSize :: "instruction \<Rightarrow> bytes \<Rightarrow> nat result"
  net_errorText :: "string \<Rightarrow> string"

text \<open>The Anchor program: its id, the provider's wallet key, the identity of the connection
  object, its endpoint, and whether the provider implements \<open>sendAndConfirm\<close>.\<close>

record program =
  prog_id :: bytes
  prog_wallet :: bytes
  prog_connection :: nat
  prog_endpoint :: string
  prog_sendAndConfirm :: bool

section \<open>Client methods\<close>

text \<open>\<open>PendingArchiveNode\<close>: a node whose timestamp is not known yet.\<close>

record pending_node =
  pend_hash :: string
  pend_source :: archive_source
  pend_members :: "string list option"
  pend_snapshot :: "archive_snapshot option"

datatype capture_status = Submitted | Confirmed

text \<open>What a client method may throw: an ordinary error, an \<open>ArchiveCaptureError\<close>
  (signature, address, pending node, cause, status) or an \<open>ArchiveRestoreExecutionError\<close>
  (completed signatures and archive, failed step, cause).\<close>

datatype client_error =
    Plain error
  | CaptureError string string pending_node client_error capture_status
  | ExecutionError "string list" hash_archive nat client_error

text \<open>\<open>String(error)\<close>, with the messages the two exported error classes build.\<close>

definition named_error :: "string \<Rightarrow> string \<Rightarrow> string" where
  "named_error name message = (if message = [] then name else name @ '': '' @ message)"

fun error_string :: "net \<Rightarrow> client_error \<Rightarrow> string" where
  "error_string N (Plain (Error message)) = named_error ''Error'' message"
| "error_string N (Plain (RangeError message)) = named_error ''RangeError'' message"
| "error_string N (Plain (HostError call)) = net_errorText N call"
| "error_string N (CaptureError signature pda expected cause status) =
     named_error ''ArchiveCaptureError'' (''Transaction '' @ signature @ '' '' @
       (case status of Submitted \<Rightarrow> ''submitted'' | Confirmed \<Rightarrow> ''confirmed'') @
       '', but archive capture failed for '' @ pda @
       ''. Check its status; do not blindly resubmit creation. '' @ error_string N cause)"
| "error_string N (ExecutionError signatures archive failedStep cause) =
     named_error ''ArchiveRestoreExecutionError'' (''Archive restore stopped at step '' @
       nat_to_decimal failedStep @ ''; '' @ nat_to_decimal (length signatures) @
       '' earlier transactions confirmed. '' @ error_string N cause)"

text \<open>A method takes the requests made so far and adds its own.\<close>

type_synonym 'a client = "event list \<Rightarrow> (client_error + 'a) \<times> event list"

definition returnC :: "'a \<Rightarrow> 'a client" where
  "returnC x t = (Inr x, t)"

definition throwC :: "client_error \<Rightarrow> 'a client" where
  "throwC e t = (Inl e, t)"

definition bindC :: "'a client \<Rightarrow> ('a \<Rightarrow> 'b client) \<Rightarrow> 'b client" where
  "bindC m f t = (case m t of (Inl e, t') \<Rightarrow> (Inl e, t') | (Inr x, t') \<Rightarrow> f x t')"

definition catchC :: "'a client \<Rightarrow> (client_error \<Rightarrow> 'a client) \<Rightarrow> 'a client" where
  "catchC m h t = (case m t of (Inl e, t') \<Rightarrow> h e t' | (Inr x, t') \<Rightarrow> (Inr x, t'))"

text \<open>A computation without requests.\<close>

definition pureC :: "'a result \<Rightarrow> 'a client" where
  "pureC r t = (case r of Inl e \<Rightarrow> (Inl (Plain e), t) | Inr x \<Rightarrow> (Inr x, t))"

text \<open>One request: the response is computed from the history, the request is recorded.\<close>

definition requestC :: "event \<Rightarrow> (event list \<Rightarrow> 'a result) \<Rightarrow> 'a client" where
  "requestC ev respond t = (case respond t of
      Inl e \<Rightarrow> (Inl (Plain e), t @ [ev]) | Inr x \<Rightarrow> (Inr x, t @ [ev]))"

text \<open>\<open>Promise.all(xs.map(f))\<close> of requests: all are made; the results in order, or the error
  of the first that fails (when several do, the model takes the first in list order).\<close>

fun allC :: "('a \<Rightarrow> 'b client) \<Rightarrow> 'a list \<Rightarrow> 'b list client" where
  "allC f [] t = (Inr [], t)"
| "allC f (x # xs) t = (case f x t of (r, t1) \<Rightarrow> case allC f xs t1 of (rs, t2) \<Rightarrow>
     (bindE r (\<lambda>y. bindE rs (\<lambda>ys. Inr (y # ys))), t2))"

lemma returnC_simps [simp]: "returnC x t = (Inr x, t)" "throwC e t = (Inl e, t)"
  by (simp_all add: returnC_def throwC_def)

lemma pureC_simps [simp]: "pureC (Inr x) t = (Inr x, t)" "pureC (Inl e) t = (Inl (Plain e), t)"
  by (simp_all add: pureC_def)

definition lifted :: "'a result \<Rightarrow> client_error + 'a" where
  "lifted r = (case r of Inl e \<Rightarrow> Inl (Plain e) | Inr x \<Rightarrow> Inr x)"

lemma lifted_simps [simp]: "lifted (Inl e) = Inl (Plain e)" "lifted (Inr x) = Inr x"
  by (simp_all add: lifted_def)

lemma lifted_ok: "lifted r = Inr x \<longleftrightarrow> r = Inr x"
  by (cases r) simp_all

lemma pureC_run: "pureC r t = (lifted r, t)"
  by (cases r) simp_all

lemma requestC_run: "requestC ev f t = (lifted (f t), t @ [ev])"
  by (cases "f t") (simp_all add: requestC_def)

lemma bindC_ok: "bindC m f t = (Inr y, t') \<longleftrightarrow> (\<exists>x u. m t = (Inr x, u) \<and> f x u = (Inr y, t'))"
  by (auto simp: bindC_def split: prod.splits sum.splits)

lemma bindC_err:
  "bindC m f t = (Inl e, t') \<longleftrightarrow> m t = (Inl e, t') \<or> (\<exists>x u. m t = (Inr x, u) \<and> f x u = (Inl e, t'))"
  by (auto simp: bindC_def split: prod.splits sum.splits)

lemma pureC_ok: "pureC r t = (Inr y, t') \<longleftrightarrow> r = Inr y \<and> t' = t"
  by (auto simp: pureC_def split: sum.splits)

lemma pureC_err: "pureC r t = (Inl e, t') \<longleftrightarrow> (\<exists>e'. r = Inl e' \<and> e = Plain e') \<and> t' = t"
  by (auto simp: pureC_def split: sum.splits)

lemma requestC_ok: "requestC ev respond t = (Inr y, t') \<longleftrightarrow> respond t = Inr y \<and> t' = t @ [ev]"
  by (auto simp: requestC_def split: sum.splits)

lemma requestC_err: "requestC ev respond t = (Inl e, t') \<longleftrightarrow> (\<exists>e'. respond t = Inl e' \<and> e = Plain e') \<and> t' = t @ [ev]"
  by (auto simp: requestC_def split: sum.splits)

lemma catchC_ok: "catchC m h t = (Inr y, t') \<longleftrightarrow> m t = (Inr y, t') \<or> (\<exists>e u. m t = (Inl e, u) \<and> h e u = (Inr y, t'))"
  by (auto simp: catchC_def split: prod.splits sum.splits)

lemma catchC_err: "catchC m h t = (Inl e, t') \<longleftrightarrow> (\<exists>e' u. m t = (Inl e', u) \<and> h e' u = (Inl e, t'))"
  by (auto simp: catchC_def split: prod.splits sum.splits)

lemmas client_ok = bindC_ok pureC_ok requestC_ok

section \<open>What a method may request\<close>

text \<open>\<open>emits P m\<close>: whatever \<open>m\<close> does, it only adds requests that satisfy \<open>P\<close>.\<close>

definition emits :: "(event \<Rightarrow> bool) \<Rightarrow> 'a client \<Rightarrow> bool" where
  "emits P m \<longleftrightarrow> (\<forall>t. \<exists>es. snd (m t) = t @ es \<and> list_all P es)"

named_theorems emits_intros

lemma emitsD: "emits P m \<Longrightarrow> m t = (r, t') \<Longrightarrow> \<exists>es. t' = t @ es \<and> list_all P es"
  by (metis emits_def snd_conv)

lemma emitsI: "(\<And>t r t'. m t = (r, t') \<Longrightarrow> \<exists>es. t' = t @ es \<and> list_all P es) \<Longrightarrow> emits P m"
  unfolding emits_def by (metis prod.collapse)

lemma emits_return [emits_intros, simp]: "emits P (returnC x)"
  by (simp add: emits_def)

lemma emits_throw [emits_intros, simp]: "emits P (throwC e)"
  by (simp add: emits_def)

lemma emits_pure [emits_intros, simp]: "emits P (pureC r)"
  by (cases r) (simp_all add: emits_def)

lemma emits_request [emits_intros]: "P ev \<Longrightarrow> emits P (requestC ev f)"
  by (simp add: emits_def requestC_def split: sum.split)

lemma emits_append:
  assumes "m t = (r, u)" "emits P m" "f u = (q, v)" "emits P f"
  shows "\<exists>es. v = t @ es \<and> list_all P es"
proof -
  obtain es fs where "u = t @ es" "list_all P es" "v = u @ fs" "list_all P fs"
    using emitsD [OF assms(2,1)] emitsD [OF assms(4,3)] by blast
  then show ?thesis by (intro exI [of _ "es @ fs"]) simp
qed

lemma emits_bind [emits_intros]:
  assumes "emits P m" "\<And>x. emits P (f x)"
  shows "emits P (bindC m f)"
proof (rule emitsI)
  fix t r t' assume run: "bindC m f t = (r, t')"
  obtain q u where m: "m t = (q, u)" by fastforce
  show "\<exists>es. t' = t @ es \<and> list_all P es"
  proof (cases q)
    case (Inl e)
    with run m have "t' = u" by (simp add: bindC_def)
    with emitsD [OF assms(1) m] show ?thesis by simp
  next
    case (Inr x)
    with run m have "f x u = (r, t')" by (simp add: bindC_def)
    from emits_append [OF m assms(1) this assms(2)] show ?thesis .
  qed
qed

lemma emits_catch [emits_intros]:
  assumes "emits P m" "\<And>e. emits P (h e)"
  shows "emits P (catchC m h)"
proof (rule emitsI)
  fix t r t' assume run: "catchC m h t = (r, t')"
  obtain q u where m: "m t = (q, u)" by fastforce
  show "\<exists>es. t' = t @ es \<and> list_all P es"
  proof (cases q)
    case (Inl e)
    with run m have "h e u = (r, t')" by (simp add: catchC_def)
    from emits_append [OF m assms(1) this assms(2)] show ?thesis .
  next
    case (Inr x)
    with run m have "t' = u" by (simp add: catchC_def)
    with emitsD [OF assms(1) m] show ?thesis by simp
  qed
qed

lemma emits_all [emits_intros]:
  assumes "\<And>x. emits P (f x)"
  shows "emits P (allC f xs)"
proof (induction xs)
  case (Cons x xs)
  show ?case
  proof (rule emitsI)
    fix t r t' assume run: "allC f (x # xs) t = (r, t')"
    obtain q u where m: "f x t = (q, u)" by fastforce
    obtain q' v where n: "allC f xs u = (q', v)" by fastforce
    from run m n have "t' = v" by simp
    with emits_append [OF m assms n Cons] show "\<exists>es. t' = t @ es \<and> list_all P es" by simp
  qed
qed (simp add: emits_def)

text \<open>\<open>Promise.all\<close> succeeds exactly when every part does.\<close>

lemma allC_ok: "allC f xs t = (Inr ys, t') \<Longrightarrow> list_all2 (\<lambda>x y. \<exists>u v. f x u = (Inr y, v)) xs ys"
  by (induction xs arbitrary: t ys) (auto split: prod.splits)

section \<open>Transactions, readers and rent\<close>

text \<open>\<open>client/transactions.ts\<close>. A key pair stands for its public key.\<close>

definition instructionPayer :: "program \<Rightarrow> bytes option \<Rightarrow> bytes" where
  "instructionPayer program payer = (case payer of Some key \<Rightarrow> key | None \<Rightarrow> prog_wallet program)"

definition submitInstruction :: "net \<Rightarrow> instruction \<Rightarrow> bytes option \<Rightarrow> string client" where
  "submitInstruction N builder payer = requestC (ESubmit builder payer) (\<lambda>t. net_submit N t builder payer)"

text \<open>\<open>client/accounts.ts\<close>: a modern reader's errors propagate, a legacy reader's count as
  absence.\<close>

definition fetchNullableAccount :: "net \<Rightarrow> account_name \<Rightarrow> bytes \<Rightarrow> jsval option client" where
  "fetchNullableAccount N reader address = (case net_fetchNullable N of
      Some fetchNullable \<Rightarrow> requestC (EFetchNullable reader address) (\<lambda>t. fetchNullable t reader address)
    | None \<Rightarrow> catchC
        (bindC (requestC (EFetch reader address) (\<lambda>t. net_fetch N t reader address)) (\<lambda>account.
         returnC (Some account)))
        (\<lambda>_. returnC None))"

text \<open>\<open>o.k\<close> on a fetched account, and \<open>a ?? b\<close>.\<close>

definition account_field :: "jsval \<Rightarrow> string \<Rightarrow> jsval" where
  "account_field v k = (case v of JObject obj \<Rightarrow> read_prop obj k | _ \<Rightarrow> JUndefined)"

definition nullish :: "jsval \<Rightarrow> jsval \<Rightarrow> jsval" where
  "nullish v w = (if v = JUndefined \<or> v = JNull then w else v)"

record parent_metadata =
  parent_createdAt :: int
  parent_generation :: int
  parent_sourceKind :: hash_kind

definition branchParentMetadata :: "host \<Rightarrow> jsval \<Rightarrow> parent_metadata result" where
  "branchParentMetadata H account =
     bindE (coerceBigInt H (nullish (nullish (account_field account ''createdAt'') (account_field account ''created_at'')) (jint 0)))
       (\<lambda>createdAt.
     bindE (decodeHashSource H (nullish (account_field account ''source'') (JObject []))) (\<lambda>source.
     bindE (hashSourceKindOf (source_object source)) (\<lambda>kind.
     Inr \<lparr>parent_createdAt = createdAt, parent_generation = generationFromSource source,
       parent_sourceKind = kind\<rparr>)))"

text \<open>\<open>rent.ts\<close>.\<close>

definition rentExemptForHash :: "net \<Rightarrow> hash_source option \<Rightarrow> jsval client" where
  "rentExemptForHash N source =
     bindC (pureC (hashAccountSpace (case source of None \<Rightarrow> SHash | Some s \<Rightarrow> s))) (\<lambda>space.
     requestC (ERent space) (\<lambda>t. net_rent N t space))"

definition rentExemptForVote :: "net \<Rightarrow> jsval client" where
  "rentExemptForVote N = requestC (ERent VOTE_INFO_SPACE) (\<lambda>t. net_rent N t VOTE_INFO_SPACE)"

end
