(* ===== verification/Aggregate.thy ===== *)
theory Aggregate
  imports ClientBase
begin

text \<open>
  \<open>client/aggregate.ts\<close>: the member ids of a new batch or pack, and the snapshots of the
  member accounts.
\<close>

section \<open>Member ids\<close>

datatype aggregate_kind = Batch | Pack

fun aggregate_name :: "aggregate_kind \<Rightarrow> string" where
  "aggregate_name Batch = ''batch''"
| "aggregate_name Pack = ''pack''"

text \<open>\<open>id.join(",")\<close>, the key of the set of ids seen so far.\<close>

definition id_key :: "bytes \<Rightarrow> string" where
  "id_key i = join '','' (map (\<lambda>b. nat_to_decimal (unat b)) i)"

definition add_member_id :: "aggregate_kind \<Rightarrow> string list \<Rightarrow> bytes \<Rightarrow> string list result" where
  "add_member_id aggregate seen i =
     (if id_key i \<in> set seen then Inl (Error (aggregate_name aggregate @ '' member IDs must be unique''))
      else Inr (id_key i # seen))"

definition normalizeUniqueMemberIds :: "host \<Rightarrow> jsval list \<Rightarrow> aggregate_kind \<Rightarrow> bytes list result" where
  "normalizeUniqueMemberIds H memberIds aggregate =
     bindE (mapE (to32Bytes H) memberIds) (\<lambda>normalized.
     bindE (foldE (add_member_id aggregate) [] normalized) (\<lambda>seen.
     Inr normalized))"

section \<open>Member snapshots\<close>

definition member_createdAt :: "host \<Rightarrow> aggregate_kind \<Rightarrow> jsval \<Rightarrow> int result" where
  "member_createdAt H aggregate account =
     (let created = nullish (nullish (account_field account ''createdAt'') (account_field account ''created_at'')) JNull in
      if created = JNull then Inl (Error (aggregate_name aggregate @ '' member missing created_at''))
      else coerceBigInt H created)"

definition member_kind :: "host \<Rightarrow> jsval \<Rightarrow> hash_kind result" where
  "member_kind H account =
     bindE (decodeHashSource H (nullish (account_field account ''source'') (JObject []))) (\<lambda>source.
     hashSourceKindOf (source_object source))"

definition member_hash :: "host \<Rightarrow> aggregate_kind \<Rightarrow> jsval \<Rightarrow> bytes result" where
  "member_hash H aggregate account =
     (let hash = account_field account ''hash'' in
      if \<not> truthy hash then Inl (Error (aggregate_name aggregate @ '' member missing hash value''))
      else to32Bytes H hash)"

text \<open>The validation order of the source: all timestamps, then source kinds, then hashes.\<close>

definition member_fingerprints :: "host \<Rightarrow> aggregate_kind \<Rightarrow> jsval list \<Rightarrow> member_input list result" where
  "member_fingerprints H aggregate accounts =
     bindE (mapE (member_createdAt H aggregate) accounts) (\<lambda>createdAts.
     bindE (mapE (member_kind H) accounts) (\<lambda>kinds.
     bindE (mapE (member_hash H aggregate) accounts) (\<lambda>hashes.
     Inr (map (\<lambda>(hash, kind, createdAt). \<lparr>mem_hash = JBytes hash, mem_kind = jint (int (kind_number kind)),
       mem_createdAt = JBigInt createdAt\<rparr>) (zip hashes (zip kinds createdAts))))))"

text \<open>\<open>reader.hashPda\<close> and \<open>reader.fetchHashAccount\<close> of the client.\<close>

definition hashPda :: "host \<Rightarrow> program \<Rightarrow> jsval \<Rightarrow> bytes result" where
  "hashPda H program hashId = deriveHashPda H (prog_id program) hashId"

definition votePda :: "host \<Rightarrow> program \<Rightarrow> jsval \<Rightarrow> bytes \<Rightarrow> bytes result" where
  "votePda H program hashId voter = deriveVotePda H (prog_id program) hashId voter"

definition fetchHashAccount :: "host \<Rightarrow> net \<Rightarrow> program \<Rightarrow> jsval \<Rightarrow> jsval option client" where
  "fetchHashAccount H N program hashId =
     bindC (pureC (hashPda H program hashId)) (\<lambda>pda. fetchNullableAccount N HashAccount pda)"

definition fetch_member :: "host \<Rightarrow> net \<Rightarrow> program \<Rightarrow> aggregate_kind \<Rightarrow> bytes \<Rightarrow> jsval client" where
  "fetch_member H N program aggregate i =
     bindC (fetchHashAccount H N program (JBytes i)) (\<lambda>account.
     case account of
       None \<Rightarrow> throwC (Plain (Error (aggregate_name aggregate @ '' member hash not found'')))
     | Some a \<Rightarrow> returnC a)"

definition loadAggregateMembers ::
  "host \<Rightarrow> net \<Rightarrow> program \<Rightarrow> bytes list \<Rightarrow> aggregate_kind \<Rightarrow> (bytes list \<times> member_input list) client" where
  "loadAggregateMembers H N program memberIds aggregate =
     bindC (pureC (mapE (\<lambda>i. hashPda H program (JBytes i)) memberIds)) (\<lambda>memberPdas.
     bindC (allC (fetch_member H N program aggregate) memberIds) (\<lambda>accounts.
     bindC (pureC (member_fingerprints H aggregate accounts)) (\<lambda>fingerprints.
     returnC (memberPdas, fingerprints))))"

section \<open>Keys of ids\<close>

lemma decimal_no_comma: "CHR '','' \<notin> set (nat_to_decimal n)"
proof -
  have "\<not> is_digit 10 (CHR '','')" by (simp add: is_digit_def digit_val_def)
  then show ?thesis using nat_to_decimal_digits [of n] by (auto simp: list_all_iff)
qed

lemma append_comma:
  assumes "CHR '','' \<notin> set s" "CHR '','' \<notin> set t" "s @ CHR '','' # u = t @ CHR '','' # v"
  shows "s = t \<and> u = v"
  using assms by (induction s arbitrary: t) (auto simp: Cons_eq_append_conv append_eq_Cons_conv)

lemma nat_to_decimal_inject [simp]: "nat_to_decimal m = nat_to_decimal n \<longleftrightarrow> m = n"
  by (metis radix_value_nat_to_decimal)

lemma id_key_Cons: "id_key (b # c # i) = nat_to_decimal (unat b) @ CHR '','' # id_key (c # i)"
  by (simp add: id_key_def)

lemma id_key_single: "id_key [b] = nat_to_decimal (unat b)"
  by (simp add: id_key_def)

lemma id_key_comma: "CHR '','' \<in> set (id_key (b # c # i))"
  by (simp add: id_key_Cons)

lemma id_key_inject: "id_key i = id_key j \<longleftrightarrow> i = j"
proof
  assume "id_key i = id_key j"
  then show "i = j"
  proof (induction i arbitrary: j)
    case Nil
    then show ?case
      using nat_to_decimal_nonempty [symmetric] by (cases j; cases "tl j") (auto simp: id_key_def)
  next
    case (Cons b i)
    note outer = Cons
    show ?case
    proof (cases j)
      case Nil
      with outer(2) show ?thesis by (cases i) (auto simp: id_key_def)
    next
      case j: (Cons c k)
      show ?thesis
      proof (cases i)
        case Nil
        with outer(2) j show ?thesis
          by (cases k) (use decimal_no_comma [of "unat b"] in \<open>auto simp: id_key_single id_key_Cons word_unat_eq_iff\<close>)
      next
        case i: (Cons b' i')
        show ?thesis
        proof (cases k)
          case Nil
          with outer(2) j i show ?thesis
            using decimal_no_comma [of "unat c"] by (auto simp: id_key_single id_key_Cons) (metis in_set_conv_decomp)
        next
          case k: (Cons c' k')
          have "nat_to_decimal (unat b) @ CHR '','' # id_key i = nat_to_decimal (unat c) @ CHR '','' # id_key k"
            using outer(2) by (simp add: i j k id_key_Cons)
          from append_comma [OF decimal_no_comma decimal_no_comma this] have "b = c" "id_key i = id_key k"
            by (auto simp: word_unat_eq_iff)
          with outer(1) j show ?thesis by simp
        qed
      qed
    qed
  qed
qed simp

lemma add_member_id_ok:
  "add_member_id aggregate seen i = Inr seen' \<longleftrightarrow> id_key i \<notin> set seen \<and> seen' = id_key i # seen"
  by (auto simp: add_member_id_def)

lemma add_member_ids:
  "foldE (add_member_id aggregate) seen ids = Inr seen' \<longleftrightarrow>
     distinct ids \<and> (\<forall>i \<in> set ids. id_key i \<notin> set seen) \<and> seen' = rev (map id_key ids) @ seen"
proof (induction ids arbitrary: seen)
  case (Cons i ids)
  show ?case by (auto simp: add_member_id_ok Cons id_key_inject)
qed auto

lemma normalizeUniqueMemberIds_ok:
  "normalizeUniqueMemberIds H memberIds aggregate = Inr ids \<longleftrightarrow>
     mapE (to32Bytes H) memberIds = Inr ids \<and> distinct ids"
  by (auto simp: normalizeUniqueMemberIds_def add_member_ids)

end
