(* ===== verification/Capture.thy ===== *)
theory Capture
  imports Aggregate
begin

text \<open>
  \<open>client/archive.ts\<close>: reading a hash record from the chain, submitting a creation after
  validating it, and capturing the created record once the transaction is confirmed.
\<close>

section \<open>Pending nodes as values\<close>

definition pending_of :: "archive_node \<Rightarrow> pending_node" where
  "pending_of n = \<lparr>pend_hash = node_hash n, pend_source = node_source n, pend_members = node_members n,
     pend_snapshot = node_snapshot n\<rparr>"

text \<open>\<open>{...pending, createdAt}\<close>, as a record and as the JavaScript object it is.\<close>

definition completed_node :: "pending_node \<Rightarrow> string \<Rightarrow> archive_node" where
  "completed_node p createdAt = \<lparr>node_hash = pend_hash p, node_source = pend_source p, node_createdAt = createdAt,
     node_members = pend_members p, node_snapshot = pend_snapshot p\<rparr>"

definition completed_entries :: "pending_node \<Rightarrow> string \<Rightarrow> (string \<times> jsval) list" where
  "completed_entries p createdAt =
     [(''hash'', JString (pend_hash p)), (''source'', source_value (pend_source p))] @
     (case pend_members p of None \<Rightarrow> [] | Some ms \<Rightarrow> [(''members'', JArray (map JString ms))]) @
     (case pend_snapshot p of None \<Rightarrow> [] | Some s \<Rightarrow> [(''snapshot'', snapshot_value s)]) @
     [(''createdAt'', JString createdAt)]"

text \<open>\<open>parseArchive({...createArchive(program.programId), nodes: {[pda]: {...pending, createdAt}}})\<close>.\<close>

definition single_archive :: "host \<Rightarrow> program \<Rightarrow> string \<Rightarrow> pending_node \<Rightarrow> string \<Rightarrow> hash_archive result" where
  "single_archive H program pda p createdAt =
     bindE (createArchive H (toBase58 H (prog_id program))) (\<lambda>empty.
     parseArchive H (JObject [(''format'', JString ARCHIVE_FORMAT), (''version'', jint ARCHIVE_VERSION),
       (''programId'', JString (arch_programId empty)),
       (''nodes'', JObject [(pda, JObject (completed_entries p createdAt))])]))"

section \<open>Reading a record\<close>

definition SYSTEM_PROGRAM :: bytes where
  "SYSTEM_PROGRAM = replicate 32 0"

definition placeholder :: "account_info \<Rightarrow> bool" where
  "placeholder info \<longleftrightarrow> info_owner info = SYSTEM_PROGRAM \<and> \<not> info_executable info \<and> info_data info = []"

text \<open>The part of \<open>readArchiveRecord\<close> after the account is fetched and is not a placeholder.\<close>

definition record_node ::
  "host \<Rightarrow> net \<Rightarrow> program \<Rightarrow> string \<Rightarrow> bytes \<Rightarrow> account_info \<Rightarrow> archive_node option result" where
  "record_node H N program pda address info =
     (if info_owner info \<noteq> prog_id program \<or> info_executable info
      then Inl (Error (''Incompatible account owner/state: '' @ pda))
      else
        bindE (net_decode N (info_data info)) (\<lambda>record.
        bindE (valueString H (raw_voters record)) (\<lambda>votersText.
        bindE (bigintOfString votersText) (\<lambda>voters.
        if voters \<le> 0 then Inl (Error (''Hash record has no voters: '' @ pda))
        else
          bindE (decodeHashSource H (raw_source record)) (\<lambda>source.
          bindE (archiveHex H (raw_hash record)) (\<lambda>hash.
          bindE (canonicalHashId H (JString hash) (source_object source)) (\<lambda>i.
          bindE (findPda H [ascii ''hash'', i] (prog_id program)) (\<lambda>(expected, bump).
          if expected \<noteq> address \<or> raw_bump record \<noteq> bump
          then Inl (Error (''Invalid hash record PDA/bump: '' @ pda))
          else
            bindE (archiveSource H source) (\<lambda>archivedSource.
            bindE (valueString H (raw_createdAt record)) (\<lambda>createdAt.
            bindE (single_archive H program pda
              \<lparr>pend_hash = hash, pend_source = archivedSource, pend_members = None, pend_snapshot = None\<rparr> createdAt)
              (\<lambda>archive. Inr (get (arch_nodes archive) pda))))))))))))"

definition readArchiveRecord :: "host \<Rightarrow> net \<Rightarrow> program \<Rightarrow> string \<Rightarrow> nat option \<Rightarrow> archive_node option client" where
  "readArchiveRecord H N program pda minContextSlot =
     bindC (pureC (publicKeyOf H pda)) (\<lambda>address.
     bindC (requestC (EAccountInfo address minContextSlot) (\<lambda>t. net_accountInfo N t address minContextSlot)) (\<lambda>info.
     case info of
       None \<Rightarrow> returnC None
     | Some i \<Rightarrow> if placeholder i then returnC None else pureC (record_node H N program pda address i)))"

definition sameArchiveRecord :: "host \<Rightarrow> archive_node \<Rightarrow> archive_node \<Rightarrow> bool" where
  "sameArchiveRecord H a b \<longleftrightarrow> node_hash a = node_hash b \<and> node_createdAt a = node_createdAt b \<and>
     json_text H (source_value (node_source a)) = json_text H (source_value (node_source b))"

section \<open>Submission and capture\<close>

definition hash_address :: "host \<Rightarrow> program \<Rightarrow> archive_node \<Rightarrow> bytes result" where
  "hash_address H program node =
     bindE (nodeId H node) (\<lambda>i.
     bindE (findPda H [ascii ''hash'', i] (prog_id program)) (\<lambda>(address, bump). Inr address))"

definition confirm_creation :: "net \<Rightarrow> string \<Rightarrow> confirmation client" where
  "confirm_creation N signature =
     bindC (requestC (EConfirm signature) (\<lambda>t. net_confirm N t signature)) (\<lambda>confirmation.
     case conf_err confirmation of
       Some err \<Rightarrow> throwC (Plain (Error (''Creation transaction failed: '' @ err)))
     | None \<Rightarrow> returnC confirmation)"

definition capture_record ::
  "host \<Rightarrow> net \<Rightarrow> program \<Rightarrow> string \<Rightarrow> pending_node \<Rightarrow> confirmation \<Rightarrow> hash_archive client" where
  "capture_record H N program pda expected confirmation =
     bindC (readArchiveRecord H N program pda (Some (conf_slot confirmation))) (\<lambda>record.
     let failure = throwC (Plain (Error ''Created record is unavailable or differs from submitted inputs'')) in
     case record of
       None \<Rightarrow> failure
     | Some r \<Rightarrow>
         if node_hash r \<noteq> pend_hash expected \<or>
            json_text H (source_value (node_source r)) \<noteq> json_text H (source_value (pend_source expected))
         then failure
         else pureC (single_archive H program pda expected (node_createdAt r)))"

text \<open>\<open>expected\<close> is a deep copy of \<open>pending\<close>: the same record. The variable \<open>status\<close> is
  \<open>submitted\<close> up to the confirmation and \<open>confirmed\<close> after it.\<close>

definition captureCreatedArchive ::
  "host \<Rightarrow> net \<Rightarrow> program \<Rightarrow> string \<Rightarrow> pending_node \<Rightarrow> hash_archive client" where
  "captureCreatedArchive H N program signature expected =
     bindC (pureC (hash_address H program (completed_node expected ''1''))) (\<lambda>address.
     let pda = toBase58 H address in
     bindC (catchC (confirm_creation N signature)
       (\<lambda>e. throwC (CaptureError signature pda expected e Submitted))) (\<lambda>confirmation.
     catchC (capture_record H N program pda expected confirmation)
       (\<lambda>e. throwC (CaptureError signature pda expected e Confirmed))))"

definition validate_creation :: "host \<Rightarrow> program \<Rightarrow> pending_node \<Rightarrow> pending_node result" where
  "validate_creation H program draft =
     bindE (hash_address H program (completed_node draft ''1'')) (\<lambda>address.
     bindE (single_archive H program (toBase58 H address) draft ''1'') (\<lambda>archive.
     case get (arch_nodes archive) (toBase58 H address) of
       None \<Rightarrow> Inl (HostError ''undefined node'')
     | Some validated \<Rightarrow> Inr (pending_of validated)))"

text \<open>\<open>CreationResult\<close> of \<open>types.ts\<close>.\<close>

record creation_result =
  res_signature :: string
  res_archive :: hash_archive

definition submitCreation ::
  "host \<Rightarrow> net \<Rightarrow> program \<Rightarrow> instruction \<Rightarrow> pending_node \<Rightarrow> bytes option \<Rightarrow> creation_result client" where
  "submitCreation H N program builder draft payer =
     bindC (pureC (validate_creation H program draft)) (\<lambda>expected.
     bindC (submitInstruction N builder payer) (\<lambda>signature.
     bindC (captureCreatedArchive H N program signature expected) (\<lambda>archive.
     returnC \<lparr>res_signature = signature, res_archive = archive\<rparr>)))"

section \<open>Single-node archives\<close>

lemma completed_get:
  "get (completed_entries (pending_of n) (node_createdAt n)) k =
     (case node_value n of JObject obj \<Rightarrow> get obj k | _ \<Rightarrow> None)"
  by (simp add: completed_entries_def node_value_def pending_of_def split: option.split)

lemma parse_node_get:
  assumes "\<And>k. get x k = get y k"
  shows "parse_node H (JObject x) path = Inr n \<longleftrightarrow> parse_node H (JObject y) path = Inr n"
proof -
  have eq: "get x = get y" "read_prop x = read_prop y" using assms by (auto simp: fun_eq_iff read_prop_def)
  have "set (keys x) = set (keys y)" using assms get_None_iff by (metis subsetI subset_antisym)
  then have "check_fields x required optional path = Inr () \<longleftrightarrow> check_fields y required optional path = Inr ()"
    for required optional by (simp add: check_fields_ok)
  then show ?thesis by (simp add: parse_node_def plain_object_def eq)
qed

lemma parse_completed:
  assumes "host_ok H" "wf_node H n"
  shows "parse_node H (JObject (completed_entries (pending_of n) (node_createdAt n))) path = Inr n"
proof -
  obtain obj where obj: "node_value n = JObject obj" by (simp add: node_value_def)
  then have "get (completed_entries (pending_of n) (node_createdAt n)) k = get obj k" for k
    by (simp add: completed_get)
  then have "parse_node H (JObject (completed_entries (pending_of n) (node_createdAt n))) path = Inr n \<longleftrightarrow>
      parse_node H (JObject obj) path = Inr n"
    by (rule parse_node_get)
  moreover have "parse_node H (JObject obj) path = Inr n"
    using parse_node_value [OF assms, of path] by (simp add: obj)
  ultimately show ?thesis by simp
qed

text \<open>What \<open>single_archive\<close> decodes: one node, under the address its content derives.\<close>

lemma single_archive_ok:
  assumes "host_ok H" "length (prog_id program) = 32" "single_archive H program pda p createdAt = Inr a"
  shows "\<exists>q n. arch_programId a = toBase58 H (prog_id program) \<and> arch_nodes a = [(q, n)] \<and>
    archivePublicKey H (JString pda) ''node PDA'' = Inr q \<and>
    parse_node H (JObject (completed_entries p createdAt)) (''nodes.'' @ q) = Inr n \<and> wf_archive H a \<and>
    deriveHashPda H (prog_id program) (JBytes (node_id H n)) = Inr (key_bytes H q)"
proof -
  obtain e where e: "createArchive H (toBase58 H (prog_id program)) = Inr e"
    and a: "parseArchive H (JObject [(''format'', JString ARCHIVE_FORMAT), (''version'', jint ARCHIVE_VERSION),
       (''programId'', JString (arch_programId e)),
       (''nodes'', JObject [(pda, JObject (completed_entries p createdAt))])]) = Inr a"
    using assms(3) by (auto simp: single_archive_def)
  have key: "key_text H (toBase58 H (prog_id program))" by (rule key_textI [OF assms(2)])
  have "arch_programId e = toBase58 H (prog_id program)"
    using e key by (auto simp: createArchive_def parseArchive_def parse_value_archive_def plain_object_def Let_def
        archivePublicKey_id [OF assms(1)] split: if_splits)
  with a key have program: "arch_programId a = toBase58 H (prog_id program)"
    and nodes: "foldE (add_node H (toBase58 H (prog_id program))) [] [(pda, JObject (completed_entries p createdAt))]
      = Inr (arch_nodes a)"
    by (auto simp: parseArchive_def parse_value_archive_def plain_object_def Let_def archivePublicKey_id [OF assms(1)]
        split: if_splits)
  from nodes obtain q n where q: "archivePublicKey H (JString pda) ''node PDA'' = Inr q"
    "parse_node H (JObject (completed_entries p createdAt)) (''nodes.'' @ q) = Inr n"
    "wf_entry H (toBase58 H (prog_id program)) (q, n)" "arch_nodes a = [(q, n)]"
    by (auto simp: add_node_ok [OF assms(1) key])
  then have "deriveHashPda H (prog_id program) (JBytes (node_id H n)) = Inr (key_bytes H q)"
    using assms(1,2) by (simp add: wf_entry_def)
  with program q parseArchive_wf [OF assms(1) a] show ?thesis by blast
qed

section \<open>Decoding returns what was given\<close>

text \<open>Texts as \<open>archiveSource\<close> writes them: normalized, integers aside.\<close>

definition source_texts :: "host \<Rightarrow> archive_source \<Rightarrow> bool" where
  "source_texts H a = (case a of
      AAccount k \<Rightarrow> key_text H k
    | ABranch p q g \<Rightarrow> hash_text p \<and> hash_text q
    | ABatch ms \<Rightarrow> list_all hash_text ms
    | _ \<Rightarrow> True)"

lemma archiveSource_texts:
  assumes "host_ok H" "archiveSource H s = Inr a"
  shows "source_texts H a"
proof (cases s)
  case (SBatch ms)
  with assms(2) obtain ts where ts: "a = ABatch ts" "mapE (archiveHex H) ms = Inr ts" by auto
  have "list_all hash_text ts" using mapE_set [OF ts(2)] archiveHex_text unfolding list_all_iff by blast
  with ts show ?thesis by (simp add: source_texts_def)
qed (use assms in \<open>auto simp: source_texts_def intro!: key_textI dest: archiveHex_text accountPublicKey_length\<close>)

lemma wf_source_texts: "wf_source H a \<Longrightarrow> source_texts H a"
  by (cases a) (simp_all add: source_texts_def member_texts_ok_def)

lemma source_field_same:
  assumes "host_ok H" "source_texts H a" "source_value a = JObject fs" "source_field H fs path = Inr b"
  shows "b = a"
proof (cases a)
  case (AAccount k)
  with assms have "fs = [(''kind'', JString ''account''), (''account'', JString k)]" by simp
  with assms AAccount show ?thesis
    by (auto simp: source_field_def source_texts_def archivePublicKey_id Let_def)
next
  case (ABranch p q g)
  with assms have "fs = [(''kind'', JString ''branch''), (''previousHashId'', JString p), (''payload'', JString q),
      (''generation'', JString g)]" by simp
  with assms ABranch show ?thesis
    by (auto simp: source_field_def source_texts_def hash_field_id integer_field_ok Let_def split: if_splits)
next
  case (ABatch ms)
  with assms have fs: "fs = [(''kind'', JString ''batch''), (''members'', JArray (map JString ms))]" by simp
  have "parse_items (hash_field H) path i (map JString ms) = Inr ms" for path i
    by (rule parse_items_id) (use assms(2) ABatch in \<open>auto simp: source_texts_def list_all_iff hash_field_id\<close>)
  with assms ABatch fs show ?thesis
    by (auto simp: source_field_def members_field_def Let_def split: if_splits)
qed (use assms in \<open>auto simp: source_field_def Let_def split: if_splits\<close>)

lemma parse_completed_fields:
  assumes "host_ok H" "hash_text (pend_hash p)" "source_texts H (pend_source p)"
    and "parse_node H (JObject (completed_entries p createdAt)) path = Inr n"
  shows "node_hash n = pend_hash p" "node_source n = pend_source p" "node_createdAt n = createdAt"
    and "pend_members p = None \<Longrightarrow> node_members n = None" "pend_snapshot p = None \<Longrightarrow> node_snapshot n = None"
proof -
  let ?es = "completed_entries p createdAt"
  have reads: "read_prop ?es ''hash'' = JString (pend_hash p)" "read_prop ?es ''source'' = source_value (pend_source p)"
    "read_prop ?es ''createdAt'' = JString createdAt"
    "pend_members p = None \<Longrightarrow> get ?es ''members'' = None" "pend_snapshot p = None \<Longrightarrow> get ?es ''snapshot'' = None"
    by (auto simp: completed_entries_def read_prop_def split: option.split)
  obtain fs where fs: "source_value (pend_source p) = JObject fs" by (cases "pend_source p") auto
  note parsed = assms(4) [unfolded parse_node_def]
  then have "\<exists>path. source_field H fs path = Inr (node_source n)"
    by (auto simp: plain_object_def reads fs split: if_splits)
  then show "node_source n = pend_source p" using source_field_same [OF assms(1,3) fs] by blast
  show "node_hash n = pend_hash p" "node_createdAt n = createdAt"
    using parsed hash_field_id [OF assms(2)]
    by (auto simp: plain_object_def reads fs integer_field_ok split: if_splits)
  show "pend_members p = None \<Longrightarrow> node_members n = None" "pend_snapshot p = None \<Longrightarrow> node_snapshot n = None"
    using parsed reads by (auto simp: plain_object_def fs split: if_splits)
qed

lemma completed_same:
  assumes "host_ok H" "wf_node H m" "parse_node H (JObject (completed_entries (pending_of m) createdAt)) path = Inr n"
  shows "n = m\<lparr>node_createdAt := createdAt\<rparr>"
proof -
  have "hash_text (pend_hash (pending_of m))" "source_texts H (pend_source (pending_of m))"
    using assms(2) wf_source_texts by (simp_all add: pending_of_def wf_node_def)
  from parse_completed_fields(3) [OF assms(1) this assms(3)] have "node_createdAt n = createdAt" .
  with parse_node_wf [OF assms(3)] have "decimal_field nonzero_i64 createdAt" by (simp add: wf_node_def)
  with assms(2) have "wf_node H (m\<lparr>node_createdAt := createdAt\<rparr>)" by (simp add: wf_node_def)
  from parse_completed [OF assms(1) this, of path] assms(3) show ?thesis by (simp add: pending_of_def)
qed

section \<open>Runs\<close>

lemma deriveHashPda_JBytes:
  "length i = 32 \<Longrightarrow> deriveHashPda H program (JBytes i) =
     bindE (findPda H [ascii ''hash'', i] program) (\<lambda>(address, bump). Inr address)"
  by (simp add: deriveHashPda_def)

lemma readArchiveRecord_run:
  "readArchiveRecord H N program pda slot t =
     (case publicKeyOf H pda of
        Inl e \<Rightarrow> (Inl (Plain e), t)
      | Inr address \<Rightarrow>
          (case net_accountInfo N t address slot of
             Inl e \<Rightarrow> Inl (Plain e)
           | Inr None \<Rightarrow> Inr None
           | Inr (Some i) \<Rightarrow> if placeholder i then Inr None else lifted (record_node H N program pda address i),
           t @ [EAccountInfo address slot]))"
  by (auto simp: readArchiveRecord_def bindC_def requestC_run pureC_run split: sum.split option.split)

text \<open>A record that is read was checked against the chain.\<close>

lemma record_node_ok:
  assumes "host_ok H" "length (prog_id program) = 32" "record_node H N program pda address info = Inr (Some n)"
  shows "info_owner info = prog_id program \<and> \<not> info_executable info \<and>
    (\<exists>record voters text. net_decode N (info_data info) = Inr record \<and>
       valueString H (raw_voters record) = Inr text \<and> bigintOfString text = Inr voters \<and> 0 < voters \<and>
       archiveHex H (raw_hash record) = Inr (node_hash n) \<and>
       (\<exists>s. decodeHashSource H (raw_source record) = Inr s \<and> archiveSource H s = Inr (node_source n)) \<and>
       valueString H (raw_createdAt record) = Inr (node_createdAt n) \<and>
       findPda H [ascii ''hash'', node_id H n] (prog_id program) = Inr (address, raw_bump record)) \<and>
    node_members n = None \<and> node_snapshot n = None \<and> wf_node H n"
proof -
  obtain raw vt voters source hash i where r:
    "info_owner info = prog_id program" "\<not> info_executable info"
    "net_decode N (info_data info) = Inr raw" "valueString H (raw_voters raw) = Inr vt"
    "bigintOfString vt = Inr voters" "0 < voters"
    "decodeHashSource H (raw_source raw) = Inr source" "archiveHex H (raw_hash raw) = Inr hash"
    "canonicalHashId H (JString hash) (source_object source) = Inr i"
    "findPda H [ascii ''hash'', i] (prog_id program) = Inr (address, raw_bump raw)"
    and s: "\<exists>archivedSource createdAt archive.
      archiveSource H source = Inr archivedSource \<and> valueString H (raw_createdAt raw) = Inr createdAt \<and>
      single_archive H program pda \<lparr>pend_hash = hash, pend_source = archivedSource, pend_members = None,
        pend_snapshot = None\<rparr> createdAt = Inr archive \<and> get (arch_nodes archive) pda = Some n"
    using assms(3) by (auto simp: record_node_def not_le split: if_splits)
  then obtain archivedSource createdAt archive where s: "archiveSource H source = Inr archivedSource"
    "valueString H (raw_createdAt raw) = Inr createdAt"
    and single: "single_archive H program pda \<lparr>pend_hash = hash, pend_source = archivedSource, pend_members = None,
        pend_snapshot = None\<rparr> createdAt = Inr archive" and get: "get (arch_nodes archive) pda = Some n"
    by blast
  obtain q m where "arch_nodes archive = [(q, m)]" and
    m: "parse_node H (JObject (completed_entries \<lparr>pend_hash = hash, pend_source = archivedSource,
      pend_members = None, pend_snapshot = None\<rparr> createdAt)) (''nodes.'' @ q) = Inr m"
    using single_archive_ok [OF assms(1,2) single] by auto
  with get have n: "m = n" by (auto split: if_splits)
  have hash: "hash_text hash" by (rule archiveHex_text [OF r(8)])
  have fields: "node_hash n = hash" "node_source n = archivedSource" "node_createdAt n = createdAt"
    "node_members n = None" "node_snapshot n = None"
    using parse_completed_fields [OF assms(1) _ _ m [unfolded n]] hash archiveSource_texts [OF assms(1) s(1)] by simp_all
  have "i = node_id H n"
    using r(9) hash_textD(3) [OF hash] archiveSource_kind [OF s(1)]
    by (simp add: canonicalHashId_def node_id_def fields)
  with r s fields parse_node_wf [OF m] n show ?thesis by auto
qed

text \<open>What validation establishes: the submitted inputs, normalized, are a node under its own
  address.\<close>

lemma validate_creation_ok:
  assumes "host_ok H" "length (prog_id program) = 32" "validate_creation H program draft = Inr expected"
  shows "\<exists>m address. expected = pending_of m \<and> wf_node H m \<and> node_createdAt m = ''1'' \<and>
    hash_address H program (completed_node expected ''1'') = Inr address \<and> length address = 32 \<and>
    deriveHashPda H (prog_id program) (JBytes (node_id H m)) = Inr address \<and>
    hash_address H program (completed_node draft ''1'') = Inr address"
proof -
  obtain address archive m where v: "hash_address H program (completed_node draft ''1'') = Inr address"
    "single_archive H program (toBase58 H address) draft ''1'' = Inr archive"
    "get (arch_nodes archive) (toBase58 H address) = Some m" "expected = pending_of m"
    using assms(3) by (auto simp: validate_creation_def split: option.splits)
  obtain q n where n: "arch_nodes archive = [(q, n)]"
    "parse_node H (JObject (completed_entries draft ''1'')) (''nodes.'' @ q) = Inr n"
    "deriveHashPda H (prog_id program) (JBytes (node_id H n)) = Inr (key_bytes H q)"
    using single_archive_ok [OF assms(1,2) v(2)] by blast
  with v(3) have q: "q = toBase58 H address" "n = m" by (auto split: if_splits)
  have address: "length address = 32"
    using v(1) by (auto simp: hash_address_def findPda_def findProgramAddress_length [OF assms(1)] split: option.splits)
  have wf: "wf_node H m" using parse_node_wf [OF n(2)] q(2) by simp
  have created: "node_createdAt m = ''1''"
    using n(2) q(2) by (auto simp: parse_node_def plain_object_def completed_entries_def integer_field_ok read_prop_def
        split: if_splits option.splits)
  then have complete: "completed_node expected ''1'' = m" by (simp add: completed_node_def pending_of_def v(4))
  have "length (node_id H m) = 32" by (simp add: node_id_def sha256_length assms(1))
  with n(3) q address have "bindE (findPda H [ascii ''hash'', node_id H m] (prog_id program)) (\<lambda>(a, b). Inr a) = Inr address"
    by (simp add: deriveHashPda_JBytes assms(1))
  then have "hash_address H program (completed_node expected ''1'') = Inr address"
    by (simp add: complete hash_address_def nodeId_wf [OF assms(1) wf])
  with v address wf created n(3) q assms(1) show ?thesis by auto
qed

text \<open>Validation fails exactly when the address cannot be derived or the one-node archive does not
  decode; otherwise its one node, at that address, is what the capture expects.\<close>

definition validated :: "host \<Rightarrow> program \<Rightarrow> pending_node \<Rightarrow> bytes \<Rightarrow> archive_node \<Rightarrow> bool" where
  "validated H program draft address m \<longleftrightarrow> hash_address H program (completed_node draft ''1'') = Inr address \<and>
     deriveHashPda H (prog_id program) (JBytes (node_id H m)) = Inr address \<and> node_createdAt m = ''1'' \<and>
     (\<exists>a. single_archive H program (toBase58 H address) draft ''1'' = Inr a \<and> wf_archive H a \<and>
        arch_programId a = toBase58 H (prog_id program) \<and> arch_nodes a = [(toBase58 H address, m)])"

definition invalidated :: "host \<Rightarrow> program \<Rightarrow> pending_node \<Rightarrow> error \<Rightarrow> bool" where
  "invalidated H program draft e \<longleftrightarrow> hash_address H program (completed_node draft ''1'') = Inl e \<or>
     (\<exists>address. hash_address H program (completed_node draft ''1'') = Inr address \<and>
        single_archive H program (toBase58 H address) draft ''1'' = Inl e)"

lemma validate_creation_cases:
  assumes "host_ok H" "length (prog_id program) = 32"
  shows "(\<exists>e. validate_creation H program draft = Inl e \<and> invalidated H program draft e) \<or>
    (\<exists>m address. validate_creation H program draft = Inr (pending_of m) \<and> length address = 32 \<and>
      validated H program draft address m)"
proof (cases "hash_address H program (completed_node draft ''1'')")
  case (Inl e)
  then show ?thesis by (simp add: validate_creation_def invalidated_def)
next
  case (Inr address)
  show ?thesis
  proof (cases "single_archive H program (toBase58 H address) draft ''1''")
    case (Inl e)
    with Inr show ?thesis by (auto simp: validate_creation_def invalidated_def)
  next
    case a: (Inr a)
    obtain q m where m: "arch_nodes a = [(q, m)]" "arch_programId a = toBase58 H (prog_id program)" "wf_archive H a"
      "archivePublicKey H (JString (toBase58 H address)) ''node PDA'' = Inr q"
      using single_archive_ok [OF assms a] by blast
    have len: "length address = 32"
      using Inr by (auto simp: hash_address_def findPda_def findProgramAddress_length [OF assms(1)] split: option.splits)
    have "q = toBase58 H address" using m(4) len by (simp add: archivePublicKey_id assms(1) key_textI)
    with a Inr m(1) have valid: "validate_creation H program draft = Inr (pending_of m)"
      by (simp add: validate_creation_def)
    obtain m' address' where m': "pending_of m = pending_of m'" "node_createdAt m' = ''1''"
      "deriveHashPda H (prog_id program) (JBytes (node_id H m')) = Inr address'"
      "hash_address H program (completed_node draft ''1'') = Inr address'"
      using validate_creation_ok [OF assms valid] by blast
    then have "node_id H m = node_id H m'" by (simp add: pending_of_def node_id_def)
    moreover have "node_createdAt m = ''1''"
    proof -
      obtain n where "arch_nodes a = [(q, n)]" "parse_node H (JObject (completed_entries draft ''1'')) (''nodes.'' @ q) = Inr n"
        using single_archive_ok [OF assms a] m(1) by auto
      with m(1) show ?thesis
        by (auto simp: parse_node_def plain_object_def completed_entries_def integer_field_ok read_prop_def
            split: if_splits option.splits)
    qed
    ultimately have "validated H program draft address m"
      using m' Inr a m(1-3) \<open>q = _\<close> by (simp add: validated_def)
    with valid len show ?thesis by blast
  qed
qed

text \<open>The runs of a capture: one confirmation, then at most one read, pinned to its slot; every
  failure after the address is known is an \<open>ArchiveCaptureError\<close>.\<close>

definition capture_outcome ::
  "string \<Rightarrow> string \<Rightarrow> pending_node \<Rightarrow> client_error + hash_archive \<Rightarrow> bool" where
  "capture_outcome signature pda expected r \<longleftrightarrow>
     (\<exists>a. r = Inr a) \<or> (\<exists>cause status. r = Inl (CaptureError signature pda expected cause status))"

lemma capture_record_run:
  assumes "capture_record H N program pda expected c t = (r, t')"
  shows "t' = t \<or> (\<exists>address. publicKeyOf H pda = Inr address \<and> t' = t @ [EAccountInfo address (Some (conf_slot c))])"
  using assms by (auto simp: capture_record_def bindC_def readArchiveRecord_run pureC_run Let_def
      split: sum.splits option.splits if_splits prod.splits)

lemma captureCreatedArchive_run:
  assumes "hash_address H program (completed_node expected ''1'') = Inr address"
    and "captureCreatedArchive H N program signature expected t = (r, t')"
  shows "capture_outcome signature (toBase58 H address) expected r \<and>
    (t' = t @ [EConfirm signature] \<or>
     (\<exists>a slot. publicKeyOf H (toBase58 H address) = Inr a \<and> t' = t @ [EConfirm signature, EAccountInfo a (Some slot)]))"
proof -
  have run: "captureCreatedArchive H N program signature expected t =
      bindC (catchC (confirm_creation N signature)
        (\<lambda>e. throwC (CaptureError signature (toBase58 H address) expected e Submitted)))
      (\<lambda>c. catchC (capture_record H N program (toBase58 H address) expected c)
        (\<lambda>e. throwC (CaptureError signature (toBase58 H address) expected e Confirmed))) t"
    by (simp add: captureCreatedArchive_def assms(1) bindC_def [of "pureC _"] Let_def)
  obtain q u where confirm: "confirm_creation N signature t = (q, u)" by fastforce
  then have u: "u = t @ [EConfirm signature]"
    by (auto simp: confirm_creation_def bindC_def requestC_run split: sum.splits option.splits)
  show ?thesis
  proof (cases q)
    case (Inl e)
    with run assms(2) confirm u show ?thesis
      by (auto simp: bindC_def catchC_def capture_outcome_def)
  next
    case (Inr c)
    obtain q' v where rec: "capture_record H N program (toBase58 H address) expected c u = (q', v)" by fastforce
    with run assms(2) confirm Inr have "t' = v" "capture_outcome signature (toBase58 H address) expected r"
      by (auto simp: bindC_def catchC_def capture_outcome_def split: sum.splits)
    with capture_record_run [OF rec] u show ?thesis by auto
  qed
qed

lemma submitCreation_run:
  assumes "host_ok H" "length (prog_id program) = 32"
  shows "submitCreation H N program builder draft payer t =
    (case validate_creation H program draft of
       Inl e \<Rightarrow> (Inl (Plain e), t)
     | Inr expected \<Rightarrow> (case net_submit N t builder payer of
         Inl e \<Rightarrow> (Inl (Plain e), t @ [ESubmit builder payer])
       | Inr signature \<Rightarrow>
           bindC (captureCreatedArchive H N program signature expected)
             (\<lambda>archive. returnC \<lparr>res_signature = signature, res_archive = archive\<rparr>)
             (t @ [ESubmit builder payer])))"
  by (auto simp: submitCreation_def submitInstruction_def bindC_def pureC_run requestC_run split: sum.split prod.split)

lemma single_archive_self:
  assumes "host_ok H" "wf_archive H a" "arch_programId a = toBase58 H (prog_id program)" "arch_nodes a = [(p, n)]"
  shows "single_archive H program p (pending_of n) (node_createdAt n) = Inr a"
proof -
  note wf = assms(2) [unfolded wf_archive_def assms(3,4)]
  have entry: "wf_entry H (toBase58 H (prog_id program)) (p, n)" and key: "key_text H (toBase58 H (prog_id program))"
    using wf by auto
  then have "add_node H (toBase58 H (prog_id program)) []
      (p, JObject (completed_entries (pending_of n) (node_createdAt n))) = Inr ([] @ [(p, n)])"
    using parse_completed [OF assms(1)]
    by (auto simp: add_node_ok [OF assms(1) key] wf_entry_def archivePublicKey_id [OF assms(1)])
  moreover have "a = \<lparr>arch_programId = toBase58 H (prog_id program), arch_nodes = [(p, n)]\<rparr>"
    using assms(3,4) by (cases a) simp
  moreover have "utf8_length (json_text H (archive_value a)) \<le> MAX_ARCHIVE_BYTES"
    "\<exists>i. inspectArchiveGraph H a = Inr i"
    using assms(2) by (simp_all add: wf_archive_def archive_size_def)
  moreover have "createArchive H (toBase58 H (prog_id program)) = Inr (a\<lparr>arch_nodes := []\<rparr>)"
    using createArchive_wf [OF assms(1,2)] by (simp add: assms(3))
  ultimately show ?thesis
    using key unfolding single_archive_def
    by (auto simp: parseArchive_def parse_value_archive_def plain_object_def check_fields_ok Let_def
        archivePublicKey_id [OF assms(1)] MAX_ARCHIVE_NODES_def simp del: json_text.simps)
qed

section \<open>A demonstration network\<close>

definition demo_prog :: program where
  "demo_prog = \<lparr>prog_id = replicate 32 9, prog_wallet = replicate 32 4, prog_connection = 0,
     prog_endpoint = ''http'', prog_sendAndConfirm = True\<rparr>"

text \<open>Every account it serves is the hash record of the demonstration leaf.\<close>

definition demo_net :: net where
  "demo_net = \<lparr>
     net_fetchNullable = Some (\<lambda>t name a. Inr (Some (JObject [(''hash'', JBytes (replicate 32 1)),
       (''source'', JObject [(''hash'', JObject [])]), (''createdAt'', JBN 5)]))),
     net_fetch = (\<lambda>t name a. Inl (Error ''fetch'')),
     net_accountInfo = (\<lambda>t a slot. Inr (Some \<lparr>info_owner = replicate 32 9, info_lamports = jint 1,
       info_executable = False, info_rentEpoch = jint 0, info_data = [1]\<rparr>)),
     net_submit = (\<lambda>t ix payer. Inr ''signature''),
     net_send = (\<lambda>t ix feePayer signers. Inr ''signature''),
     net_confirm = (\<lambda>t signature. Inr \<lparr>conf_err = None, conf_slot = 7\<rparr>),
     net_rent = (\<lambda>t space. Inr (jint (int space))),
     net_decode = (\<lambda>d. Inr \<lparr>raw_hash = JBytes (replicate 32 1), raw_source = JObject [(''hash'', JObject [])],
       raw_createdAt = JBN 5, raw_voters = JBN 1, raw_bump = 255\<rparr>),
     net_txSize = (\<lambda>ix feePayer. Inr 500),
     net_errorText = (\<lambda>call. call)\<rparr>"

lemma demo_prog_simps [simp]: "prog_id demo_prog = replicate 32 9" "prog_wallet demo_prog = replicate 32 4"
  by (simp_all add: demo_prog_def)

lemma demo_single:
  assumes "0 < d" "d < 10"
  shows "single_archive demo_host demo_prog (demo_key (demo_id 0 1)) (pending_of demo_leaf) (int_to_decimal (int d)) =
    Inr \<lparr>arch_programId = demo_program,
      arch_nodes = [(demo_key (demo_id 0 1), demo_leaf\<lparr>node_createdAt := int_to_decimal (int d)\<rparr>)]\<rparr>"
  using single_archive_self [OF demo_host_ok demo_hash_wf [OF assms], of demo_prog]
  by (simp add: demo_program_def pending_of_def)

lemma demo_address_leaf:
  "hash_address demo_host demo_prog (completed_node (pending_of demo_leaf) ''1'') = Inr (demo_id 0 1)"
proof -
  have "nodeId demo_host (completed_node (pending_of demo_leaf) ''1'') = nodeId demo_host demo_leaf"
    by (simp add: nodeId_def completed_node_def pending_of_def)
  also have "\<dots> = Inr (demo_id 0 1)"
    using nodeId_wf [OF demo_host_ok demo_wf_nodes(1)] by (simp add: demo_node_ids)
  finally show ?thesis by (simp add: hash_address_def findPda_def demo_find_def)
qed

lemma demo_validate: "validate_creation demo_host demo_prog (pending_of demo_leaf) = Inr (pending_of demo_leaf)"
proof -
  have "''1'' = int_to_decimal (int 1)" by (simp add: int_to_decimal_def nat_to_decimal.simps digit_char_def)
  with demo_single [of 1] demo_address_leaf show ?thesis
    by (simp add: validate_creation_def pending_of_def)
qed

lemma demo_read:
  "readArchiveRecord demo_host demo_net demo_prog (demo_key (demo_id 0 1)) slot t =
     (Inr (Some demo_leaf), t @ [EAccountInfo (demo_id 0 1) slot])"
proof -
  have "pending_of demo_leaf = \<lparr>pend_hash = hex_of_bytes (replicate 32 1), pend_source = AHash,
      pend_members = None, pend_snapshot = None\<rparr>" "demo_leaf\<lparr>node_createdAt := int_to_decimal 5\<rparr> = demo_leaf"
    by (simp_all add: pending_of_def demo_leaf_def)
  note single = demo_single [of 5, simplified this]
  have "canonicalHashId demo_host (JString (hex_of_bytes (replicate 32 1))) (source_object SHash) = Inr (demo_id 0 1)"
    by (simp add: canonicalHashId_def canonical_frame_def demo_sha256_def)
  moreover have "demo_leaf\<lparr>node_createdAt := int_to_decimal 5\<rparr> = demo_leaf" by (simp add: demo_leaf_def)
  ultimately show ?thesis
    using single by (simp add: readArchiveRecord_run demo_net_def placeholder_def SYSTEM_PROGRAM_def record_node_def valueString_def
        decodeHashSource_def lower_char_def archiveHex_def findPda_def demo_find_def Let_def)
qed

lemma demo_submit:
  "submitCreation demo_host demo_net demo_prog ix (pending_of demo_leaf) payer t =
     (Inr \<lparr>res_signature = ''signature'',
        res_archive = \<lparr>arch_programId = demo_program, arch_nodes = [(demo_key (demo_id 0 1), demo_leaf)]\<rparr>\<rparr>,
      t @ [ESubmit ix payer, EConfirm ''signature'', EAccountInfo (demo_id 0 1) (Some 7)])"
proof -
  have leaf: "demo_leaf\<lparr>node_createdAt := int_to_decimal 5\<rparr> = demo_leaf" "node_createdAt demo_leaf = int_to_decimal 5"
    "node_hash demo_leaf = pend_hash (pending_of demo_leaf)" "node_source demo_leaf = pend_source (pending_of demo_leaf)"
    by (simp_all add: demo_leaf_def pending_of_def)
  have "net_submit demo_net t' ix payer = Inr ''signature''" for t' by (simp add: demo_net_def)
  moreover have "confirm_creation demo_net ''signature'' t' = (Inr \<lparr>conf_err = None, conf_slot = 7\<rparr>, t' @ [EConfirm ''signature''])"
    for t' by (simp add: confirm_creation_def bindC_def requestC_run demo_net_def)
  moreover have "capture_record demo_host demo_net demo_prog (demo_key (demo_id 0 1)) (pending_of demo_leaf)
      \<lparr>conf_err = None, conf_slot = 7\<rparr> t' = (Inr \<lparr>arch_programId = demo_program,
        arch_nodes = [(demo_key (demo_id 0 1), demo_leaf)]\<rparr>, t' @ [EAccountInfo (demo_id 0 1) (Some 7)])" for t'
    using demo_single [of 5] leaf
    by (simp add: capture_record_def bindC_def demo_read pureC_run)
  ultimately show ?thesis
    by (simp add: submitCreation_run demo_validate captureCreatedArchive_def bindC_def catchC_def pureC_run
        demo_address_leaf Let_def)
qed

text \<open>A successful creation, step by step.\<close>

lemma creation_captured:
  assumes "host_ok H" "length (prog_id program) = 32"
    and "submitCreation H N program builder draft payer t = (Inr result, t')"
  shows "\<exists>m address info slot rec. arch_programId (res_archive result) = toBase58 H (prog_id program) \<and>
    arch_nodes (res_archive result) = [(toBase58 H address, m)] \<and> parseArchive H (archive_value (res_archive result)) = Inr (res_archive result) \<and>
    deriveHashPda H (prog_id program) (JBytes (node_id H m)) = Inr address \<and>
    validate_creation H program draft = Inr (pending_of m) \<and>
    t' = t @ [ESubmit builder payer, EConfirm (res_signature result), EAccountInfo address (Some slot)] \<and>
    net_accountInfo N (t @ [ESubmit builder payer, EConfirm (res_signature result)]) address (Some slot) = Inr (Some info) \<and>
    net_decode N (info_data info) = Inr rec \<and> valueString H (raw_createdAt rec) = Inr (node_createdAt m)"
proof -
  obtain signature a where result: "result = \<lparr>res_signature = signature, res_archive = a\<rparr>" by (cases result) auto
  note run = assms(3) [unfolded result]
  obtain expected where valid: "validate_creation H program draft = Inr expected"
    using run by (auto simp: submitCreation_run [OF assms(1,2)] split: sum.splits)
  then have "net_submit N t builder payer = Inr signature" and
    c: "captureCreatedArchive H N program signature expected (t @ [ESubmit builder payer]) = (Inr a, t')"
    using run by (auto simp: submitCreation_run [OF assms(1,2)] bindC_ok split: sum.splits)
  obtain m address where m: "expected = pending_of m" "wf_node H m" "length address = 32"
    "hash_address H program (completed_node expected ''1'') = Inr address"
    "deriveHashPda H (prog_id program) (JBytes (node_id H m)) = Inr address"
    using validate_creation_ok [OF assms(1,2) valid] by blast
  let ?pda = "toBase58 H address"
  obtain conf u where conf: "confirm_creation N signature (t @ [ESubmit builder payer]) = (Inr conf, u)"
    and cap: "capture_record H N program ?pda expected conf u = (Inr a, t')"
    using c by (auto simp: captureCreatedArchive_def m(4) Let_def bindC_ok pureC_ok catchC_ok)
  from conf have u: "u = t @ [ESubmit builder payer, EConfirm signature]"
    by (auto simp: confirm_creation_def bindC_ok requestC_ok split: option.splits)
  obtain rd v where rd: "readArchiveRecord H N program ?pda (Some (conf_slot conf)) u = (Inr (Some rd), v)"
    and single: "single_archive H program ?pda expected (node_createdAt rd) = Inr a"
    using cap by (auto simp: capture_record_def bindC_ok pureC_ok Let_def split: option.splits if_splits)
  have pk: "publicKeyOf H ?pda = Inr address" by (simp add: publicKeyOf_toBase58 assms(1) m(3))
  with rd obtain info where info: "net_accountInfo N u address (Some (conf_slot conf)) = Inr (Some info)"
    "record_node H N program ?pda address info = Inr (Some rd)"
    by (auto simp: readArchiveRecord_run lifted_ok split: sum.splits option.splits if_splits)
  obtain rec where rec: "net_decode N (info_data info) = Inr rec" "valueString H (raw_createdAt rec) = Inr (node_createdAt rd)"
    using record_node_ok [OF assms(1,2) info(2)] by blast
  obtain q n where n: "arch_programId a = toBase58 H (prog_id program)" "arch_nodes a = [(q, n)]"
    "archivePublicKey H (JString ?pda) ''node PDA'' = Inr q" "wf_archive H a"
    "parse_node H (JObject (completed_entries expected (node_createdAt rd))) (''nodes.'' @ q) = Inr n"
    using single_archive_ok [OF assms(1,2) single] by blast
  have q: "q = ?pda" using n(3) m(3) by (simp add: archivePublicKey_id assms(1) key_textI)
  have n': "n = m\<lparr>node_createdAt := node_createdAt rd\<rparr>" by (rule completed_same [OF assms(1) m(2) n(5) [unfolded m(1)]])
  then have "pending_of n = expected" "node_id H n = node_id H m" by (simp_all add: pending_of_def m(1) node_id_def)
  moreover have "t' = u @ [EAccountInfo address (Some (conf_slot conf))]"
    using cap rd pk by (auto simp: capture_record_def bindC_ok pureC_ok Let_def readArchiveRecord_run split: option.splits if_splits sum.splits)
  ultimately show ?thesis using n q n' m valid info(1) rec u parseArchive_value [OF assms(1) n(4)]
    by (intro exI [of _ n] exI [of _ address] exI [of _ info] exI [of _ "conf_slot conf"] exI [of _ rec]) (simp add: result)
qed

text \<open>Normalized inputs are validated as they are.\<close>

lemma validate_creation_same:
  assumes "host_ok H" "length (prog_id program) = 32" "validate_creation H program draft = Inr expected"
    and "hash_text (pend_hash draft)" "source_texts H (pend_source draft)"
  shows "pend_hash expected = pend_hash draft \<and> pend_source expected = pend_source draft"
proof -
  obtain address archive m where v: "single_archive H program (toBase58 H address) draft ''1'' = Inr archive"
    "get (arch_nodes archive) (toBase58 H address) = Some m" "expected = pending_of m"
    using assms(3) by (auto simp: validate_creation_def split: option.splits)
  obtain q n where n: "arch_nodes archive = [(q, n)]"
    "parse_node H (JObject (completed_entries draft ''1'')) (''nodes.'' @ q) = Inr n"
    using single_archive_ok [OF assms(1,2) v(1)] by blast
  with v(2) have "n = m" by (auto split: if_splits)
  with parse_completed_fields [OF assms(1,4,5) n(2)] show ?thesis by (simp add: v(3) pending_of_def)
qed

section \<open>Properties\<close>

text \<open>C25: a record read from the chain is genuine: \<open>readArchiveRecord\<close> makes one request, and when
  it returns a node, the account it fetched is owned by the program, not executable and has
  voters; the decoded record's hash, source and timestamp are the node's; and the address and
  bump are those the node's own content derives.\<close>

theorem readArchiveRecord_sound:
  assumes "host_ok H" "length (prog_id program) = 32"
    and "readArchiveRecord H N program pda slot t = (Inr (Some n), t')"
  shows "\<exists>address info rec voters. publicKeyOf H pda = Inr address \<and> t' = t @ [EAccountInfo address slot] \<and>
    net_accountInfo N t address slot = Inr (Some info) \<and> info_owner info = prog_id program \<and>
    \<not> info_executable info \<and> net_decode N (info_data info) = Inr rec \<and>
    bindE (valueString H (raw_voters rec)) bigintOfString = Inr voters \<and> 0 < voters \<and>
    archiveHex H (raw_hash rec) = Inr (node_hash n) \<and>
    bindE (decodeHashSource H (raw_source rec)) (archiveSource H) = Inr (node_source n) \<and>
    valueString H (raw_createdAt rec) = Inr (node_createdAt n) \<and>
    findPda H [ascii ''hash'', node_id H n] (prog_id program) = Inr (address, raw_bump rec) \<and>
    wf_node H n \<and> node_members n = None \<and> node_snapshot n = None"
proof -
  obtain address where address: "publicKeyOf H pda = Inr address" "t' = t @ [EAccountInfo address slot]"
    using assms(3) by (auto simp: readArchiveRecord_run split: sum.splits)
  then obtain info where info: "net_accountInfo N t address slot = Inr (Some info)"
    "record_node H N program pda address info = Inr (Some n)"
    using assms(3) by (auto simp: readArchiveRecord_run lifted_ok split: sum.splits option.splits if_splits)
  from record_node_ok [OF assms(1,2) info(2)] address info(1) show ?thesis by auto
qed

lemma readArchiveRecord_sound_witness:
  "\<exists>address info. publicKeyOf demo_host (demo_key (demo_id 0 1)) = Inr address \<and>
     net_accountInfo demo_net [] address None = Inr (Some info) \<and> info_owner info = replicate 32 9"
  using readArchiveRecord_sound [OF demo_host_ok _ demo_read, where t = "[]" and slot = None] by auto

text \<open>C24: a creation is submitted at most once, and only after its inputs are validated. Either
  validation fails, because no address derives from the inputs or the archive of just this
  node at that address does not decode, and the method throws that error and requests nothing; or
  validation yields a well-formed one-node archive of the program, whose node sits at
  the address its own content derives, and then there is one submission: if it fails, the method
  throws its error and nothing else is requested; if it returns a signature, the signature is never lost:
  the method returns it, with the archive of the validated inputs at that address, or throws an
  \<open>ArchiveCaptureError\<close> that carries it, the address and the validated inputs, after one confirmation
  request and at most one read, of that address and pinned to a slot. No run submits again.\<close>

theorem submitCreation_once:
  assumes "host_ok H" "length (prog_id program) = 32"
    and "submitCreation H N program builder draft payer t = (r, t')"
  shows "(\<exists>e. (hash_address H program (completed_node draft ''1'') = Inl e \<or>
        (\<exists>address. hash_address H program (completed_node draft ''1'') = Inr address \<and>
           single_archive H program (toBase58 H address) draft ''1'' = Inl e)) \<and>
      r = Inl (Plain e) \<and> t' = t) \<or>
    (\<exists>address m a. hash_address H program (completed_node draft ''1'') = Inr address \<and>
      single_archive H program (toBase58 H address) draft ''1'' = Inr a \<and> wf_archive H a \<and>
      arch_programId a = toBase58 H (prog_id program) \<and> arch_nodes a = [(toBase58 H address, m)] \<and>
      deriveHashPda H (prog_id program) (JBytes (node_id H m)) = Inr address \<and>
      ((\<exists>e. net_submit N t builder payer = Inl e \<and> r = Inl (Plain e) \<and> t' = t @ [ESubmit builder payer]) \<or>
       (\<exists>signature. net_submit N t builder payer = Inr signature \<and>
         (t' = t @ [ESubmit builder payer, EConfirm signature] \<or>
          (\<exists>slot. t' = t @ [ESubmit builder payer, EConfirm signature, EAccountInfo address (Some slot)])) \<and>
         ((\<exists>b n. r = Inr \<lparr>res_signature = signature, res_archive = b\<rparr> \<and> arch_nodes b = [(toBase58 H address, n)] \<and>
             pending_of n = pending_of m) \<or>
          (\<exists>cause status. r = Inl (CaptureError signature (toBase58 H address) (pending_of m) cause status))))))"
proof (cases "validate_creation H program draft")
  case (Inl e)
  then have "invalidated H program draft e" using validate_creation_cases [OF assms(1,2), of draft] by auto
  moreover have "r = Inl (Plain e)" "t' = t" using assms(3) Inl by (simp_all add: submitCreation_run [OF assms(1,2)])
  ultimately show ?thesis unfolding invalidated_def by blast
next
  case valid: (Inr expected)
  then obtain m address where m: "expected = pending_of m" "length address = 32" "validated H program draft address m"
    using validate_creation_cases [OF assms(1,2), of draft] by auto
  have "(\<exists>e. net_submit N t builder payer = Inl e \<and> r = Inl (Plain e) \<and> t' = t @ [ESubmit builder payer]) \<or>
       (\<exists>signature. net_submit N t builder payer = Inr signature \<and>
         (t' = t @ [ESubmit builder payer, EConfirm signature] \<or>
          (\<exists>slot. t' = t @ [ESubmit builder payer, EConfirm signature, EAccountInfo address (Some slot)])) \<and>
         ((\<exists>b n. r = Inr \<lparr>res_signature = signature, res_archive = b\<rparr> \<and> arch_nodes b = [(toBase58 H address, n)] \<and>
             pending_of n = pending_of m) \<or>
          (\<exists>cause status. r = Inl (CaptureError signature (toBase58 H address) (pending_of m) cause status))))"
  proof (cases "net_submit N t builder payer")
    case (Inl e)
    with assms(3) valid show ?thesis by (simp add: submitCreation_run [OF assms(1,2)])
  next
    case (Inr signature)
    have address: "hash_address H program (completed_node expected ''1'') = Inr address"
      using validate_creation_ok [OF assms(1,2) valid] m(3) by (auto simp: validated_def)
    obtain q u where c: "captureCreatedArchive H N program signature expected (t @ [ESubmit builder payer]) = (q, u)"
      by fastforce
    from assms(3) valid Inr c have ends: "t' = u" "r = (case q of Inl e \<Rightarrow> Inl e | Inr a \<Rightarrow> Inr \<lparr>res_signature = signature, res_archive = a\<rparr>)"
      by (auto simp: submitCreation_run [OF assms(1,2)] bindC_def split: sum.splits)
    have result: "\<exists>n. arch_nodes b = [(toBase58 H address, n)] \<and> pending_of n = pending_of m"
      if "r = Inr \<lparr>res_signature = signature, res_archive = b\<rparr>" for b
    proof -
      have "submitCreation H N program builder draft payer t = (Inr \<lparr>res_signature = signature, res_archive = b\<rparr>, t')"
        using assms(3) that by simp
      from creation_captured [OF assms(1,2) this]
      obtain n address' where n: "arch_nodes b = [(toBase58 H address', n)]" "validate_creation H program draft = Inr (pending_of n)"
        "deriveHashPda H (prog_id program) (JBytes (node_id H n)) = Inr address'"
        by auto
      with valid m have "pending_of n = pending_of m" "address' = address"
        by (auto simp: validated_def pending_of_def node_id_def)
      with n(1) show ?thesis by simp
    qed
    have "publicKeyOf H (toBase58 H address) = Inr address" by (simp add: publicKeyOf_toBase58 assms(1) m(2))
    with captureCreatedArchive_run [OF address c] Inr ends result show ?thesis
      by (auto simp: capture_outcome_def m(1))
  qed
  with m(3) show ?thesis unfolding validated_def by blast
qed

text \<open>A hash that is no hash is refused before anything is requested, a good one is submitted.\<close>

lemma submitCreation_once_witness:
  "\<exists>result e ix t. submitCreation demo_host demo_net demo_prog ix (pending_of demo_leaf) None [] = (Inr result, t) \<and>
     t = [ESubmit ix None, EConfirm (res_signature result), EAccountInfo (demo_id 0 1) (Some 7)] \<and>
     map fst (arch_nodes (res_archive result)) = [demo_key (demo_id 0 1)] \<and>
     submitCreation demo_host demo_net demo_prog ix ((pending_of demo_leaf)\<lparr>pend_hash := ''00''\<rparr>) None [] = (Inl (Plain e), [])"
proof -
  let ?ix = "\<lparr>ix_call = IxRegister (replicate 32 1), ix_accounts = [], ix_remaining = []\<rparr>"
  let ?bad = "(pending_of demo_leaf)\<lparr>pend_hash := ''00''\<rparr>"
  have len: "length (prog_id demo_prog) = 32" by simp
  note good = submitCreation_once [OF demo_host_ok len demo_submit [where t = "[]" and payer = None and ix = ?ix]]
  obtain e where bad: "hash_address demo_host demo_prog (completed_node ?bad ''1'') = Inl e"
    by (simp add: hash_address_def nodeId_def completed_node_def pending_of_def demo_leaf_def canonicalHashId_def
        to32Bytes_def decodeFixed32_def base58_text_def)
  obtain r t where run: "submitCreation demo_host demo_net demo_prog ?ix ?bad None [] = (r, t)" by fastforce
  with submitCreation_once [OF demo_host_ok len run] bad
  have "submitCreation demo_host demo_net demo_prog ?ix ?bad None [] = (Inl (Plain e), [])" by auto
  with good demo_submit [where t = "[]" and payer = None and ix = ?ix] show ?thesis by fastforce
qed

text \<open>The archive of a successful creation is one node under the program address of its own
  content, it decodes to itself, its inputs are the submitted ones as validated (members and
  snapshot included), and its timestamp is the one the chain recorded at the confirmed slot, read
  in the last of the three requests made.\<close>

theorem submitCreation_archive:
  assumes "host_ok H" "length (prog_id program) = 32"
    and "submitCreation H N program builder draft payer t = (Inr result, t')"
  shows "\<exists>m address info slot rec. arch_programId (res_archive result) = toBase58 H (prog_id program) \<and>
    arch_nodes (res_archive result) = [(toBase58 H address, m)] \<and> parseArchive H (archive_value (res_archive result)) = Inr (res_archive result) \<and>
    deriveHashPda H (prog_id program) (JBytes (node_id H m)) = Inr address \<and>
    validate_creation H program draft = Inr (pending_of m) \<and>
    t' = t @ [ESubmit builder payer, EConfirm (res_signature result), EAccountInfo address (Some slot)] \<and>
    net_accountInfo N (t @ [ESubmit builder payer, EConfirm (res_signature result)]) address (Some slot) = Inr (Some info) \<and>
    net_decode N (info_data info) = Inr rec \<and> valueString H (raw_createdAt rec) = Inr (node_createdAt m)"
  by (rule creation_captured [OF assms])

lemma submitCreation_archive_witness:
  "\<exists>m address. deriveHashPda demo_host (replicate 32 9) (JBytes (node_id demo_host m)) = Inr address \<and>
     validate_creation demo_host demo_prog (pending_of demo_leaf) = Inr (pending_of m)"
  using submitCreation_archive [OF demo_host_ok _ demo_submit
      [where t = "[]" and payer = None and ix = "\<lparr>ix_call = IxRegister (replicate 32 1), ix_accounts = [], ix_remaining = []\<rparr>"]] by auto

end
