(* ===== verification/Candidate.thy ===== *)
theory Candidate
  imports Capture
begin

text \<open>
  \<open>client/archive-candidate.ts\<close> and the records of \<open>archive/planning.ts\<close>: one
  complete proof compiled into a size-checked instruction and the archive it authenticates.
\<close>

section \<open>Plans\<close>

record restore_options =
  ropt_targets :: "string list"
  ropt_anchor :: "string option"
  ropt_createAccounts :: "bool option"

record restore_step =
  step_anchor :: string
  step_targets :: "string list"
  step_proof :: "restore_proof_input list"
  step_requested :: "string list"
  step_creations :: "string list"
  step_additional :: "string list"
  step_bytes :: nat

record restore_plan =
  plan_programId :: string
  plan_payer :: string
  plan_feePayer :: string
  plan_steps :: "restore_step list"
  plan_alreadyPresent :: "string list"
  plan_rejectedAnchors :: "(string \<times> string) list"

record restore_result =
  result_signatures :: "string list"
  result_archive :: hash_archive

record prepared_step =
  prep_instruction :: instruction
  prep_archive :: hash_archive
  prep_additional :: "string list"

record candidate =
  cand_summary :: restore_step
  cand_execution :: prepared_step

text \<open>The maps \<open>live\<close> and \<open>readErrors\<close> hold one entry per address; \<open>ctx_live\<close> has
  \<open>None\<close> for a record read as absent.\<close>

record candidate_context =
  ctx_targets :: "string list"
  ctx_create :: bool
  ctx_payer :: bytes
  ctx_feePayer :: bytes
  ctx_live :: "archive_node option object"
  ctx_readErrors :: "string object"
  ctx_matches :: "string \<Rightarrow> bool"

section \<open>The compiler\<close>

text \<open>\<open>live.get(pda)\<close> is truthy.\<close>

definition live_record :: "candidate_context \<Rightarrow> string \<Rightarrow> bool" where
  "live_record context pda \<longleftrightarrow> (case get (ctx_live context) pda of Some (Some _) \<Rightarrow> True | _ \<Rightarrow> False)"

definition check_requested :: "candidate_context \<Rightarrow> string \<Rightarrow> unit result" where
  "check_requested context pda = (case get (ctx_readErrors context) pda of
      Some reason \<Rightarrow> Inl (Error reason)
    | None \<Rightarrow>
        if live_record context pda \<and> \<not> ctx_matches context pda
        then Inl (Error (''Historical incarnation conflict: '' @ pda)) else Inr ())"

definition restore_meta :: "host \<Rightarrow> program \<Rightarrow> bytes \<Rightarrow> string list \<Rightarrow> bytes \<Rightarrow> account_meta list result" where
  "restore_meta H program payer creations i =
     bindE (deriveHashPda H (prog_id program) (JBytes i)) (\<lambda>address.
     let writable = toBase58 H address \<in> set creations in
     bindE (deriveVotePda H (prog_id program) (JBytes i) payer) (\<lambda>vote.
     Inr [\<lparr>meta_pubkey = address, meta_isSigner = False, meta_isWritable = writable\<rparr>,
       \<lparr>meta_pubkey = vote, meta_isSigner = False, meta_isWritable = writable\<rparr>]))"

text \<open>\<open>createArchive(archive.programId)\<close> with the records of \<open>pdas\<close> copied in, decoded.\<close>

definition copied_archive :: "host \<Rightarrow> hash_archive \<Rightarrow> string list \<Rightarrow> hash_archive result" where
  "copied_archive H archive pdas =
     bindE (createArchive H (arch_programId archive)) (\<lambda>empty.
     parseArchive H (JObject [(''format'', JString ARCHIVE_FORMAT), (''version'', jint ARCHIVE_VERSION),
       (''programId'', JString (arch_programId empty)),
       (''nodes'', JObject (foldl (\<lambda>nodes pda. put nodes pda
          (case get (arch_nodes archive) pda of None \<Rightarrow> JUndefined | Some n \<Rightarrow> node_value n)) [] pdas))]))"

definition compileArchiveCandidate ::
  "host \<Rightarrow> net \<Rightarrow> program \<Rightarrow> hash_archive \<Rightarrow> candidate_context \<Rightarrow> string \<Rightarrow> string list \<Rightarrow> string list \<Rightarrow>
   candidate result" where
  "compileArchiveCandidate H N program archive context anchor closure selected =
     (let existing = (if ctx_create context then filter (ctx_matches context) closure else [anchor]) in
      bindE (buildRestoreProof H (archive_value archive) \<lparr>opt_anchor = anchor, opt_targets = selected,
        opt_existingAccounts = Some existing\<rparr>) (\<lambda>proof.
      bindE (prepareRestore H proof (ctx_create context)) (\<lambda>encoded.
      bindE (mapE (\<lambda>i. bindE (deriveHashPda H (prog_id program) (JBytes i)) (\<lambda>address. Inr (toBase58 H address)))
        (restoredIds encoded)) (\<lambda>requested.
      bindE (mapE (check_requested context) requested) (\<lambda>_.
      let creations = filter (\<lambda>pda. \<not> ctx_matches context pda) requested;
          additional = filter (\<lambda>pda. pda \<notin> set (ctx_targets context)) creations in
      bindE (mapE (restore_meta H program (ctx_payer context) creations) (restoredIds encoded)) (\<lambda>metas.
      bindE (publicKeyOf H anchor) (\<lambda>anchorHashAccount.
      let instruction = \<lparr>ix_call = IxRestore (proofEncoded encoded),
            ix_accounts = [(''payer'', ctx_payer context), (''anchorHashAccount'', anchorHashAccount),
              (''systemProgram'', SYSTEM_PROGRAM)],
            ix_remaining = concat metas\<rparr> in
      bindE (net_txSize N instruction (ctx_feePayer context)) (\<lambda>transactionBytes.
      bindE (copied_archive H archive closure) (\<lambda>authenticated.
      Inr \<lparr>cand_summary = \<lparr>step_anchor = anchor, step_targets = selected, step_proof = proof,
             step_requested = requested, step_creations = creations, step_additional = additional,
             step_bytes = transactionBytes\<rparr>,
           cand_execution = \<lparr>prep_instruction = instruction, prep_archive = authenticated,
             prep_additional = additional\<rparr>\<rparr>)))))))))"

section \<open>What a compiled candidate is\<close>

lemma foldl_put_values:
  "foldl (\<lambda>ns p. put ns p (v (f p))) (map (\<lambda>(k, n). (k, v n)) nodes) ids =
     map (\<lambda>(k, n). (k, v n)) (foldl (\<lambda>ns p. put ns p (f p)) nodes ids)"
proof (induction ids arbitrary: nodes)
  case (Cons p ids)
  have "put (map (\<lambda>(k, n). (k, v n)) nodes) p (v (f p)) = map (\<lambda>(k, n). (k, v n)) (put nodes p (f p))"
    by (induction nodes p "f p" rule: put.induct) auto
  then show ?case using Cons by simp
qed simp

lemma copied_archive_known:
  assumes "host_ok H" "wf_archive H a" "\<forall>p \<in> set ids. get (arch_nodes a) p \<noteq> None"
  shows "copied_archive H a ids = Inr (restricted a ids)"
proof -
  have "foldl (\<lambda>ns p. put ns p (case get (arch_nodes a) p of None \<Rightarrow> JUndefined | Some n \<Rightarrow> node_value n)) ns ids =
      foldl (\<lambda>ns p. put ns p (node_value (the (get (arch_nodes a) p)))) ns ids" for ns
    by (rule foldl_cong) (use assms(3) in auto)
  also have "\<dots> [] = map (\<lambda>(k, n). (k, node_value n)) (arch_nodes (restricted a ids))"
    using foldl_put_values [where nodes = "[]" and v = node_value] by (simp add: restricted_def)
  finally show ?thesis
    using parseArchive_value [OF assms(1) wf_archive_part [OF assms(1,2) restricted_part [OF assms(3)]]]
    by (simp add: copied_archive_def createArchive_wf [OF assms(1,2)] archive_value_def restricted_def)
qed

text \<open>The nodes a proof asks to restore: all of the closure but the anchor and the raw hashes that
  are not targets.\<close>

definition asked :: "hash_archive \<Rightarrow> string list \<Rightarrow> string \<Rightarrow> bool" where
  "asked a targets p \<longleftrightarrow> (\<exists>n. get (arch_nodes a) p = Some n \<and> (node_source n = AHash \<longrightarrow> p \<in> set targets))"

definition requested_of :: "hash_archive \<Rightarrow> string list \<Rightarrow> bool \<Rightarrow> string \<Rightarrow> string list \<Rightarrow> string list" where
  "requested_of a targets create anchor order =
     (if create then filter (\<lambda>p. p \<noteq> anchor \<and> asked a targets p) order else [])"

definition id_at :: "host \<Rightarrow> hash_archive \<Rightarrow> string \<Rightarrow> bytes" where
  "id_at H a p = node_id H (the (get (arch_nodes a) p))"

definition links_of :: "host \<Rightarrow> hash_archive \<Rightarrow> string list \<Rightarrow> string list \<Rightarrow> string \<Rightarrow> string list \<Rightarrow> restore_proof_input list" where
  "links_of H a targets existing anchor order =
     map (compiled_link H a targets (anchor # existing)) (proof_order anchor order)"

lemma compiled_params:
  assumes "get (arch_nodes a) p = Some n"
  shows "link_params (compiled_link H a targets existing p) \<noteq> None \<longleftrightarrow> asked a targets p"
  by (cases "node_source n")
    (simp_all add: compiled_link_def link_of_def params_of_def asked_def assms Let_def)

lemma links_prepared:
  assumes "host_ok H" "wf_archive H a" "dependencyOrder H a [anchor] True = Inr order"
  shows "\<exists>ws. mapE (encode_link H) (links_of H a targets existing anchor order) = Inr ws \<and>
    prepareRestore H (links_of H a targets existing anchor order) create =
      Inr \<lparr>proofEncoded = ws, anchorId = id_at H a anchor,
        restoredIds = map (id_at H a) (requested_of a targets create anchor order)\<rparr>"
proof -
  let ?link = "compiled_link H a targets (anchor # existing)" and ?rest = "filter (\<lambda>p. p \<noteq> anchor) order"
  note ids = proof_order_set [OF assms(3)]
  have present: "get (arch_nodes a) p = Some (the (get (arch_nodes a) p))" if "p \<in> set order" for p
    by (rule order_present [OF assms(3) that]) simp
  have id: "link_id H (?link p) = Inr (id_at H a p)" if "p \<in> set order" for p
    unfolding id_at_def by (rule compiled_fields(4) [OF assms(1,2) present [OF that]])
  have "\<exists>w. encode_link H (?link p) = Inr w" if "p \<in> set order" for p
    by (rule compiled_encodes [OF assms(1-3) that])
  then obtain enc where enc: "\<And>p. p \<in> set order \<Longrightarrow> encode_link H (?link p) = Inr (enc p)" by metis
  have encoded: "mapE (encode_link H) (map ?link ps) = Inr (map enc ps)" if "set ps \<subseteq> set order" for ps
    using that by (induction ps) (auto simp: enc)
  have linked: "mapE (link_id H) (map ?link ps) = Inr (map (id_at H a) ps)" if "set ps \<subseteq> set order" for ps
    using that by (induction ps) (auto simp: id)
  have "link_params (?link p) \<noteq> None \<longleftrightarrow> asked a targets p" if "p \<in> set order" for p
    by (rule compiled_params [OF present [OF that]])
  then have "filter (\<lambda>l. link_params l \<noteq> None) (map ?link ?rest) = map ?link (filter (asked a targets) ?rest)"
    unfolding filter_map by (intro arg_cong [of _ _ "map ?link"] filter_cong) auto
  then have selection: "restore_selection (links_of H a targets existing anchor order) create =
      map ?link (requested_of a targets create anchor order)"
    by (simp add: restore_selection_def links_of_def proof_order_def requested_of_def conj_commute)
  have sub: "set (requested_of a targets create anchor order) \<subseteq> set order"
    "anchor \<notin> set (requested_of a targets create anchor order)"
    by (auto simp: requested_of_def)
  have "id_at H a p \<noteq> id_at H a anchor" if "p \<in> set order" "p \<noteq> anchor" for p
    using that(2) node_address(1,2) [OF assms(2) present [OF that(1)] assms(1)]
      node_address(1,2) [OF assms(2) present [OF ids(3)] assms(1)]
    unfolding id_at_def by (metis sum.inject(2))
  with sub have "id_at H a anchor \<notin> id_at H a ` set (requested_of a targets create anchor order)"
    by (metis imageE subsetD)
  with encoded [of "proof_order anchor order"] linked [OF sub(1)] id [OF ids(3)] ids(1) selection show ?thesis
    by (auto simp: prepareRestore_ok links_of_def proof_order_def)
qed

definition restore_instruction ::
  "host \<Rightarrow> candidate_context \<Rightarrow> string \<Rightarrow> restore_proof_input list \<Rightarrow> account_meta list \<Rightarrow> instruction" where
  "restore_instruction H context anchor links metas =
     \<lparr>ix_call = IxRestore (projr (mapE (encode_link H) links)),
       ix_accounts = [(''payer'', ctx_payer context), (''anchorHashAccount'', key_bytes H anchor),
         (''systemProgram'', SYSTEM_PROGRAM)],
       ix_remaining = metas\<rparr>"

definition existing_of :: "candidate_context \<Rightarrow> string \<Rightarrow> string list \<Rightarrow> string list" where
  "existing_of context anchor closure =
     (if ctx_create context then filter (ctx_matches context) closure else [anchor])"

definition creations_of :: "candidate_context \<Rightarrow> hash_archive \<Rightarrow> string list \<Rightarrow> string \<Rightarrow> string list \<Rightarrow> string list" where
  "creations_of context a targets anchor order =
     filter (\<lambda>p. \<not> ctx_matches context p) (requested_of a targets (ctx_create context) anchor order)"

definition candidate_of ::
  "host \<Rightarrow> candidate_context \<Rightarrow> hash_archive \<Rightarrow> string \<Rightarrow> string list \<Rightarrow> string list \<Rightarrow> account_meta list \<Rightarrow> nat \<Rightarrow>
   candidate" where
  "candidate_of H context a anchor closure selected metas bytes =
     (let links = links_of H a selected (existing_of context anchor closure) anchor closure;
          creations = creations_of context a selected anchor closure;
          additional = filter (\<lambda>p. p \<notin> set (ctx_targets context)) creations in
      \<lparr>cand_summary = \<lparr>step_anchor = anchor, step_targets = selected, step_proof = links,
         step_requested = requested_of a selected (ctx_create context) anchor closure,
         step_creations = creations, step_additional = additional, step_bytes = bytes\<rparr>,
       cand_execution = \<lparr>prep_instruction = restore_instruction H context anchor links metas,
         prep_archive = restricted a closure, prep_additional = additional\<rparr>\<rparr>)"

lemma keys_of_order:
  assumes "host_ok H" "wf_archive H a" "\<forall>p \<in> set ps. get (arch_nodes a) p \<noteq> None"
  shows "mapE (\<lambda>pda. archivePublicKey H (JString pda) path) ps = Inr ps"
proof -
  have "archivePublicKey H (JString p) path = Inr p" if "p \<in> set ps" for p
  proof -
    from assms(3) that obtain n where "get (arch_nodes a) p = Some n" by auto
    from get_mem [OF this] assms(2) have "key_text H p" by (auto simp: wf_archive_def wf_entry_def list_all_iff)
    then show ?thesis by (rule archivePublicKey_id [OF assms(1)])
  qed
  then show ?thesis by (induction ps) auto
qed

lemma snapshot_absent_same: "set xs = set ys \<Longrightarrow> snapshot_absent a xs p = snapshot_absent a ys p"
  by (simp add: snapshot_absent_def)

lemma compile_ok:
  assumes "host_ok H" "wf_archive H a" "arch_programId a = toBase58 H (prog_id program)" "length (prog_id program) = 32"
    and "dependencyOrder H a [anchor] True = Inr order" "set selected \<subseteq> set order"
  shows "compileArchiveCandidate H N program a context anchor order selected = Inr c \<longleftrightarrow>
    distinct selected \<and>
    (\<forall>p \<in> set order. \<not> snapshot_absent a (anchor # existing_of context anchor order) p) \<and>
    (\<forall>p \<in> set (requested_of a selected (ctx_create context) anchor order). check_requested context p = Inr ()) \<and>
    (\<exists>metas bytes. mapE (\<lambda>p. restore_meta H program (ctx_payer context) (creations_of context a selected anchor order) (id_at H a p))
        (requested_of a selected (ctx_create context) anchor order) = Inr metas \<and>
      net_txSize N (restore_instruction H context anchor
        (links_of H a selected (existing_of context anchor order) anchor order) (concat metas)) (ctx_feePayer context) = Inr bytes \<and>
      c = candidate_of H context a anchor order selected (concat metas) bytes)"
proof -
  let ?ex = "existing_of context anchor order" and ?req = "requested_of a selected (ctx_create context) anchor order"
  let ?links = "links_of H a selected ?ex anchor order"
  note ids = proof_order_set [OF assms(5)]
  have present: "get (arch_nodes a) p = Some (the (get (arch_nodes a) p))" if "p \<in> set order" for p
    by (rule order_present [OF assms(5) that]) simp
  have keys: "mapE (\<lambda>pda. archivePublicKey H (JString pda) path) ps = Inr ps" if "set ps \<subseteq> set order" for ps path
    by (rule keys_of_order [OF assms(1,2)]) (use that present in fastforce)
  have anchor: "archivePublicKey H (JString anchor) path = Inr anchor" for path
    using keys [of "[anchor]"] ids(3) by simp
  have ex: "set ?ex \<subseteq> set order" using ids(3) by (auto simp: existing_of_def)
  have built: "buildRestoreProof H (archive_value a) \<lparr>opt_anchor = anchor, opt_targets = selected,
        opt_existingAccounts = Some ?ex\<rparr> = Inr links \<longleftrightarrow>
      distinct selected \<and> (\<forall>p \<in> set order. \<not> snapshot_absent a (anchor # ?ex) p) \<and> links = ?links" for links
    using assms(5,6) keys [OF ex] keys [OF assms(6)]
    by (simp add: buildRestoreProof_ok [OF assms(1)] parseArchive_value [OF assms(1,2)] anchor links_of_def)
  have address: "deriveHashPda H (prog_id program) (JBytes (id_at H a p)) = Inr (key_bytes H p)"
    "toBase58 H (key_bytes H p) = p" if "p \<in> set order" for p
    using node_address(1,2) [OF assms(2) present [OF that] assms(1)] assms(1,3,4) by (simp_all add: id_at_def)
  have req: "set ?req \<subseteq> set order" by (auto simp: requested_of_def)
  have requested: "mapE (\<lambda>i. bindE (deriveHashPda H (prog_id program) (JBytes i)) (\<lambda>address. Inr (toBase58 H address)))
      (map (id_at H a) ps) = Inr ps" if "set ps \<subseteq> set order" for ps
    using that by (induction ps) (auto simp: address)
  have units: "(\<exists>us. mapE (check_requested context) ps = Inr us) \<longleftrightarrow> (\<forall>p \<in> set ps. check_requested context p = Inr ())" for ps
    by (induction ps) auto
  have metas: "mapE f (map g ps) = mapE (\<lambda>p. f (g p)) ps" for f :: "bytes \<Rightarrow> account_meta list result" and g and ps :: "string list"
    by (induction ps) auto
  have pk: "publicKeyOf H anchor = Inr (key_bytes H anchor)"
    using address(2) [OF ids(3)] key_textD(3) [OF assms(1)] anchor archivePublicKey_text by blast
  have copied: "copied_archive H a order = Inr (restricted a order)"
    by (rule copied_archive_known [OF assms(1,2)]) (use present in fastforce)
  obtain ws where ws: "mapE (encode_link H) ?links = Inr ws"
    "prepareRestore H ?links (ctx_create context) = Inr \<lparr>proofEncoded = ws, anchorId = id_at H a anchor,
      restoredIds = map (id_at H a) ?req\<rparr>"
    using links_prepared [OF assms(1,2,5)] by blast
  show ?thesis
    unfolding compileArchiveCandidate_def existing_of_def [symmetric] Let_def bindE_ok built
    using units [of ?req]
    by (auto simp: ws requested [OF req] metas pk copied restore_instruction_def candidate_of_def creations_of_def Let_def)
qed

lemma restore_metas_ok:
  "mapE (\<lambda>p. restore_meta H program payer creations (f p)) ps = Inr metas \<Longrightarrow>
     \<exists>address vote. (\<forall>p \<in> set ps. deriveHashPda H (prog_id program) (JBytes (f p)) = Inr (address p) \<and>
         deriveVotePda H (prog_id program) (JBytes (f p)) payer = Inr (vote p)) \<and>
       metas = map (\<lambda>p. [\<lparr>meta_pubkey = address p, meta_isSigner = False, meta_isWritable = toBase58 H (address p) \<in> set creations\<rparr>,
         \<lparr>meta_pubkey = vote p, meta_isSigner = False, meta_isWritable = toBase58 H (address p) \<in> set creations\<rparr>]) ps"
proof (induction ps arbitrary: metas)
  case (Cons p ps)
  then obtain m ms where m: "restore_meta H program payer creations (f p) = Inr m" "metas = m # ms"
    "mapE (\<lambda>p. restore_meta H program payer creations (f p)) ps = Inr ms" by auto
  let ?address = "\<lambda>p. projr (deriveHashPda H (prog_id program) (JBytes (f p)))"
    and ?vote = "\<lambda>p. projr (deriveVotePda H (prog_id program) (JBytes (f p)) payer)"
  show ?case
    by (rule exI [of _ ?address], rule exI [of _ ?vote])
      (use Cons.IH [OF m(3)] m(1,2) in \<open>auto simp: restore_meta_def Let_def\<close>)
qed simp

lemma check_requested_ok:
  "check_requested context p = Inr () \<longleftrightarrow> get (ctx_readErrors context) p = None \<and>
     (live_record context p \<longrightarrow> ctx_matches context p)"
  by (auto simp: check_requested_def split: option.split)

section \<open>A demonstration candidate\<close>

text \<open>The batch of the demonstration archive is live and everything else is absent.\<close>

definition demo_context :: candidate_context where
  "demo_context = \<lparr>ctx_targets = [demo_key (demo_id 0 1)], ctx_create = True, ctx_payer = replicate 32 4,
     ctx_feePayer = replicate 32 4, ctx_live = [(demo_key demo_batch_id, Some demo_batch)], ctx_readErrors = [],
     ctx_matches = (\<lambda>p. p = demo_key demo_batch_id)\<rparr>"

abbreviation demo_closure :: "string list" where
  "demo_closure \<equiv> [demo_key (demo_id 0 1), demo_key (demo_id 2 2), demo_key demo_batch_id]"

text \<open>Any such context, on any network that measures 500 bytes, compiles.\<close>

lemma demo_compile:
  assumes ctx: "ctx_targets c = [demo_key (demo_id 0 1)]" "ctx_create c" "ctx_matches c = (\<lambda>p. p = demo_key demo_batch_id)"
    "ctx_readErrors c = []" "\<And>p. p \<noteq> demo_key demo_batch_id \<Longrightarrow> \<not> live_record c p"
    and size: "\<And>ix k. net_txSize N ix k = Inr 500"
  shows "\<exists>k. compileArchiveCandidate demo_host N demo_prog demo_archive c (demo_key demo_batch_id)
      demo_closure [demo_key (demo_id 0 1)] = Inr k \<and>
    step_requested (cand_summary k) = [demo_key (demo_id 0 1), demo_key (demo_id 2 2)] \<and>
    step_additional (cand_summary k) = [demo_key (demo_id 2 2)]"
proof -
  let ?anchor = "demo_key demo_batch_id" and ?sel = "[demo_key (demo_id 0 1)]"
  have req: "requested_of demo_archive ?sel True ?anchor demo_closure = [demo_key (demo_id 0 1), demo_key (demo_id 2 2)]"
    by (simp add: requested_of_def asked_def demo_nodes demo_branch_def)
  have ex: "existing_of c ?anchor demo_closure = [?anchor]"
    by (simp add: existing_of_def ctx)
  have ids: "id_at demo_host demo_archive (demo_key (demo_id 0 1)) = demo_id 0 1"
    "id_at demo_host demo_archive (demo_key (demo_id 2 2)) = demo_id 2 2"
    by (simp_all add: id_at_def demo_nodes demo_node_ids)
  have vote: "deriveVotePda demo_host k (JBytes i) w = Inr i" if "length i = 32" for k i w
    using that by (simp add: deriveVotePda_def findPda_def demo_find_def)
  let ?creations = "creations_of c demo_archive ?sel ?anchor demo_closure"
  have metas: "\<exists>metas. mapE (\<lambda>p. restore_meta demo_host demo_prog (ctx_payer c) ?creations (id_at demo_host demo_archive p))
      [demo_key (demo_id 0 1), demo_key (demo_id 2 2)] = Inr metas"
    by (simp add: restore_meta_def ids vote Let_def)
  then obtain metas where metas: "mapE (\<lambda>p. restore_meta demo_host demo_prog (ctx_payer c) ?creations (id_at demo_host demo_archive p))
      [demo_key (demo_id 0 1), demo_key (demo_id 2 2)] = Inr metas" ..
  have snap: "\<not> snapshot_absent demo_archive [?anchor, ?anchor] p" if "p \<in> set demo_closure" for p
    using that by (auto simp: snapshot_absent_def demo_nodes demo_leaf_def demo_branch_def)
  have req': "requested_of demo_archive ?sel (ctx_create c) ?anchor demo_closure =
      [demo_key (demo_id 0 1), demo_key (demo_id 2 2)]" using req ctx(2) by simp
  have checks: "check_requested c p = Inr ()" if "p \<in> set [demo_key (demo_id 0 1), demo_key (demo_id 2 2)]" for p
    using that by (auto simp: check_requested_ok ctx)
  let ?c = "candidate_of demo_host c demo_archive ?anchor demo_closure ?sel (concat metas) 500"
  have "compileArchiveCandidate demo_host N demo_prog demo_archive c ?anchor demo_closure ?sel = Inr ?c"
  proof (subst compile_ok)
    show "wf_archive demo_host demo_archive" by (rule parseArchive_wf [OF demo_host_ok demo_parsed(1)])
    show "distinct ?sel \<and>
      (\<forall>p\<in>set demo_closure. \<not> snapshot_absent demo_archive (?anchor # existing_of c ?anchor demo_closure) p) \<and>
      (\<forall>p\<in>set (requested_of demo_archive ?sel (ctx_create c) ?anchor demo_closure). check_requested c p = Inr ()) \<and>
      (\<exists>ms b. mapE (\<lambda>p. restore_meta demo_host demo_prog (ctx_payer c) ?creations (id_at demo_host demo_archive p))
          (requested_of demo_archive ?sel (ctx_create c) ?anchor demo_closure) = Inr ms \<and>
        net_txSize N (restore_instruction demo_host c ?anchor
          (links_of demo_host demo_archive ?sel (existing_of c ?anchor demo_closure) ?anchor demo_closure) (concat ms))
          (ctx_feePayer c) = Inr b \<and>
        ?c = candidate_of demo_host c demo_archive ?anchor demo_closure ?sel (concat ms) b)"
      unfolding ex req' using metas snap checks size by (intro conjI exI [of _ metas] exI [of _ "500 :: nat"]) simp_all
  qed (simp_all add: demo_programs demo_program_def demo_batch_order)
  moreover have "step_requested (cand_summary ?c) = [demo_key (demo_id 0 1), demo_key (demo_id 2 2)]"
    "step_additional (cand_summary ?c) = [demo_key (demo_id 2 2)]"
    using req by (simp_all add: candidate_of_def Let_def creations_of_def ctx)
  ultimately show ?thesis by blast
qed

lemma demo_candidate:
  "\<exists>k. compileArchiveCandidate demo_host demo_net demo_prog demo_archive demo_context (demo_key demo_batch_id)
      demo_closure [demo_key (demo_id 0 1)] = Inr k \<and>
    step_requested (cand_summary k) = [demo_key (demo_id 0 1), demo_key (demo_id 2 2)] \<and>
    step_additional (cand_summary k) = [demo_key (demo_id 2 2)]"
  by (rule demo_compile) (simp_all add: demo_context_def live_record_def demo_net_def)

section \<open>Properties\<close>

text \<open>C32: a compiled candidate is what a step promises. Its proof is the one \<open>buildRestoreProof\<close>
  makes and its instruction carries exactly the encoding of that proof, within the measured size;
  with creation it requests every node of the anchor's closure except the anchor and the raw
  hashes that are not selected, each of which was read without an error and is absent or unchanged
  on the chain; the nodes it expects to create are the requested ones that are not live, the
  additional ones those nobody asked for; and the archive it authenticates holds the records of
  the closure and no others.\<close>

theorem compileArchiveCandidate_correct:
  assumes "host_ok H" "parseArchive H input = Inr a" "arch_programId a = toBase58 H (prog_id program)"
    and "length (prog_id program) = 32" "dependencyOrder H a [anchor] True = Inr closure" "set selected \<subseteq> set closure"
    and "compileArchiveCandidate H N program a context anchor closure selected = Inr c"
  shows "\<exists>encoded. buildRestoreProof H (archive_value a) \<lparr>opt_anchor = anchor, opt_targets = selected,
      opt_existingAccounts = Some (if ctx_create context then filter (ctx_matches context) closure else [anchor])\<rparr>
        = Inr (step_proof (cand_summary c)) \<and>
    prepareRestore H (step_proof (cand_summary c)) (ctx_create context) = Inr encoded \<and>
    ix_call (prep_instruction (cand_execution c)) = IxRestore (proofEncoded encoded) \<and>
    net_txSize N (prep_instruction (cand_execution c)) (ctx_feePayer context) = Inr (step_bytes (cand_summary c)) \<and>
    step_requested (cand_summary c) = (if ctx_create context
      then filter (\<lambda>p. p \<noteq> anchor \<and> \<not> (node_source (the (get (arch_nodes a) p)) = AHash \<and> p \<notin> set selected)) closure
      else []) \<and>
    (\<forall>p \<in> set (step_requested (cand_summary c)).
      get (ctx_readErrors context) p = None \<and> (live_record context p \<longrightarrow> ctx_matches context p)) \<and>
    step_creations (cand_summary c) = filter (\<lambda>p. \<not> ctx_matches context p) (step_requested (cand_summary c)) \<and>
    step_additional (cand_summary c) = filter (\<lambda>p. p \<notin> set (ctx_targets context)) (step_creations (cand_summary c)) \<and>
    step_anchor (cand_summary c) = anchor \<and> step_targets (cand_summary c) = selected \<and>
    prep_additional (cand_execution c) = step_additional (cand_summary c) \<and>
    arch_programId (prep_archive (cand_execution c)) = arch_programId a \<and>
    (\<forall>p. get (arch_nodes (prep_archive (cand_execution c))) p = (if p \<in> set closure then get (arch_nodes a) p else None))"
proof -
  have wf: "wf_archive H a" by (rule parseArchive_wf [OF assms(1,2)])
  let ?ex = "existing_of context anchor closure"
  obtain metas bytes where c: "distinct selected" "\<forall>p \<in> set closure. \<not> snapshot_absent a (anchor # ?ex) p"
    "\<forall>p \<in> set (requested_of a selected (ctx_create context) anchor closure). check_requested context p = Inr ()"
    "net_txSize N (restore_instruction H context anchor (links_of H a selected ?ex anchor closure) (concat metas))
      (ctx_feePayer context) = Inr bytes"
    "c = candidate_of H context a anchor closure selected (concat metas) bytes"
    using assms(7) unfolding compile_ok [OF assms(1) wf assms(3-6)] by blast
  have present: "get (arch_nodes a) p = Some (the (get (arch_nodes a) p))" if "p \<in> set closure" for p
    by (rule order_present [OF assms(5) that]) simp
  have ids: "mapE (\<lambda>pda. archivePublicKey H (JString pda) path) ps = Inr ps" if "set ps \<subseteq> set closure" for ps path
    by (rule keys_of_order [OF assms(1) wf]) (use that present in fastforce)
  have anchor: "anchor \<in> set closure" by (rule proof_order_set(3) [OF assms(5)])
  then have ex: "set ?ex \<subseteq> set closure" by (auto simp: existing_of_def)
  have built: "buildRestoreProof H (archive_value a) \<lparr>opt_anchor = anchor, opt_targets = selected,
      opt_existingAccounts = Some ?ex\<rparr> = Inr (links_of H a selected ?ex anchor closure)"
    using assms(5,6) ids [OF ex] ids [OF assms(6)] ids [of "[anchor]"] anchor c(1,2)
    by (simp add: buildRestoreProof_ok [OF assms(1)] parseArchive_value [OF assms(1) wf] links_of_def)
  obtain ws where ws: "mapE (encode_link H) (links_of H a selected ?ex anchor closure) = Inr ws"
    "prepareRestore H (links_of H a selected ?ex anchor closure) (ctx_create context) = Inr \<lparr>proofEncoded = ws,
      anchorId = id_at H a anchor, restoredIds = map (id_at H a) (requested_of a selected (ctx_create context) anchor closure)\<rparr>"
    using links_prepared [OF assms(1) wf assms(5)] by blast
  have "asked a selected p \<longleftrightarrow> \<not> (node_source (the (get (arch_nodes a) p)) = AHash \<and> p \<notin> set selected)" if "p \<in> set closure" for p
    using present [OF that] by (auto simp: asked_def)
  then have req: "requested_of a selected (ctx_create context) anchor closure = (if ctx_create context
      then filter (\<lambda>p. p \<noteq> anchor \<and> \<not> (node_source (the (get (arch_nodes a) p)) = AHash \<and> p \<notin> set selected)) closure
      else [])"
    unfolding requested_of_def by (auto intro!: filter_cong)
  have cand: "step_proof (cand_summary c) = links_of H a selected ?ex anchor closure"
    "step_requested (cand_summary c) = requested_of a selected (ctx_create context) anchor closure"
    "step_creations (cand_summary c) = filter (\<lambda>p. \<not> ctx_matches context p) (step_requested (cand_summary c))"
    "step_additional (cand_summary c) = filter (\<lambda>p. p \<notin> set (ctx_targets context)) (step_creations (cand_summary c))"
    "prep_instruction (cand_execution c) = restore_instruction H context anchor (links_of H a selected ?ex anchor closure) (concat metas)"
    "step_bytes (cand_summary c) = bytes" "step_anchor (cand_summary c) = anchor" "step_targets (cand_summary c) = selected"
    "prep_archive (cand_execution c) = restricted a closure" "prep_additional (cand_execution c) = step_additional (cand_summary c)"
    by (simp_all add: c(5) candidate_of_def creations_of_def Let_def)
  have call: "ix_call (prep_instruction (cand_execution c)) = IxRestore ws"
    by (simp add: cand(5) restore_instruction_def ws(1))
  have archive: "get (arch_nodes (restricted a closure)) p = (if p \<in> set closure then get (arch_nodes a) p else None)" for p
    using present by (simp add: restricted_get)
  have program: "arch_programId (restricted a closure) = arch_programId a" by (simp add: restricted_def)
  show ?thesis
    unfolding cand(1,6-9) existing_of_def [symmetric]
    using built ws(2) call c(3,4) cand(2-5,10) archive program req
    by (intro exI [of _ "\<lparr>proofEncoded = ws, anchorId = id_at H a anchor,
        restoredIds = map (id_at H a) (requested_of a selected (ctx_create context) anchor closure)\<rparr>"] conjI)
      (simp_all add: check_requested_ok)
qed

lemma compileArchiveCandidate_correct_witness:
  "\<exists>c. compileArchiveCandidate demo_host demo_net demo_prog demo_archive demo_context (demo_key demo_batch_id)
      demo_closure [demo_key (demo_id 0 1)] = Inr c \<and>
    step_creations (cand_summary c) = filter (\<lambda>p. \<not> ctx_matches demo_context p) (step_requested (cand_summary c)) \<and>
    step_requested (cand_summary c) = [demo_key (demo_id 0 1), demo_key (demo_id 2 2)]"
proof -
  obtain c where c: "compileArchiveCandidate demo_host demo_net demo_prog demo_archive demo_context (demo_key demo_batch_id)
      demo_closure [demo_key (demo_id 0 1)] = Inr c" "step_requested (cand_summary c) = [demo_key (demo_id 0 1), demo_key (demo_id 2 2)]"
    using demo_candidate by blast
  have "arch_programId demo_archive = toBase58 demo_host (prog_id demo_prog)" by (simp add: demo_program_def)
  from compileArchiveCandidate_correct [OF demo_host_ok demo_parsed(1) this _ demo_batch_order _ c(1)] c
  show ?thesis by auto
qed

text \<open>C33: the instruction of a candidate never touches what is already there: its remaining
  accounts are, for each requested node in order, the record and the payer's vote account, at the
  addresses their ids derive, none of them a signer; both are writable exactly when the node is
  expected to be created, so a live record is never writable.\<close>

theorem compileArchiveCandidate_accounts:
  assumes "host_ok H" "parseArchive H input = Inr a" "arch_programId a = toBase58 H (prog_id program)"
    and "length (prog_id program) = 32" "dependencyOrder H a [anchor] True = Inr closure" "set selected \<subseteq> set closure"
    and "compileArchiveCandidate H N program a context anchor closure selected = Inr c"
  shows "\<exists>vote. ix_remaining (prep_instruction (cand_execution c)) = concat (map (\<lambda>p.
      [\<lparr>meta_pubkey = key_bytes H p, meta_isSigner = False, meta_isWritable = \<not> ctx_matches context p\<rparr>,
       \<lparr>meta_pubkey = vote p, meta_isSigner = False, meta_isWritable = \<not> ctx_matches context p\<rparr>])
      (step_requested (cand_summary c))) \<and>
    (\<forall>p \<in> set (step_requested (cand_summary c)). \<exists>n. get (arch_nodes a) p = Some n \<and>
      deriveHashPda H (prog_id program) (JBytes (node_id H n)) = Inr (key_bytes H p) \<and>
      deriveVotePda H (prog_id program) (JBytes (node_id H n)) (ctx_payer context) = Inr (vote p)) \<and>
    ix_accounts (prep_instruction (cand_execution c)) =
      [(''payer'', ctx_payer context), (''anchorHashAccount'', key_bytes H anchor), (''systemProgram'', SYSTEM_PROGRAM)]"
proof -
  have wf: "wf_archive H a" by (rule parseArchive_wf [OF assms(1,2)])
  let ?req = "requested_of a selected (ctx_create context) anchor closure"
    and ?creations = "creations_of context a selected anchor closure"
  obtain metas bytes where c: "mapE (\<lambda>p. restore_meta H program (ctx_payer context) ?creations (id_at H a p)) ?req = Inr metas"
    "c = candidate_of H context a anchor closure selected (concat metas) bytes"
    using assms(7) unfolding compile_ok [OF assms(1) wf assms(3-6)] by blast
  obtain address vote where v: "\<forall>p \<in> set ?req. deriveHashPda H (prog_id program) (JBytes (id_at H a p)) = Inr (address p) \<and>
      deriveVotePda H (prog_id program) (JBytes (id_at H a p)) (ctx_payer context) = Inr (vote p)"
    "metas = map (\<lambda>p. [\<lparr>meta_pubkey = address p, meta_isSigner = False, meta_isWritable = toBase58 H (address p) \<in> set ?creations\<rparr>,
       \<lparr>meta_pubkey = vote p, meta_isSigner = False, meta_isWritable = toBase58 H (address p) \<in> set ?creations\<rparr>]) ?req"
    using restore_metas_ok [OF c(1)] by blast
  have node: "get (arch_nodes a) p = Some (the (get (arch_nodes a) p)) \<and> address p = key_bytes H p \<and>
      (toBase58 H (key_bytes H p) \<in> set ?creations \<longleftrightarrow> \<not> ctx_matches context p) \<and>
      deriveHashPda H (prog_id program) (JBytes (id_at H a p)) = Inr (key_bytes H p)" if p: "p \<in> set ?req" for p
  proof -
    have "p \<in> set closure" using p by (auto simp: requested_of_def split: if_splits)
    then have "get (arch_nodes a) p = Some (the (get (arch_nodes a) p))" by (rule order_present [OF assms(5)]) simp
    with node_address(1,2) [OF wf this assms(1)] v(1) p show ?thesis
      using assms(1,3,4) by (auto simp: id_at_def creations_of_def)
  qed
  have metas: "metas = map (\<lambda>p. [\<lparr>meta_pubkey = key_bytes H p, meta_isSigner = False, meta_isWritable = \<not> ctx_matches context p\<rparr>,
      \<lparr>meta_pubkey = vote p, meta_isSigner = False, meta_isWritable = \<not> ctx_matches context p\<rparr>]) ?req"
    unfolding v(2) by (intro map_cong [OF refl]) (simp only: node)
  have "\<forall>p \<in> set ?req. \<exists>n. get (arch_nodes a) p = Some n \<and>
      deriveHashPda H (prog_id program) (JBytes (node_id H n)) = Inr (key_bytes H p) \<and>
      deriveVotePda H (prog_id program) (JBytes (node_id H n)) (ctx_payer context) = Inr (vote p)"
    using node v(1) unfolding id_at_def by blast
  then show ?thesis
    by (intro exI [of _ vote]) (simp add: c(2) metas candidate_of_def restore_instruction_def Let_def)
qed

lemma compileArchiveCandidate_accounts_witness:
  "\<exists>c. compileArchiveCandidate demo_host demo_net demo_prog demo_archive demo_context (demo_key demo_batch_id)
      demo_closure [demo_key (demo_id 0 1)] = Inr c \<and>
    map meta_isWritable (ix_remaining (prep_instruction (cand_execution c))) = [True, True, True, True]"
proof -
  obtain c where c: "compileArchiveCandidate demo_host demo_net demo_prog demo_archive demo_context (demo_key demo_batch_id)
      demo_closure [demo_key (demo_id 0 1)] = Inr c" "step_requested (cand_summary c) = [demo_key (demo_id 0 1), demo_key (demo_id 2 2)]"
    using demo_candidate by blast
  have "arch_programId demo_archive = toBase58 demo_host (prog_id demo_prog)" by (simp add: demo_program_def)
  from compileArchiveCandidate_accounts [OF demo_host_ok demo_parsed(1) this _ demo_batch_order _ c(1)] c
  show ?thesis by (auto simp: demo_context_def)
qed

end
