(* ===== verification/RestorePlan.thy ===== *)
theory RestorePlan
  imports Candidate
begin

text \<open>
  \<open>client/archive-restore.ts\<close>: read-only planning of a restoration, and the execution of
  a plan. A JavaScript call that does not return is \<open>None\<close>; the two loops of the planner are
  shown to return below.
\<close>

section \<open>Reading the chain\<close>

type_synonym reads = "archive_node option object \<times> string object"

text \<open>The body of one \<open>map\<close> callback: a failed read is recorded, never taken as absence.\<close>

definition read_record :: "host \<Rightarrow> net \<Rightarrow> program \<Rightarrow> reads \<Rightarrow> string \<Rightarrow> reads client" where
  "read_record H N program maps pda = (case maps of (live, readErrors) \<Rightarrow>
     catchC
       (bindC (readArchiveRecord H N program pda None) (\<lambda>record. returnC (put live pda record, readErrors)))
       (\<lambda>e. returnC (live, put readErrors pda (error_string N e))))"

text \<open>One \<open>Promise.all\<close>: the requests of a chunk are made in the order of its keys.\<close>

fun read_chunk :: "host \<Rightarrow> net \<Rightarrow> program \<Rightarrow> reads \<Rightarrow> string list \<Rightarrow> reads client" where
  "read_chunk H N program maps [] = returnC maps"
| "read_chunk H N program maps (pda # pdas) =
     bindC (read_record H N program maps pda) (\<lambda>maps'. read_chunk H N program maps' pdas)"

function read_records :: "host \<Rightarrow> net \<Rightarrow> program \<Rightarrow> reads \<Rightarrow> string list \<Rightarrow> reads client" where
  "read_records H N program maps pdas = (if pdas = [] then returnC maps
     else bindC (read_chunk H N program maps (take 8 pdas)) (\<lambda>maps'. read_records H N program maps' (drop 8 pdas)))"
  by pat_completeness auto
termination by (relation "measure (\<lambda>(H, N, program, maps, pdas). length pdas)") auto

declare read_records.simps [simp del]

text \<open>\<open>matches\<close>. Only nodes of the archive are read, so a live record has a node.\<close>

definition record_matches :: "host \<Rightarrow> hash_archive \<Rightarrow> archive_node option object \<Rightarrow> string \<Rightarrow> bool" where
  "record_matches H archive live pda = (case (get live pda, get (arch_nodes archive) pda) of
      (Some (Some record), Some node) \<Rightarrow> sameArchiveRecord H record node
    | _ \<Rightarrow> False)"

section \<open>Candidates of an anchor\<close>

text \<open>\<open>usable\<close> and \<open>plan.rejectedAnchors\<close>, both only appended to.\<close>

type_synonym attempts = "candidate list \<times> (string \<times> string) list"

definition reject :: "net \<Rightarrow> string \<Rightarrow> error \<Rightarrow> attempts \<Rightarrow> attempts" where
  "reject N anchor e attempts = (fst attempts, snd attempts @ [(anchor, error_string N (Plain e))])"

text \<open>The \<open>while (selections.length)\<close> loop; the head of the list is the top of the stack.
  A selection that does not compile is halved until one node is left.\<close>

partial_function (option) split_selections ::
  "net \<Rightarrow> (string list \<Rightarrow> candidate result) \<Rightarrow> string \<Rightarrow> string list list \<Rightarrow> attempts \<Rightarrow> attempts option" where
  "split_selections N compile anchor selections attempts = (case selections of
      [] \<Rightarrow> Some attempts
    | selected # rest \<Rightarrow> (case compile selected of
        Inr candidate \<Rightarrow> split_selections N compile anchor rest (fst attempts @ [candidate], snd attempts)
      | Inl e \<Rightarrow>
          if length selected = 1
          then split_selections N compile anchor rest (fst attempts,
            snd attempts @ [(anchor, hd selected @ '': '' @ error_string N (Plain e))])
          else let half = (length selected + 1) div 2 in
            split_selections N compile anchor (take half selected # drop half selected # rest) attempts))"

definition try_anchor ::
  "host \<Rightarrow> net \<Rightarrow> program \<Rightarrow> hash_archive \<Rightarrow> candidate_context \<Rightarrow> string \<Rightarrow> attempts \<Rightarrow> attempts option" where
  "try_anchor H N program archive context anchor attempts =
     (case get (ctx_readErrors context) anchor of
        Some reason \<Rightarrow> Some (reject N anchor (Error reason) attempts)
      | None \<Rightarrow>
          if get (arch_nodes archive) anchor = None \<or> \<not> ctx_matches context anchor
          then Some (reject N anchor (Error ''Anchor is absent or has a different historical state'') attempts)
          else (case dependencyOrder H archive [anchor] True of
              Inl e \<Rightarrow> Some (reject N anchor e attempts)
            | Inr closure \<Rightarrow>
                let covered = filter (\<lambda>target. target \<in> set closure) (ctx_targets context) in
                if covered = [] then Some attempts
                else split_selections N (compileArchiveCandidate H N program archive context anchor closure)
                  anchor [covered] attempts))"

fun try_anchors ::
  "host \<Rightarrow> net \<Rightarrow> program \<Rightarrow> hash_archive \<Rightarrow> candidate_context \<Rightarrow> string list \<Rightarrow> attempts \<Rightarrow> attempts option" where
  "try_anchors H N program archive context [] attempts = Some attempts"
| "try_anchors H N program archive context (anchor # anchors) attempts =
     (case try_anchor H N program archive context anchor attempts of
        None \<Rightarrow> None
      | Some attempts' \<Rightarrow> try_anchors H N program archive context anchors attempts')"

section \<open>Greedy selection\<close>

definition coverage :: "string list \<Rightarrow> candidate \<Rightarrow> nat" where
  "coverage remaining c = length (filter (\<lambda>pda. pda \<in> set remaining) (step_targets (cand_summary c)))"

text \<open>The comparator is at most 0. At its third test the coverages are equal, and the quotients of
  the byte counts by it are compared exactly (doubles separate quotients of integers this small).\<close>

definition candidate_le :: "host \<Rightarrow> string list \<Rightarrow> candidate \<Rightarrow> candidate \<Rightarrow> bool" where
  "candidate_le H remaining a b =
     (let share = (\<lambda>c. of_nat (step_bytes (cand_summary c)) / of_nat (coverage remaining c) :: rat);
          extra = (\<lambda>c. length (step_additional (cand_summary c))) in
      if coverage remaining b \<noteq> coverage remaining a then coverage remaining b < coverage remaining a
      else if extra a \<noteq> extra b then extra a < extra b
      else if share a \<noteq> share b then share a < share b
      else localeLe H (step_anchor (cand_summary a)) (step_anchor (cand_summary b)))"

definition ranked :: "host \<Rightarrow> string list \<Rightarrow> candidate list \<Rightarrow> candidate list" where
  "ranked H remaining usable = sort_by (candidate_le H remaining)
     (filter (\<lambda>c. list_ex (\<lambda>pda. pda \<in> set remaining) (step_targets (cand_summary c))) usable)"

text \<open>The \<open>while (remaining.size)\<close> loop; \<open>Inl\<close> is what no candidate covers.\<close>

function pick_steps :: "host \<Rightarrow> candidate list \<Rightarrow> string list \<Rightarrow> candidate list \<Rightarrow> string list + candidate list" where
  "pick_steps H usable remaining picked = (if remaining = [] then Inr picked
     else (case ranked H remaining usable of
         [] \<Rightarrow> Inl remaining
       | best # _ \<Rightarrow> pick_steps H usable
           (filter (\<lambda>pda. pda \<notin> set (step_targets (cand_summary best))) remaining) (picked @ [best])))"
  by pat_completeness auto
termination
proof (relation "measure (\<lambda>(H, usable, remaining, picked). length remaining)")
  fix H usable remaining picked best rest
  assume "remaining \<noteq> []" "ranked H remaining usable = best # rest"
  then have "best \<in> set (ranked H remaining usable)" by simp
  then obtain p where "p \<in> set remaining" "p \<in> set (step_targets (cand_summary best))"
    by (auto simp: ranked_def list_ex_iff)
  then have "length (filter (\<lambda>pda. pda \<notin> set (step_targets (cand_summary best))) remaining) < length remaining"
    by (intro length_filter_less) auto
  then show "((H, usable, filter (\<lambda>pda. pda \<notin> set (step_targets (cand_summary best))) remaining, picked @ [best]),
      (H, usable, remaining, picked)) \<in> measure (\<lambda>(H, usable, remaining, picked). length remaining)"
    by simp
qed simp

declare pick_steps.simps [simp del]

section \<open>Planning\<close>

record execution =
  exec_connection :: nat
  exec_endpoint :: string
  exec_programId :: string
  exec_payer :: string
  exec_feePayer :: string
  exec_present :: hash_archive
  exec_steps :: "prepared_step list"

text \<open>The \<open>prepared\<close> map: plans are numbered in the order they are made, and a plan's number
  stands for the identity of the plan object.\<close>

type_synonym plans = "execution list"

definition anchors_to_try :: "host \<Rightarrow> hash_archive \<Rightarrow> string option \<Rightarrow> string list result" where
  "anchors_to_try H archive option = (case option of
      None \<Rightarrow> Inr (sort_by codeunit_le (keys (arch_nodes archive)))
    | Some anchor \<Rightarrow>
        if anchor \<noteq> [] \<and> anchor \<noteq> ''auto''
        then bindE (archivePublicKey H (JString anchor) ''address'') (\<lambda>pda. Inr [pda])
        else Inr (sort_by codeunit_le (keys (arch_nodes archive))))"

text \<open>Everything before the first read: archive, targets, and the anchors to try.\<close>

definition plan_inputs ::
  "host \<Rightarrow> program \<Rightarrow> jsval \<Rightarrow> restore_options \<Rightarrow> (hash_archive \<times> string list \<times> string list) result" where
  "plan_inputs H program input options =
     bindE (parseArchive H input) (\<lambda>archive.
     if arch_programId archive \<noteq> toBase58 H (prog_id program)
     then Inl (Error ''Archive belongs to a different program'')
     else bindE (mapE (\<lambda>pda. archivePublicKey H (JString pda) ''address'') (ropt_targets options)) (\<lambda>targets.
       if targets = [] \<or> \<not> distinct targets then Inl (Error ''Supply nonempty unique restore targets'')
       else (case find (\<lambda>target. get (arch_nodes archive) target = None) targets of
           Some target \<Rightarrow> Inl (Error (''Unknown restore target: '' @ target))
         | None \<Rightarrow>
             bindE (anchors_to_try H archive (ropt_anchor options)) (\<lambda>candidates.
             Inr (archive, targets, candidates)))))"

text \<open>\<open>options.createAccounts !== false\<close>.\<close>

definition create_accounts :: "bool option \<Rightarrow> bool" where
  "create_accounts option \<longleftrightarrow> option \<noteq> Some False"

definition no_proof_message :: "string list \<Rightarrow> (string \<times> string) list \<Rightarrow> string" where
  "no_proof_message remaining rejected =
     ''No complete, live, transaction-sized proof for: '' @ join '', '' remaining @ ''. '' @
     join ''; '' (map (\<lambda>(anchor, reason). anchor @ '': '' @ reason) rejected)"

text \<open>Everything after the last read.\<close>

definition assemble_plan ::
  "host \<Rightarrow> net \<Rightarrow> program \<Rightarrow> hash_archive \<Rightarrow> candidate_context \<Rightarrow> string list \<Rightarrow>
   (restore_plan \<times> execution) result option" where
  "assemble_plan H N program archive context candidates =
     (let alreadyPresent = (if ctx_create context then filter (ctx_matches context) (ctx_targets context) else []);
          remaining = filter (\<lambda>pda. pda \<notin> set alreadyPresent) (ctx_targets context) in
      case copied_archive H archive alreadyPresent of
        Inl e \<Rightarrow> Some (Inl e)
      | Inr present \<Rightarrow> (case try_anchors H N program archive context candidates ([], []) of
          None \<Rightarrow> None
        | Some (usable, rejected) \<Rightarrow> (case pick_steps H usable remaining [] of
            Inl left \<Rightarrow> Some (Inl (Error (no_proof_message left rejected)))
          | Inr picked \<Rightarrow> Some (Inr (
              \<lparr>plan_programId = arch_programId archive, plan_payer = toBase58 H (ctx_payer context),
                plan_feePayer = toBase58 H (ctx_feePayer context), plan_steps = map cand_summary picked,
                plan_alreadyPresent = alreadyPresent, plan_rejectedAnchors = rejected\<rparr>,
              \<lparr>exec_connection = prog_connection program, exec_endpoint = prog_endpoint program,
                exec_programId = arch_programId archive, exec_payer = toBase58 H (ctx_payer context),
                exec_feePayer = toBase58 H (ctx_feePayer context), exec_present = present,
                exec_steps = map cand_execution picked\<rparr>)))))"

definition plan_context :: "host \<Rightarrow> hash_archive \<Rightarrow> string list \<Rightarrow> bool \<Rightarrow> bytes \<Rightarrow> bytes \<Rightarrow> reads \<Rightarrow> candidate_context" where
  "plan_context H archive targets create payer feePayer maps =
     \<lparr>ctx_targets = targets, ctx_create = create, ctx_payer = payer, ctx_feePayer = feePayer, ctx_live = fst maps,
      ctx_readErrors = snd maps, ctx_matches = record_matches H archive (fst maps)\<rparr>"

type_synonym planned = "((client_error + nat \<times> restore_plan) \<times> plans \<times> event list) option"

definition planArchiveRestore ::
  "host \<Rightarrow> net \<Rightarrow> program \<Rightarrow> plans \<Rightarrow> jsval \<Rightarrow> restore_options \<Rightarrow> bytes \<Rightarrow> bytes \<Rightarrow> event list \<Rightarrow> planned" where
  "planArchiveRestore H N program prepared input options payer feePayer t =
     (case plan_inputs H program input options of
        Inl e \<Rightarrow> Some (Inl (Plain e), prepared, t)
      | Inr (archive, targets, candidates) \<Rightarrow>
          (case read_records H N program ([], []) (keys (arch_nodes archive)) t of
             (Inl e, t') \<Rightarrow> Some (Inl e, prepared, t')
           | (Inr maps, t') \<Rightarrow>
               (case assemble_plan H N program archive
                   (plan_context H archive targets (create_accounts (ropt_createAccounts options)) payer feePayer maps) candidates of
                  None \<Rightarrow> None
                | Some (Inl e) \<Rightarrow> Some (Inl (Plain e), prepared, t')
                | Some (Inr (plan, execution)) \<Rightarrow> Some (Inr (length prepared, plan), prepared @ [execution], t'))))"

section \<open>Execution\<close>

text \<open>The loop over \<open>execution.steps.entries()\<close>: a signature is recorded before the archive is
  extended, so a failure after the transaction was confirmed still reports it.\<close>

fun run_steps ::
  "host \<Rightarrow> net \<Rightarrow> bytes \<Rightarrow> bytes list \<Rightarrow> nat \<Rightarrow> restore_result \<Rightarrow> prepared_step list \<Rightarrow> restore_result client" where
  "run_steps H N feePayer signers index result [] t = (Inr result, t)"
| "run_steps H N feePayer signers index result (step # steps) t =
     (let tx = prep_instruction step; t' = t @ [ESend tx feePayer signers] in
      case net_send N t tx feePayer signers of
        Inl e \<Rightarrow> (Inl (ExecutionError (result_signatures result) (result_archive result) index (Plain e)), t')
      | Inr signature \<Rightarrow>
          let signatures = result_signatures result @ [signature] in
          (case mergeArchives H (archive_value (result_archive result)) [archive_value (prep_archive step)] of
             Inl e \<Rightarrow> (Inl (ExecutionError signatures (result_archive result) index (Plain e)), t')
           | Inr merged \<Rightarrow> run_steps H N feePayer signers (Suc index)
               \<lparr>result_signatures = signatures, result_archive = merged\<rparr> steps t'))"

definition executeArchiveRestore ::
  "host \<Rightarrow> net \<Rightarrow> program \<Rightarrow> plans \<Rightarrow> nat \<Rightarrow> bytes option \<Rightarrow> bytes \<Rightarrow> bytes \<Rightarrow> bool \<Rightarrow> restore_result client" where
  "executeArchiveRestore H N program prepared plan payer payerKey feePayer allowAdditionalRecords =
     (if length prepared \<le> plan then throwC (Plain (Error ''Unknown restore plan; call planRestore first''))
      else let execution = prepared ! plan in
        if exec_connection execution \<noteq> prog_connection program \<or> exec_endpoint execution \<noteq> prog_endpoint program \<or>
           exec_programId execution \<noteq> toBase58 H (prog_id program) \<or> exec_payer execution \<noteq> toBase58 H payerKey \<or>
           exec_feePayer execution \<noteq> toBase58 H feePayer
        then throwC (Plain (Error ''Restore plan connection, program or signer changed; replan before signing''))
        else if \<not> allowAdditionalRecords \<and> list_ex (\<lambda>step. prep_additional step \<noteq> []) (exec_steps execution)
        then throwC (Plain (Error
          ''Restore requires additional records; inspect the plan and explicitly allowAdditionalRecords''))
        else if \<not> prog_sendAndConfirm program
        then throwC (Plain (Error ''Provider must implement sendAndConfirm''))
        else bindC (pureC (parseArchive H (archive_value (exec_present execution)))) (\<lambda>archive.
          run_steps H N feePayer (case payer of None \<Rightarrow> [] | Some key \<Rightarrow> [key]) 0
            \<lparr>result_signatures = [], result_archive = archive\<rparr> (exec_steps execution)))"

end
