(* ===== verification/PlanLoops.thy ===== *)
theory PlanLoops
  imports RestorePlan
begin

text \<open>
  The loops of the restore planner: the chunked reads, the halving of selections (which
  always returns) and the greedy choice of steps.
\<close>

section \<open>Reads\<close>

lemma bindC_assoc: "bindC (bindC m f) g = bindC m (\<lambda>x. bindC (f x) g)"
  by (auto simp: bindC_def fun_eq_iff split: prod.split sum.split)

lemma bindC_return [simp]: "bindC (returnC x) f = f x" "bindC m returnC = m"
  by (auto simp: bindC_def fun_eq_iff split: prod.split sum.split)

lemma read_chunk_append:
  "read_chunk H N program maps (xs @ ys) = bindC (read_chunk H N program maps xs) (\<lambda>m. read_chunk H N program m ys)"
  by (induction xs arbitrary: maps) (simp_all add: bindC_assoc)

text \<open>Reading in chunks of eight is reading every key once, in order.\<close>

lemma read_records_all: "read_records H N program maps pdas = read_chunk H N program maps pdas"
proof (induction H N program maps pdas rule: read_records.induct)
  case (1 H N program maps pdas)
  show ?case
  proof (cases "pdas = []")
    case False
    with 1 have "read_records H N program maps pdas =
        bindC (read_chunk H N program maps (take 8 pdas)) (\<lambda>m. read_chunk H N program m (drop 8 pdas))"
      by (subst read_records.simps) simp
    also have "\<dots> = read_chunk H N program maps pdas"
      by (simp flip: read_chunk_append)
    finally show ?thesis .
  qed (simp add: read_records.simps)
qed

text \<open>The answer to the read of a key at position \<open>i\<close>: the earlier keys were requested before.\<close>

definition read_event :: "host \<Rightarrow> string \<Rightarrow> event" where
  "read_event H pda = EAccountInfo (key_bytes H pda) None"

definition read_at :: "host \<Rightarrow> net \<Rightarrow> program \<Rightarrow> event list \<Rightarrow> string \<Rightarrow> client_error + archive_node option" where
  "read_at H N program t pda = fst (readArchiveRecord H N program pda None t)"

lemma read_one:
  assumes "host_ok H" "key_text H pda"
  shows "readArchiveRecord H N program pda None t = (read_at H N program t pda, t @ [read_event H pda])"
  using assms by (simp add: read_at_def read_event_def readArchiveRecord_run key_textD(3))

definition recorded :: "net \<Rightarrow> reads \<Rightarrow> string \<Rightarrow> client_error + archive_node option \<Rightarrow> reads" where
  "recorded N maps pda answer = (case answer of
      Inr r \<Rightarrow> (put (fst maps) pda r, snd maps)
    | Inl e \<Rightarrow> (fst maps, put (snd maps) pda (error_string N e)))"

definition holds_answer :: "net \<Rightarrow> reads \<Rightarrow> string \<Rightarrow> client_error + archive_node option \<Rightarrow> bool" where
  "holds_answer N maps pda answer \<longleftrightarrow> (case answer of
      Inr r \<Rightarrow> get (fst maps) pda = Some r \<and> get (snd maps) pda = None
    | Inl e \<Rightarrow> get (fst maps) pda = None \<and> get (snd maps) pda = Some (error_string N e))"

definition no_answer :: "reads \<Rightarrow> string \<Rightarrow> bool" where
  "no_answer maps pda \<longleftrightarrow> get (fst maps) pda = None \<and> get (snd maps) pda = None"

lemma recorded_answers:
  "no_answer maps pda \<Longrightarrow> holds_answer N (recorded N maps pda answer) pda answer"
  "p \<noteq> pda \<Longrightarrow> holds_answer N (recorded N maps pda answer) p other = holds_answer N maps p other"
  "p \<noteq> pda \<Longrightarrow> no_answer (recorded N maps pda answer) p = no_answer maps p"
  by (auto simp: holds_answer_def recorded_def no_answer_def split: sum.split)

lemma read_record_step:
  assumes "host_ok H" "key_text H pda"
  shows "read_record H N program maps pda t =
    (Inr (recorded N maps pda (read_at H N program t pda)), t @ [read_event H pda])"
  by (cases maps) (simp add: read_record_def catchC_def bindC_def recorded_def read_one [OF assms] split: sum.split)

text \<open>What the reads establish: each key was requested once, in order, and its answer is in exactly
  one of the two maps.\<close>

definition read_result :: "host \<Rightarrow> net \<Rightarrow> program \<Rightarrow> event list \<Rightarrow> string list \<Rightarrow> reads \<Rightarrow> bool" where
  "read_result H N program t pdas maps \<longleftrightarrow>
     (\<forall>i < length pdas. holds_answer N maps (pdas ! i)
        (read_at H N program (t @ map (read_event H) (take i pdas)) (pdas ! i))) \<and>
     (\<forall>p. p \<notin> set pdas \<longrightarrow> no_answer maps p)"

lemma read_result_snoc:
  assumes "read_result H N program t pdas maps" "pda \<notin> set pdas"
  shows "read_result H N program t (pdas @ [pda])
    (recorded N maps pda (read_at H N program (t @ map (read_event H) pdas) pda))"
proof -
  have neq: "pdas ! i \<noteq> pda" if "i < length pdas" for i using assms(2) that nth_mem by metis
  with assms show ?thesis
    by (auto simp: read_result_def recorded_answers nth_append less_Suc_eq)
qed

lemma read_chunk_result:
  assumes "host_ok H" "list_all (key_text H) pdas" "distinct pdas"
  shows "\<exists>maps. read_chunk H N program ([], []) pdas t = (Inr maps, t @ map (read_event H) pdas) \<and>
    read_result H N program t pdas maps"
  using assms(2,3)
proof (induction pdas rule: rev_induct)
  case Nil
  then show ?case by (simp add: read_result_def no_answer_def)
next
  case (snoc pda pdas)
  then obtain maps where m: "read_chunk H N program ([], []) pdas t = (Inr maps, t @ map (read_event H) pdas)"
    "read_result H N program t pdas maps" by auto
  have "key_text H pda" "pda \<notin> set pdas" using snoc.prems by auto
  with m read_result_snoc [OF m(2)] show ?case
    by (simp add: read_chunk_append bindC_def read_record_step [OF assms(1)])
qed

section \<open>Selections\<close>

text \<open>Work left on the stack: every turn of the loop removes some.\<close>

definition stack_size :: "string list list \<Rightarrow> nat" where
  "stack_size selections = sum_list (map (\<lambda>s. 2 * length s - 1) selections)"

definition sound :: "(string list \<Rightarrow> candidate result) \<Rightarrow> string list \<Rightarrow> candidate \<Rightarrow> bool" where
  "sound compile targets c \<longleftrightarrow> (\<exists>selected. compile selected = Inr c \<and> selected \<noteq> [] \<and> set selected \<subseteq> set targets)"

text \<open>The reason on record for a target that no proof of its own covers.\<close>

definition target_reason :: "net \<Rightarrow> (string list \<Rightarrow> candidate result) \<Rightarrow> string \<Rightarrow> string \<Rightarrow> string \<times> string" where
  "target_reason N compile anchor target =
     (anchor, target @ '': '' @ error_string N (Plain (projl (compile [target]))))"

text \<open>The targets of a list that no candidate selects, in the order of the list.\<close>

definition unselected :: "candidate list \<Rightarrow> string list \<Rightarrow> string list" where
  "unselected cs targets = filter (\<lambda>p. \<forall>c \<in> set cs. p \<notin> set (step_targets (cand_summary c))) targets"

lemma unselected_simps [simp]:
  "unselected cs [] = []" "unselected [] targets = targets" "unselected cs (s @ r) = unselected cs s @ unselected cs r"
  by (simp_all add: unselected_def)

lemma unselected_apart:
  "set (step_targets (cand_summary c)) \<inter> set targets = {} \<Longrightarrow> unselected (c # cs) targets = unselected cs targets"
  unfolding unselected_def by (rule filter_cong) auto

lemma unselected_own: "set targets \<subseteq> set (step_targets (cand_summary c)) \<Longrightarrow> unselected (c # cs) targets = []"
  by (auto simp: unselected_def filter_empty_conv)

lemma unselected_none: "\<forall>c \<in> set cs. set (step_targets (cand_summary c)) \<inter> set targets = {} \<Longrightarrow> unselected cs targets = targets"
  by (auto simp: unselected_def filter_id_conv)

text \<open>The contract between the planner and the compiler of candidates. Of the selections on the
  stack each target ends in a candidate that compiled, or its own proof does not compile and the
  reason is appended, in the order of the targets.\<close>

locale candidate_compiler =
  fixes compile :: "string list \<Rightarrow> candidate result"
  assumes compile_targets: "compile selected = Inr c \<Longrightarrow> step_targets (cand_summary c) = selected"
begin

lemma split_loop:
  assumes "[] \<notin> set selections" "distinct (concat selections)"
  shows "\<exists>cs. (\<forall>attempts. split_selections N compile anchor selections attempts = Some (fst attempts @ cs,
      snd attempts @ map (target_reason N compile anchor) (unselected cs (concat selections)))) \<and>
    (\<forall>c \<in> set cs. sound compile (concat selections) c) \<and>
    (\<forall>p \<in> set (unselected cs (concat selections)). \<exists>e. compile [p] = Inl e)"
  using assms
proof (induction "stack_size selections" arbitrary: selections rule: less_induct)
  case less
  show ?case
  proof (cases selections)
    case Nil
    then show ?thesis by (intro exI [of _ "[]"]) (simp add: split_selections.simps)
  next
    case sel: (Cons s rest)
    have s: "s \<noteq> []" "[] \<notin> set rest" "distinct (concat rest)" "set s \<inter> set (concat rest) = {}"
      using less.prems sel by auto
    then have smaller: "stack_size rest < stack_size selections"
      by (cases s) (simp_all add: sel stack_size_def)
    obtain cs where cs: "\<And>attempts. split_selections N compile anchor rest attempts = Some (fst attempts @ cs,
        snd attempts @ map (target_reason N compile anchor) (unselected cs (concat rest)))"
      "\<forall>c \<in> set cs. sound compile (concat rest) c" "\<forall>p \<in> set (unselected cs (concat rest)). \<exists>e. compile [p] = Inl e"
      using less.hyps [OF smaller s(2,3)] by blast
    have own: "set (step_targets (cand_summary c)) \<subseteq> set (concat rest)" if "c \<in> set cs" for c
      using cs(2) that compile_targets unfolding sound_def by blast
    show ?thesis
    proof (cases "compile s")
      case (Inr c)
      then have "unselected (c # cs) (concat selections) = unselected cs (concat rest)"
        using s(4) compile_targets [OF Inr] by (simp add: sel unselected_own unselected_apart)
      moreover have "sound compile (concat selections) c" using Inr s(1) by (auto simp: sound_def sel)
      moreover have "sound compile (concat selections) c'" if "c' \<in> set cs" for c'
        using cs(2) that by (force simp: sound_def sel)
      ultimately show ?thesis using cs(1,3)
        by (intro exI [of _ "c # cs"]) (simp add: sel split_selections.simps Inr)
    next
      case (Inl e)
      show ?thesis
      proof (cases "length s = 1")
        case True
        then obtain p where p: "s = [p]" by (cases s) auto
        have "p \<notin> set (step_targets (cand_summary c))" if "c \<in> set cs" for c
          using own [OF that] s(4) p by auto
        then have "unselected cs (concat selections) = p # unselected cs (concat rest)"
          by (simp add: sel p unselected_def)
        moreover have "sound compile (concat selections) c'" if "c' \<in> set cs" for c'
          using cs(2) that by (force simp: sound_def sel)
        ultimately show ?thesis using cs(1,3) Inl
          by (intro exI [of _ cs]) (simp add: sel split_selections.simps p target_reason_def)
      next
        case False
        define half where "half = (length s + 1) div 2"
        have half: "0 < half" "half < length s" using False s(1) by (cases s; cases "tl s"; auto simp: half_def)+
        let ?halves = "take half s # drop half s # rest"
        have "stack_size ?halves < stack_size selections" using half by (simp add: sel stack_size_def)
        moreover have "concat ?halves = concat selections" by (simp add: sel)
        moreover have "[] \<notin> set ?halves" using half s(2) by auto
        ultimately obtain cs' where cs': "\<And>attempts. split_selections N compile anchor ?halves attempts = Some (fst attempts @ cs',
            snd attempts @ map (target_reason N compile anchor) (unselected cs' (concat selections)))"
          "\<forall>c \<in> set cs'. sound compile (concat selections) c"
          "\<forall>p \<in> set (unselected cs' (concat selections)). \<exists>e. compile [p] = Inl e"
          using less.hyps [of ?halves] less.prems(2) by metis
        have "split_selections N compile anchor selections attempts = split_selections N compile anchor ?halves attempts" for attempts
          using Inl False by (subst split_selections.simps) (simp add: sel half_def Let_def)
        with cs' show ?thesis by (intro exI [of _ cs']) simp
      qed
    qed
  qed
qed

end

lemma compiled_names:
  assumes "compileArchiveCandidate H N program archive context anchor closure selected = Inr c"
  shows "step_targets (cand_summary c) = selected" "step_anchor (cand_summary c) = anchor"
    "prep_additional (cand_execution c) = step_additional (cand_summary c)"
  using assms by (auto simp: compileArchiveCandidate_def Let_def)

interpretation compiler: candidate_compiler "compileArchiveCandidate H N program archive ctx anchor closure"
  for H N program archive ctx anchor closure
  by unfold_locales (rule compiled_names(1))

section \<open>Greedy choice\<close>

lemma ranked_set: "set (ranked H remaining usable) =
    {c \<in> set usable. \<exists>p \<in> set (step_targets (cand_summary c)). p \<in> set remaining}"
  by (auto simp: ranked_def list_ex_iff)

lemma pick_steps_ok:
  "pick_steps H usable remaining picked = Inr result \<Longrightarrow>
     \<exists>new. result = picked @ new \<and> set new \<subseteq> set usable \<and> length new \<le> length remaining \<and>
       set remaining \<subseteq> (\<Union>c \<in> set new. set (step_targets (cand_summary c)))"
proof (induction H usable remaining picked rule: pick_steps.induct)
  case (1 H usable remaining picked)
  show ?case
  proof (cases "remaining = []")
    case True
    with "1.prems" show ?thesis by (simp add: pick_steps.simps)
  next
    case False
    with "1.prems" obtain best rest where best: "ranked H remaining usable = best # rest"
      by (cases "ranked H remaining usable") (simp_all add: pick_steps.simps)
    let ?left = "filter (\<lambda>p. p \<notin> set (step_targets (cand_summary best))) remaining"
    have "pick_steps H usable ?left (picked @ [best]) = Inr result"
      using "1.prems" False best by (subst (asm) pick_steps.simps) simp
    from "1.IH" [OF False best this] obtain new where new: "result = (picked @ [best]) @ new" "set new \<subseteq> set usable"
      "length new \<le> length ?left" "set ?left \<subseteq> (\<Union>c \<in> set new. set (step_targets (cand_summary c)))"
      by blast
    have "best \<in> set (ranked H remaining usable)" by (simp add: best)
    then obtain p where p: "best \<in> set usable" "p \<in> set remaining" "p \<in> set (step_targets (cand_summary best))"
      unfolding ranked_set by blast
    then have "length ?left < length remaining" by (intro length_filter_less) auto
    with new p(1) show ?thesis by (intro exI [of _ "best # new"]) auto
  qed
qed

lemma pick_steps_stuck:
  "pick_steps H usable remaining picked = Inl left \<Longrightarrow> left \<noteq> [] \<and> left = unselected usable remaining"
proof (induction H usable remaining picked rule: pick_steps.induct)
  case (1 H usable remaining picked)
  then have nonempty: "remaining \<noteq> []" by (auto simp: pick_steps.simps)
  show ?case
  proof (cases "ranked H remaining usable")
    case Nil
    then have "left = remaining" using "1.prems" nonempty by (subst (asm) pick_steps.simps) simp
    moreover have "set (ranked H remaining usable) = {}" by (simp add: Nil)
    then have "unselected usable remaining = remaining"
      unfolding ranked_set by (intro unselected_none) blast
    ultimately show ?thesis using nonempty by simp
  next
    case (Cons best rest)
    then have "pick_steps H usable (filter (\<lambda>p. p \<notin> set (step_targets (cand_summary best))) remaining) (picked @ [best]) = Inl left"
      using "1.prems" nonempty by (subst (asm) pick_steps.simps) simp
    from "1.IH" [OF nonempty Cons this] have "left \<noteq> []"
      "left = unselected usable (filter (\<lambda>p. p \<notin> set (step_targets (cand_summary best))) remaining)" by auto
    moreover have "best \<in> set (ranked H remaining usable)" by (simp add: Cons)
    then have "best \<in> set usable" unfolding ranked_set by simp
    then have "unselected usable (filter (\<lambda>p. p \<notin> set (step_targets (cand_summary best))) remaining) = unselected usable remaining"
      by (auto simp: unselected_def intro: filter_cong)
    ultimately show ?thesis by simp
  qed
qed

section \<open>All anchors\<close>

definition live_anchor :: "hash_archive \<Rightarrow> candidate_context \<Rightarrow> string \<Rightarrow> bool" where
  "live_anchor archive context anchor \<longleftrightarrow> get (ctx_readErrors context) anchor = None \<and>
     get (arch_nodes archive) anchor \<noteq> None \<and> ctx_matches context anchor"

text \<open>\<open>c\<close> was compiled for a live anchor and some of the targets in its closure.\<close>

definition candidate_from ::
  "host \<Rightarrow> net \<Rightarrow> program \<Rightarrow> hash_archive \<Rightarrow> candidate_context \<Rightarrow> string \<Rightarrow> candidate \<Rightarrow> bool" where
  "candidate_from H N program archive context anchor c \<longleftrightarrow> live_anchor archive context anchor \<and>
     (\<exists>closure selected. dependencyOrder H archive [anchor] True = Inr closure \<and> selected \<noteq> [] \<and>
        set selected \<subseteq> set closure \<inter> set (ctx_targets context) \<and>
        compileArchiveCandidate H N program archive context anchor closure selected = Inr c)"

text \<open>The anchor is live and the target is in its complete closure.\<close>

definition reaches :: "host \<Rightarrow> hash_archive \<Rightarrow> candidate_context \<Rightarrow> string \<Rightarrow> string \<Rightarrow> bool" where
  "reaches H archive context anchor target \<longleftrightarrow> live_anchor archive context anchor \<and>
     (case dependencyOrder H archive [anchor] True of Inr closure \<Rightarrow> target \<in> set closure | Inl _ \<Rightarrow> False)"

text \<open>Every reason an anchor is rejected for, when \<open>failed\<close> are the targets it reaches that have no
  proof for it: the failed read, the absent or different record, the incomplete closure, or one
  compile error per failed target.\<close>

definition anchor_reasons ::
  "host \<Rightarrow> net \<Rightarrow> program \<Rightarrow> hash_archive \<Rightarrow> candidate_context \<Rightarrow> string list \<Rightarrow> string \<Rightarrow> (string \<times> string) list" where
  "anchor_reasons H N program archive context failed anchor =
     (case get (ctx_readErrors context) anchor of
        Some reason \<Rightarrow> [(anchor, error_string N (Plain (Error reason)))]
      | None \<Rightarrow>
          if \<not> live_anchor archive context anchor
          then [(anchor, ''Error: Anchor is absent or has a different historical state'')]
          else (case dependencyOrder H archive [anchor] True of
              Inl e \<Rightarrow> [(anchor, error_string N (Plain e))]
            | Inr closure \<Rightarrow>
                map (target_reason N (compileArchiveCandidate H N program archive context anchor closure) anchor) failed))"

text \<open>\<open>failed\<close> are, in the order of the targets, those the anchor reaches whose own proof does not
  compile and that no candidate of the anchor selects; all others it reaches have a candidate.\<close>

definition fails_for ::
  "host \<Rightarrow> net \<Rightarrow> program \<Rightarrow> hash_archive \<Rightarrow> candidate_context \<Rightarrow> string \<Rightarrow> string list \<Rightarrow> bool" where
  "fails_for H N program archive context anchor failed \<longleftrightarrow>
     failed = filter (\<lambda>target. target \<in> set failed) (ctx_targets context) \<and>
     (\<forall>target \<in> set (ctx_targets context). if target \<in> set failed
        then \<exists>closure e. live_anchor archive context anchor \<and> dependencyOrder H archive [anchor] True = Inr closure \<and>
          target \<in> set closure \<and> compileArchiveCandidate H N program archive context anchor closure [target] = Inl e
        else reaches H archive context anchor target \<longrightarrow>
          (\<exists>c. candidate_from H N program archive context anchor c \<and> target \<in> set (step_targets (cand_summary c))))"

text \<open>What one anchor contributes: its candidates and its reasons.\<close>

definition contributes ::
  "host \<Rightarrow> net \<Rightarrow> program \<Rightarrow> hash_archive \<Rightarrow> candidate_context \<Rightarrow> string \<Rightarrow> candidate list \<Rightarrow> string list \<Rightarrow> bool" where
  "contributes H N program archive context anchor cs failed \<longleftrightarrow>
     (\<forall>attempts. try_anchor H N program archive context anchor attempts =
        Some (fst attempts @ cs, snd attempts @ anchor_reasons H N program archive context failed anchor)) \<and>
     (\<forall>c \<in> set cs. candidate_from H N program archive context anchor c) \<and>
     (\<forall>target \<in> set (ctx_targets context). reaches H archive context anchor target \<longrightarrow>
        (target \<in> set failed \<longleftrightarrow> (\<forall>c \<in> set cs. target \<notin> set (step_targets (cand_summary c))))) \<and>
     fails_for H N program archive context anchor failed"

lemma contributes_nothing:
  assumes "\<And>target. \<not> reaches H archive context anchor target"
    and "\<And>attempts. try_anchor H N program archive context anchor attempts =
      Some (fst attempts, snd attempts @ anchor_reasons H N program archive context [] anchor)"
  shows "contributes H N program archive context anchor [] []"
  using assms by (simp add: contributes_def fails_for_def)

lemma try_anchor_live:
  assumes live: "live_anchor archive context anchor" and closure: "dependencyOrder H archive [anchor] True = Inr closure"
    and "distinct (ctx_targets context)"
  shows "\<exists>cs failed. contributes H N program archive context anchor cs failed"
proof -
  let ?compile = "compileArchiveCandidate H N program archive context anchor closure"
  let ?covered = "filter (\<lambda>target. target \<in> set closure) (ctx_targets context)"
  have reasons: "anchor_reasons H N program archive context failed anchor = map (target_reason N ?compile anchor) failed" for failed
    using live closure by (simp add: anchor_reasons_def live_anchor_def)
  have reached: "reaches H archive context anchor target \<longleftrightarrow> target \<in> set closure" for target
    by (simp add: reaches_def live closure)
  obtain cs where cs: "\<And>attempts. try_anchor H N program archive context anchor attempts = Some (fst attempts @ cs,
      snd attempts @ map (target_reason N ?compile anchor) (unselected cs ?covered))"
    and sound: "\<forall>c \<in> set cs. sound ?compile ?covered c"
    and failing: "\<forall>p \<in> set (unselected cs ?covered). \<exists>e. ?compile [p] = Inl e"
  proof (cases "?covered = []")
    case True
    with live closure have "try_anchor H N program archive context anchor attempts = Some attempts" for attempts
      by (auto simp: try_anchor_def live_anchor_def Let_def)
    with True that [of "[]"] show ?thesis by simp
  next
    case False
    then have run: "try_anchor H N program archive context anchor attempts = split_selections N ?compile anchor [?covered] attempts" for attempts
      using live closure by (auto simp: try_anchor_def live_anchor_def Let_def)
    have "[] \<notin> set [?covered]" "distinct (concat [?covered])" using False assms(3) by auto
    from compiler.split_loop [OF this] obtain cs where "\<And>attempts. split_selections N ?compile anchor [?covered] attempts =
        Some (fst attempts @ cs, snd attempts @ map (target_reason N ?compile anchor) (unselected cs (concat [?covered])))"
      "\<forall>c \<in> set cs. sound ?compile (concat [?covered]) c" "\<forall>p \<in> set (unselected cs (concat [?covered])). \<exists>e. ?compile [p] = Inl e"
      by blast
    with run that [of cs] show ?thesis by simp
  qed
  let ?failed = "unselected cs ?covered"
  have candidates: "\<forall>c \<in> set cs. candidate_from H N program archive context anchor c"
    using sound live closure unfolding sound_def candidate_from_def by fastforce
  have exact: "target \<in> set ?failed \<longleftrightarrow> target \<in> set (ctx_targets context) \<and> target \<in> set closure \<and>
      (\<forall>c \<in> set cs. target \<notin> set (step_targets (cand_summary c)))" for target
    by (auto simp: unselected_def)
  have "?failed = filter (\<lambda>target. target \<in> set ?failed) (ctx_targets context)"
    unfolding exact by (auto simp: unselected_def intro: filter_cong)
  moreover have "if target \<in> set ?failed
      then \<exists>closure e. live_anchor archive context anchor \<and> dependencyOrder H archive [anchor] True = Inr closure \<and>
        target \<in> set closure \<and> compileArchiveCandidate H N program archive context anchor closure [target] = Inl e
      else reaches H archive context anchor target \<longrightarrow>
        (\<exists>c. candidate_from H N program archive context anchor c \<and> target \<in> set (step_targets (cand_summary c)))"
    if "target \<in> set (ctx_targets context)" for target
    using that candidates failing live closure exact [of target] reached [of target] by auto
  ultimately have "fails_for H N program archive context anchor ?failed" unfolding fails_for_def by blast
  moreover have "\<forall>target \<in> set (ctx_targets context). reaches H archive context anchor target \<longrightarrow>
      (target \<in> set ?failed \<longleftrightarrow> (\<forall>c \<in> set cs. target \<notin> set (step_targets (cand_summary c))))"
    unfolding reached exact by blast
  ultimately have "contributes H N program archive context anchor cs ?failed"
    unfolding contributes_def reasons using cs candidates by blast
  then show ?thesis by blast
qed

lemma try_anchor_ok:
  assumes "distinct (ctx_targets context)"
  shows "\<exists>cs failed. contributes H N program archive context anchor cs failed"
proof (cases "live_anchor archive context anchor")
  case False
  then have "contributes H N program archive context anchor [] []"
    by (intro contributes_nothing; cases "get (ctx_readErrors context) anchor")
      (auto simp: reaches_def live_anchor_def try_anchor_def anchor_reasons_def reject_def named_error_def)
  then show ?thesis by blast
next
  case True
  note live = this [unfolded live_anchor_def]
  show ?thesis
  proof (cases "dependencyOrder H archive [anchor] True")
    case (Inl e)
    have "contributes H N program archive context anchor [] []"
      by (rule contributes_nothing) (use Inl True live in \<open>auto simp: reaches_def try_anchor_def anchor_reasons_def reject_def\<close>)
    then show ?thesis by blast
  qed (use try_anchor_live [OF True _ assms] in blast)
qed

lemma try_anchors_run:
  assumes "\<And>anchor. contributes H N program archive context anchor (cs anchor) (failed anchor)"
  shows "try_anchors H N program archive context anchors attempts = Some (fst attempts @ concat (map cs anchors),
    snd attempts @ concat (map (\<lambda>anchor. anchor_reasons H N program archive context (failed anchor) anchor) anchors))"
proof (induction anchors arbitrary: attempts)
  case (Cons anchor anchors)
  have "try_anchor H N program archive context anchor attempts = Some (fst attempts @ cs anchor,
      snd attempts @ anchor_reasons H N program archive context (failed anchor) anchor)"
    using assms [of anchor] unfolding contributes_def by blast
  then show ?case by (simp add: Cons.IH)
qed simp

text \<open>A target no candidate selects is failed by every anchor that reaches it, and conversely.\<close>

lemma unselected_fails:
  assumes "\<And>anchor. contributes H N program archive context anchor (cs anchor) (failed anchor)"
    and "target \<in> set (ctx_targets context)"
  shows "(\<forall>c \<in> set (concat (map cs anchors)). target \<notin> set (step_targets (cand_summary c))) \<longleftrightarrow>
    (\<forall>anchor \<in> set anchors. reaches H archive context anchor target \<longrightarrow> target \<in> set (failed anchor))"
proof -
  have "(\<forall>c \<in> set (cs anchor). target \<notin> set (step_targets (cand_summary c))) \<longleftrightarrow>
      (reaches H archive context anchor target \<longrightarrow> target \<in> set (failed anchor))" for anchor
  proof -
    note one = assms(1) [of anchor, unfolded contributes_def]
    have "reaches H archive context anchor target" if "c \<in> set (cs anchor)" "target \<in> set (step_targets (cand_summary c))" for c
    proof -
      have "candidate_from H N program archive context anchor c" using one that(1) by blast
      then show ?thesis using that(2) by (auto simp: candidate_from_def reaches_def dest: compiled_names(1))
    qed
    with one assms(2) show ?thesis by blast
  qed
  then show ?thesis by auto
qed

end
