(* ===== verification/Planning.thy ===== *)
theory Planning
  imports PlanLoops
begin

text \<open>
  What \<open>planArchiveRestore\<close> promises: it always returns and only reads, a plan covers every
  target from live anchors, and it fails only with the reasons on record.
\<close>

section \<open>Inputs\<close>

lemma if_guard: "(if b then Inl e else k) = Inr r \<longleftrightarrow> \<not> b \<and> k = Inr r"
  by simp

lemma plan_inputs_ok:
  "plan_inputs H program input options = Inr (a, targets, candidates) \<longleftrightarrow>
    parseArchive H input = Inr a \<and> arch_programId a = toBase58 H (prog_id program) \<and>
    mapE (\<lambda>pda. archivePublicKey H (JString pda) ''address'') (ropt_targets options) = Inr targets \<and>
    targets \<noteq> [] \<and> distinct targets \<and> (\<forall>target \<in> set targets. get (arch_nodes a) target \<noteq> None) \<and>
    anchors_to_try H a (ropt_anchor options) = Inr candidates"
  unfolding plan_inputs_def bindE_ok if_guard find_guard by auto

lemma wf_archive_keys:
  "wf_archive H a \<Longrightarrow> list_all (key_text H) (keys (arch_nodes a))"
  "wf_archive H a \<Longrightarrow> distinct (keys (arch_nodes a))"
  by (auto simp: wf_archive_def wf_entry_def list_all_iff)

text \<open>The run of the planner: inputs, one read of every node, and the assembly of the plan.\<close>

lemma plan_run:
  assumes "host_ok H" "wf_archive H a"
  shows "\<exists>maps. read_records H N program ([], []) (keys (arch_nodes a)) t =
      (Inr maps, t @ map (read_event H) (keys (arch_nodes a))) \<and>
    read_result H N program t (keys (arch_nodes a)) maps"
  unfolding read_records_all by (rule read_chunk_result [OF assms(1) wf_archive_keys [OF assms(2)]])

lemma copied_present:
  assumes "host_ok H" "wf_archive H a" "\<forall>target \<in> set (ctx_targets context). get (arch_nodes a) target \<noteq> None"
  shows "copied_archive H a (if ctx_create context then filter (ctx_matches context) (ctx_targets context) else []) =
    Inr (restricted a (if ctx_create context then filter (ctx_matches context) (ctx_targets context) else []))"
  by (rule copied_archive_known [OF assms(1,2)]) (use assms(3) in auto)

definition present_targets :: "candidate_context \<Rightarrow> string list" where
  "present_targets context = (if ctx_create context then filter (ctx_matches context) (ctx_targets context) else [])"

text \<open>The targets left over: not present, and failed by every anchor that reaches them. The message
  names them and gives every reason of every anchor.\<close>

definition left_over ::
  "host \<Rightarrow> hash_archive \<Rightarrow> candidate_context \<Rightarrow> string list \<Rightarrow> (string \<Rightarrow> string list) \<Rightarrow> string list" where
  "left_over H a context candidates failed = filter (\<lambda>target. target \<notin> set (present_targets context) \<and>
     (\<forall>anchor \<in> set candidates. reaches H a context anchor target \<longrightarrow> target \<in> set (failed anchor))) (ctx_targets context)"

definition all_reasons ::
  "host \<Rightarrow> net \<Rightarrow> program \<Rightarrow> hash_archive \<Rightarrow> candidate_context \<Rightarrow> string list \<Rightarrow> (string \<Rightarrow> string list) \<Rightarrow>
   (string \<times> string) list" where
  "all_reasons H N program a context candidates failed =
     concat (map (\<lambda>anchor. anchor_reasons H N program a context (failed anchor) anchor) candidates)"

text \<open>The assembly returns; it yields steps from live anchors for every target that is not present,
  or names the targets left over, with the reasons of all anchors.\<close>

lemma assemble_cases:
  assumes "host_ok H" "wf_archive H a" "\<forall>target \<in> set (ctx_targets context). get (arch_nodes a) target \<noteq> None"
    and "distinct (ctx_targets context)"
  shows "(\<exists>picked rejected. assemble_plan H N program a context candidates = Some (Inr (
        \<lparr>plan_programId = arch_programId a, plan_payer = toBase58 H (ctx_payer context),
          plan_feePayer = toBase58 H (ctx_feePayer context), plan_steps = map cand_summary picked,
          plan_alreadyPresent = present_targets context, plan_rejectedAnchors = rejected\<rparr>,
        \<lparr>exec_connection = prog_connection program, exec_endpoint = prog_endpoint program,
          exec_programId = arch_programId a, exec_payer = toBase58 H (ctx_payer context),
          exec_feePayer = toBase58 H (ctx_feePayer context), exec_present = restricted a (present_targets context),
          exec_steps = map cand_execution picked\<rparr>)) \<and>
      (\<forall>c \<in> set picked. \<exists>anchor \<in> set candidates. candidate_from H N program a context anchor c) \<and>
      length picked \<le> length (ctx_targets context) \<and>
      (\<forall>target \<in> set (ctx_targets context). target \<in> set (present_targets context) \<or>
         (\<exists>c \<in> set picked. target \<in> set (step_targets (cand_summary c))))) \<or>
    (\<exists>failed. assemble_plan H N program a context candidates = Some (Inl (Error (no_proof_message
        (left_over H a context candidates failed) (all_reasons H N program a context candidates failed)))) \<and>
      left_over H a context candidates failed \<noteq> [] \<and>
      (\<forall>anchor. fails_for H N program a context anchor (failed anchor)))"
proof -
  obtain cs failed where one: "\<And>anchor. contributes H N program a context anchor (cs anchor) (failed anchor)"
    using try_anchor_ok [OF assms(4)] by metis
  define usable where "usable = concat (map cs candidates)"
  define rejected where "rejected = all_reasons H N program a context candidates failed"
  have tried: "try_anchors H N program a context candidates ([], []) = Some (usable, rejected)"
    using try_anchors_run [of H N program a "context" cs failed candidates "([], [])", OF one]
    by (simp add: usable_def rejected_def all_reasons_def)
  have usable: "\<forall>c \<in> set usable. \<exists>anchor \<in> set candidates. candidate_from H N program a context anchor c"
    using one unfolding contributes_def usable_def by fastforce
  let ?remaining = "filter (\<lambda>pda. pda \<notin> set (present_targets context)) (ctx_targets context)"
  note copied = copied_present [OF assms(1-3), folded present_targets_def]
  have plan: "assemble_plan H N program a context candidates = Some (case pick_steps H usable ?remaining [] of
      Inl left \<Rightarrow> Inl (Error (no_proof_message left rejected))
    | Inr picked \<Rightarrow> Inr (
        \<lparr>plan_programId = arch_programId a, plan_payer = toBase58 H (ctx_payer context),
          plan_feePayer = toBase58 H (ctx_feePayer context), plan_steps = map cand_summary picked,
          plan_alreadyPresent = present_targets context, plan_rejectedAnchors = rejected\<rparr>,
        \<lparr>exec_connection = prog_connection program, exec_endpoint = prog_endpoint program,
          exec_programId = arch_programId a, exec_payer = toBase58 H (ctx_payer context),
          exec_feePayer = toBase58 H (ctx_feePayer context), exec_present = restricted a (present_targets context),
          exec_steps = map cand_execution picked\<rparr>))"
    using copied unfolding assemble_plan_def present_targets_def [symmetric] Let_def
    by (simp add: tried split: sum.split)
  show ?thesis
  proof (cases "pick_steps H usable ?remaining []")
    case (Inr picked)
    from pick_steps_ok [OF this] have picked: "set picked \<subseteq> set usable" "length picked \<le> length ?remaining"
      "set ?remaining \<subseteq> (\<Union>c \<in> set picked. set (step_targets (cand_summary c)))" by auto
    have "length picked \<le> length (ctx_targets context)"
      using picked(2) length_filter_le order_trans by blast
    moreover have "\<forall>c \<in> set picked. \<exists>anchor \<in> set candidates. candidate_from H N program a context anchor c"
      using picked(1) usable by blast
    moreover have "\<forall>target \<in> set (ctx_targets context). target \<in> set (present_targets context) \<or>
        (\<exists>c \<in> set picked. target \<in> set (step_targets (cand_summary c)))"
      using picked(3) by auto
    ultimately show ?thesis using plan Inr by auto
  next
    case (Inl left)
    from pick_steps_stuck [OF this] have stuck: "left \<noteq> []" "left = unselected usable ?remaining" by auto
    have "left = left_over H a context candidates failed"
      unfolding stuck(2) unselected_def left_over_def filter_filter
    proof (rule filter_cong [OF refl])
      fix target assume "target \<in> set (ctx_targets context)"
      from unselected_fails [of H N program a "context" cs failed target candidates, OF one this]
      show "(target \<notin> set (present_targets context) \<and> (\<forall>c \<in> set usable. target \<notin> set (step_targets (cand_summary c)))) \<longleftrightarrow>
          (target \<notin> set (present_targets context) \<and>
            (\<forall>anchor \<in> set candidates. reaches H a context anchor target \<longrightarrow> target \<in> set (failed anchor)))"
        by (simp add: usable_def)
    qed
    moreover have "\<forall>anchor. fails_for H N program a context anchor (failed anchor)"
      using one unfolding contributes_def by blast
    ultimately show ?thesis using plan Inl stuck(1) unfolding rejected_def
      by (intro disjI2 exI [of _ failed]) simp
  qed
qed

section \<open>Plans\<close>

definition context_of ::
  "host \<Rightarrow> hash_archive \<Rightarrow> string list \<Rightarrow> restore_options \<Rightarrow> bytes \<Rightarrow> bytes \<Rightarrow> reads \<Rightarrow> candidate_context" where
  "context_of H a targets options payer feePayer maps =
     plan_context H a targets (create_accounts (ropt_createAccounts options)) payer feePayer maps"

lemma context_of_simps [simp]:
  "ctx_targets (context_of H a targets options payer feePayer maps) = targets"
  "ctx_create (context_of H a targets options payer feePayer maps) = create_accounts (ropt_createAccounts options)"
  "ctx_payer (context_of H a targets options payer feePayer maps) = payer"
  "ctx_feePayer (context_of H a targets options payer feePayer maps) = feePayer"
  "ctx_live (context_of H a targets options payer feePayer maps) = fst maps"
  "ctx_readErrors (context_of H a targets options payer feePayer maps) = snd maps"
  "ctx_matches (context_of H a targets options payer feePayer maps) = record_matches H a (fst maps)"
  by (simp_all add: context_of_def plan_context_def)

lemma plan_valid:
  assumes "host_ok H" "plan_inputs H program input options = Inr (a, targets, candidates)"
  shows "\<exists>maps. read_result H N program t (keys (arch_nodes a)) maps \<and>
    read_records H N program ([], []) (keys (arch_nodes a)) t = (Inr maps, t @ map (read_event H) (keys (arch_nodes a))) \<and>
    planArchiveRestore H N program prepared input options payer feePayer t =
      (case assemble_plan H N program a (context_of H a targets options payer feePayer maps) candidates of
         None \<Rightarrow> None
       | Some (Inl e) \<Rightarrow> Some (Inl (Plain e), prepared, t @ map (read_event H) (keys (arch_nodes a)))
       | Some (Inr (plan, execution)) \<Rightarrow> Some (Inr (length prepared, plan), prepared @ [execution],
           t @ map (read_event H) (keys (arch_nodes a))))"
proof -
  have "wf_archive H a" using assms(2) parseArchive_wf [OF assms(1)] unfolding plan_inputs_ok by blast
  from plan_run [OF assms(1) this] obtain maps where maps: "read_records H N program ([], []) (keys (arch_nodes a)) t =
      (Inr maps, t @ map (read_event H) (keys (arch_nodes a)))" "read_result H N program t (keys (arch_nodes a)) maps"
    by blast
  show ?thesis
    by (intro exI [of _ maps] conjI) (simp_all add: planArchiveRestore_def assms(2) context_of_def maps del: map_map)
qed

lemma plan_invalid:
  "plan_inputs H program input options = Inl e \<Longrightarrow>
     planArchiveRestore H N program prepared input options payer feePayer t = Some (Inl (Plain e), prepared, t)"
  by (simp add: planArchiveRestore_def)

text \<open>A record the planner found on the chain, as its read answered.\<close>

definition found_live :: "host \<Rightarrow> net \<Rightarrow> program \<Rightarrow> event list \<Rightarrow> hash_archive \<Rightarrow> string \<Rightarrow> bool" where
  "found_live H N program t a p \<longleftrightarrow> (\<exists>i r n. i < length (arch_nodes a) \<and> keys (arch_nodes a) ! i = p \<and>
     read_at H N program (t @ map (read_event H) (take i (keys (arch_nodes a)))) p = Inr (Some r) \<and>
     get (arch_nodes a) p = Some n \<and> sameArchiveRecord H r n)"

lemma record_matches_found:
  assumes "read_result H N program t (keys (arch_nodes a)) maps"
  shows "record_matches H a (fst maps) p \<Longrightarrow> found_live H N program t a p"
proof -
  assume "record_matches H a (fst maps) p"
  then obtain r n where r: "get (fst maps) p = Some (Some r)" "get (arch_nodes a) p = Some n" "sameArchiveRecord H r n"
    by (auto simp: record_matches_def split: option.splits)
  have "p \<in> set (keys (arch_nodes a))"
    using assms r(1) by (auto simp: read_result_def no_answer_def)
  then obtain i where i: "i < length (arch_nodes a)" "keys (arch_nodes a) ! i = p" by (auto simp: in_set_conv_nth)
  with assms have "holds_answer N maps p (read_at H N program (t @ map (read_event H) (take i (keys (arch_nodes a)))) p)"
    by (auto simp: read_result_def)
  with r i show ?thesis by (auto simp: holds_answer_def found_live_def split: sum.splits)
qed

lemma candidate_from_step:
  assumes "candidate_from H N program a context anchor c"
  shows "step_anchor (cand_summary c) = anchor" "step_targets (cand_summary c) \<noteq> []"
    "set (step_targets (cand_summary c)) \<subseteq> set (ctx_targets context)"
    "\<exists>closure. dependencyOrder H a [anchor] True = Inr closure \<and> set (step_targets (cand_summary c)) \<subseteq> set closure \<and>
      compileArchiveCandidate H N program a context anchor closure (step_targets (cand_summary c)) = Inr c"
    "ctx_matches context anchor"
  using assms by (auto simp: candidate_from_def live_anchor_def dest: compiled_names)

section \<open>A demonstration restoration\<close>

text \<open>A network on which the batch of the demonstration archive is live and nothing else is.\<close>

definition demo_batch_net :: net where
  "demo_batch_net = demo_net\<lparr>
     net_accountInfo := (\<lambda>t a slot. Inr (if a = demo_batch_id then Some \<lparr>info_owner = replicate 32 9,
       info_lamports = jint 1, info_executable = False, info_rentEpoch = jint 0, info_data = [1]\<rparr> else None)),
     net_decode := (\<lambda>d. Inr \<lparr>raw_hash = JBytes (replicate 7 0 @ [6, 2] @ replicate 23 2),
       raw_source = JObject [(''batch'', JObject [(''members'', JArray [JBytes (demo_id 0 1), JBytes (demo_id 2 2)])])],
       raw_createdAt = JBN 8, raw_voters = JBN 1, raw_bump = 255\<rparr>)\<rparr>"

definition demo_batch_only :: hash_archive where
  "demo_batch_only = \<lparr>arch_programId = demo_program, arch_nodes = [(demo_key demo_batch_id, demo_batch)]\<rparr>"

lemma demo_batch_single:
  "single_archive demo_host demo_prog (demo_key demo_batch_id) (pending_of demo_batch) (int_to_decimal 8) = Inr demo_batch_only"
proof -
  have "part_of demo_batch_only demo_archive"
    by (simp add: part_of_def demo_nodes demo_batch_only_def)
  then have "wf_archive demo_host demo_batch_only"
    by (rule wf_archive_part [OF demo_host_ok parseArchive_wf [OF demo_host_ok demo_parsed(1)]])
  moreover have "node_createdAt demo_batch = int_to_decimal 8" by (simp add: demo_batch_def)
  ultimately show ?thesis
    using single_archive_self [OF demo_host_ok, of demo_batch_only demo_prog "demo_key demo_batch_id" demo_batch]
    by (simp add: demo_batch_only_def demo_program_def)
qed

lemma demo_read_batch:
  "readArchiveRecord demo_host demo_batch_net demo_prog (demo_key demo_batch_id) slot t =
     (Inr (Some demo_batch), t @ [EAccountInfo demo_batch_id slot])"
proof -
  let ?h = "replicate 7 0 @ [6, 2] @ replicate 23 2 :: bytes"
  have pending: "pending_of demo_batch = \<lparr>pend_hash = hex_of_bytes ?h,
      pend_source = ABatch [hex_of_bytes (demo_id 0 1), hex_of_bytes (demo_id 2 2)],
      pend_members = None, pend_snapshot = None\<rparr>"
    by (simp add: pending_of_def demo_batch_def)
  have source: "decodeHashSource demo_host (JObject [(''batch'', JObject [(''members'',
      JArray [JBytes (demo_id 0 1), JBytes (demo_id 2 2)])])]) = Inr (SBatch [JBytes (demo_id 0 1), JBytes (demo_id 2 2)])"
    by (simp add: decodeHashSource_def lower_char_def read_prop_def)
  have "canonicalHashId demo_host (JString (hex_of_bytes ?h)) (jint 3) = Inr demo_batch_id"
    using canonicalHashId_node [OF demo_wf_nodes(4)] demo_node_ids(4) by (simp add: demo_batch_def)
  then have i: "canonicalHashId demo_host (JString (hex_of_bytes ?h))
      (source_object (SBatch [JBytes (demo_id 0 1), JBytes (demo_id 2 2)])) = Inr demo_batch_id"
    by (simp add: canonicalHashId_def)
  have archived: "archiveSource demo_host (SBatch [JBytes (demo_id 0 1), JBytes (demo_id 2 2)]) =
      Inr (ABatch [hex_of_bytes (demo_id 0 1), hex_of_bytes (demo_id 2 2)])"
    by (simp add: archiveHex_def del: hex_of_bytes.simps)
  have "record_node demo_host demo_batch_net demo_prog (demo_key demo_batch_id) demo_batch_id
      \<lparr>info_owner = replicate 32 9, info_lamports = jint 1, info_executable = False, info_rentEpoch = jint 0,
        info_data = [1]\<rparr> = Inr (Some demo_batch)"
    using demo_batch_single i
    by (simp add: record_node_def demo_batch_net_def valueString_def source archived archiveHex_def findPda_def
        demo_find_def pending demo_batch_only_def Let_def del: hex_of_bytes.simps)
  then show ?thesis
    by (simp add: readArchiveRecord_run) (simp add: demo_batch_net_def placeholder_def SYSTEM_PROGRAM_def)
qed

lemma demo_read_other:
  assumes "length i = 32" "i \<noteq> demo_batch_id"
  shows "readArchiveRecord demo_host demo_batch_net demo_prog (demo_key i) slot t = (Inr None, t @ [EAccountInfo i slot])"
  using assms by (simp add: readArchiveRecord_run) (simp add: demo_batch_net_def)

lemma demo_reads:
  "read_result demo_host demo_batch_net demo_prog t (keys (arch_nodes demo_archive)) maps \<Longrightarrow>
     get (fst maps) (demo_key demo_batch_id) = Some (Some demo_batch) \<and> snd maps = [] \<and>
     (\<forall>p. p \<noteq> demo_key demo_batch_id \<longrightarrow> get (fst maps) p = None \<or> get (fst maps) p = Some None)"
proof -
  assume r: "read_result demo_host demo_batch_net demo_prog t (keys (arch_nodes demo_archive)) maps"
  let ?ks = "keys (arch_nodes demo_archive)"
  have batch: "read_at demo_host demo_batch_net demo_prog u (demo_key demo_batch_id) = Inr (Some demo_batch)" for u
    by (simp add: read_at_def demo_read_batch)
  have other: "read_at demo_host demo_batch_net demo_prog u p = Inr None"
    if "p \<in> set ?ks" "p \<noteq> demo_key demo_batch_id" for u p
    using that by (auto simp: read_at_def demo_read_other demo_nodes)
  have answers: "holds_answer demo_batch_net maps p
      (if p = demo_key demo_batch_id then Inr (Some demo_batch) else Inr None)" if "p \<in> set ?ks" for p
  proof -
    from that obtain i where i: "i < length ?ks" "?ks ! i = p" by (auto simp: in_set_conv_nth)
    with r have "holds_answer demo_batch_net maps p
        (read_at demo_host demo_batch_net demo_prog (t @ map (read_event demo_host) (take i ?ks)) p)"
      unfolding read_result_def by blast
    with batch other that show ?thesis by (cases "p = demo_key demo_batch_id") simp_all
  qed
  have none: "no_answer maps p" if "p \<notin> set ?ks" for p using r that unfolding read_result_def by blast
  have "get (snd maps) p = None" for p
    using answers [of p] none [of p] by (cases "p \<in> set ?ks") (auto simp: holds_answer_def no_answer_def split: if_splits)
  then have "snd maps = []" by (metis get_Cons list.exhaust option.distinct(1) surj_pair)
  moreover have "demo_key demo_batch_id \<in> set ?ks" by (simp add: demo_nodes)
  then have "get (fst maps) (demo_key demo_batch_id) = Some (Some demo_batch)"
    using answers [of "demo_key demo_batch_id"] by (simp add: holds_answer_def)
  moreover have "get (fst maps) p = None \<or> get (fst maps) p = Some None" if "p \<noteq> demo_key demo_batch_id" for p
    using answers [of p] none [of p] that by (cases "p \<in> set ?ks") (auto simp: holds_answer_def no_answer_def)
  ultimately show ?thesis by blast
qed

definition demo_restore :: restore_options where
  "demo_restore = \<lparr>ropt_targets = [demo_key (demo_id 0 1)], ropt_anchor = Some (demo_key demo_batch_id),
     ropt_createAccounts = None\<rparr>"

lemma demo_inputs:
  "plan_inputs demo_host demo_prog (archive_value demo_archive) demo_restore =
     Inr (demo_archive, [demo_key (demo_id 0 1)], [demo_key demo_batch_id])"
proof -
  have "32 \<le> length (demo_key demo_batch_id)"
    using toBase58_text [OF demo_host_ok demo_id_lengths(1)] unfolding base58_text_def by blast
  moreover have "\<not> 32 \<le> length ''auto''" "\<not> 32 \<le> length ([] :: string)" by simp_all
  ultimately have "demo_key demo_batch_id \<noteq> []" "demo_key demo_batch_id \<noteq> ''auto''" by metis+
  then show ?thesis
    unfolding plan_inputs_ok
    by (simp add: demo_parsed demo_restore_def demo_program_def demo_address demo_nodes anchors_to_try_def)
qed

lemma demo_live_context:
  assumes "read_result demo_host demo_batch_net demo_prog t (keys (arch_nodes demo_archive)) maps"
  shows "record_matches demo_host demo_archive (fst maps) = (\<lambda>p. p = demo_key demo_batch_id)"
    and "p \<noteq> demo_key demo_batch_id \<Longrightarrow>
      \<not> live_record (context_of demo_host demo_archive targets options payer feePayer maps) p"
proof -
  note reads = demo_reads [OF assms]
  then have other: "get (fst maps) p = None \<or> get (fst maps) p = Some None" if "p \<noteq> demo_key demo_batch_id" for p
    using that by blast
  have "record_matches demo_host demo_archive (fst maps) p \<longleftrightarrow> p = demo_key demo_batch_id" for p
  proof (cases "p = demo_key demo_batch_id")
    case True
    then show ?thesis using reads by (simp add: record_matches_def demo_nodes sameArchiveRecord_def)
  next
    case False
    from other [OF this] False show ?thesis by (auto simp: record_matches_def)
  qed
  then show "record_matches demo_host demo_archive (fst maps) = (\<lambda>p. p = demo_key demo_batch_id)" by (rule ext)
  show "\<not> live_record (context_of demo_host demo_archive targets options payer feePayer maps) p"
    if "p \<noteq> demo_key demo_batch_id"
    using other [OF that] by (auto simp: live_record_def)
qed

text \<open>So the batch proves the raw hash.\<close>

lemma demo_settles:
  assumes "read_result demo_host demo_batch_net demo_prog t (keys (arch_nodes demo_archive)) maps"
  defines "c \<equiv> context_of demo_host demo_archive [demo_key (demo_id 0 1)] demo_restore (replicate 32 4) (replicate 32 4) maps"
  shows "live_anchor demo_archive c (demo_key demo_batch_id)"
    and "\<exists>k. compileArchiveCandidate demo_host demo_batch_net demo_prog demo_archive c (demo_key demo_batch_id)
      demo_closure [demo_key (demo_id 0 1)] = Inr k"
proof -
  note live = demo_live_context [OF assms(1)] and reads = demo_reads [OF assms(1)]
  show "live_anchor demo_archive c (demo_key demo_batch_id)"
    using reads by (simp add: live_anchor_def c_def live(1) demo_nodes)
  have "net_txSize demo_batch_net ix k = Inr 500" for ix k by (simp add: demo_batch_net_def demo_net_def)
  with demo_compile [of c demo_batch_net] show "\<exists>k. compileArchiveCandidate demo_host demo_batch_net demo_prog demo_archive c
      (demo_key demo_batch_id) demo_closure [demo_key (demo_id 0 1)] = Inr k"
    using reads live unfolding c_def by (auto simp: create_accounts_def demo_restore_def)
qed

section \<open>Properties\<close>

lemma assemble_ends:
  assumes "host_ok H" "plan_inputs H program input options = Inr (a, targets, candidates)"
  shows "(\<exists>plan ex. assemble_plan H N program a (context_of H a targets options payer feePayer maps) candidates =
      Some (Inr (plan, ex))) \<or>
    (\<exists>e. assemble_plan H N program a (context_of H a targets options payer feePayer maps) candidates = Some (Inl e))"
proof -
  have "wf_archive H a" "\<forall>target \<in> set targets. get (arch_nodes a) target \<noteq> None" "distinct targets"
    using assms(2) parseArchive_wf [OF assms(1)] unfolding plan_inputs_ok by blast+
  with assemble_cases [OF assms(1), of a "context_of H a targets options payer feePayer maps" N program candidates]
  show ?thesis unfolding context_of_simps by blast
qed

lemma plan_outcome:
  assumes "host_ok H"
  shows "(\<exists>e. plan_inputs H program input options = Inl e \<and>
      planArchiveRestore H N program prepared input options payer feePayer t = Some (Inl (Plain e), prepared, t)) \<or>
    (\<exists>a r prepared'. parseArchive H input = Inr a \<and>
      planArchiveRestore H N program prepared input options payer feePayer t = Some (r, prepared',
        t @ map (\<lambda>p. EAccountInfo (key_bytes H p) None) (keys (arch_nodes a))) \<and>
      ((\<exists>e. r = Inl (Plain e) \<and> prepared' = prepared) \<or>
       (\<exists>plan execution. r = Inr (length prepared, plan) \<and> prepared' = prepared @ [execution])))"
proof (cases "plan_inputs H program input options")
  case (Inl e)
  then show ?thesis by (simp add: plan_invalid)
next
  case (Inr inputs)
  obtain a targets candidates where v: "plan_inputs H program input options = Inr (a, targets, candidates)"
    using Inr by (cases inputs) auto
  then have a: "parseArchive H input = Inr a" unfolding plan_inputs_ok by blast
  obtain maps where run: "planArchiveRestore H N program prepared input options payer feePayer t =
      (case assemble_plan H N program a (context_of H a targets options payer feePayer maps) candidates of
         None \<Rightarrow> None
       | Some (Inl e) \<Rightarrow> Some (Inl (Plain e), prepared, t @ map (read_event H) (keys (arch_nodes a)))
       | Some (Inr (plan, execution)) \<Rightarrow> Some (Inr (length prepared, plan), prepared @ [execution],
           t @ map (read_event H) (keys (arch_nodes a))))"
    using plan_valid [OF assms v] by blast
  have events: "map (read_event H) (keys (arch_nodes a)) = map (\<lambda>p. EAccountInfo (key_bytes H p) None) (keys (arch_nodes a))"
    by (simp add: read_event_def)
  from assemble_ends [OF assms v, of N payer feePayer maps] show ?thesis
    unfolding run events using a by (elim disjE exE) (auto simp del: map_map)
qed

text \<open>C29: planning always returns and never writes: it either rejects its inputs without any request,
  or requests every record of the archive exactly once, in the order of the archive, and nothing
  else; a failure leaves the prepared plans as they were, a success adds one.\<close>

theorem planArchiveRestore_reads:
  assumes "host_ok H"
  shows "(\<exists>e. plan_inputs H program input options = Inl e \<and>
      planArchiveRestore H N program prepared input options payer feePayer t = Some (Inl (Plain e), prepared, t)) \<or>
    (\<exists>a r prepared'. parseArchive H input = Inr a \<and>
      planArchiveRestore H N program prepared input options payer feePayer t = Some (r, prepared',
        t @ map (\<lambda>p. EAccountInfo (key_bytes H p) None) (keys (arch_nodes a))) \<and>
      ((\<exists>e. r = Inl (Plain e) \<and> prepared' = prepared) \<or>
       (\<exists>plan execution. r = Inr (length prepared, plan) \<and> prepared' = prepared @ [execution])))"
  by (rule plan_outcome [OF assms])

lemma planArchiveRestore_reads_witness:
  "\<exists>r prepared. planArchiveRestore demo_host demo_batch_net demo_prog [] (archive_value demo_archive) demo_restore
      (replicate 32 4) (replicate 32 4) [] = Some (r, prepared,
        map (\<lambda>p. EAccountInfo (key_bytes demo_host p) None) (keys (arch_nodes demo_archive)))"
  using planArchiveRestore_reads [OF demo_host_ok, of demo_prog "archive_value demo_archive" demo_restore demo_batch_net "[]"
      "replicate 32 4" "replicate 32 4" "[]"]
  by (auto simp: demo_inputs demo_parsed(1) simp del: map_map)

text \<open>C26: a plan covers what was asked. Every target is already present or among the targets of a
  step; what is present was read from the chain and equals the archive's record; a step's anchor
  was read and equals the archive's record too, its closure is complete, its targets are some of
  those asked for, and it is the compiled candidate for them; and there are no more steps than
  targets.\<close>

theorem planArchiveRestore_covers:
  assumes "host_ok H"
    and "planArchiveRestore H N program prepared input options payer feePayer t = Some (Inr (k, plan), prepared', t')"
  shows "\<exists>a targets maps. parseArchive H input = Inr a \<and>
    mapE (\<lambda>pda. archivePublicKey H (JString pda) ''address'') (ropt_targets options) = Inr targets \<and>
    read_records H N program ([], []) (keys (arch_nodes a)) t = (Inr maps, t') \<and>
    (\<forall>target \<in> set targets. target \<in> set (plan_alreadyPresent plan) \<or>
      (\<exists>step \<in> set (plan_steps plan). target \<in> set (step_targets step))) \<and>
    (\<forall>p \<in> set (plan_alreadyPresent plan). p \<in> set targets \<and> found_live H N program t a p) \<and>
    (\<forall>step \<in> set (plan_steps plan). found_live H N program t a (step_anchor step) \<and>
      step_targets step \<noteq> [] \<and> set (step_targets step) \<subseteq> set targets \<and>
      (\<exists>closure c. dependencyOrder H a [step_anchor step] True = Inr closure \<and>
        set (step_targets step) \<subseteq> set closure \<and>
        compileArchiveCandidate H N program a (context_of H a targets options payer feePayer maps) (step_anchor step)
          closure (step_targets step) = Inr c \<and> cand_summary c = step)) \<and>
    length (plan_steps plan) \<le> length targets"
proof -
  obtain a targets candidates where v: "plan_inputs H program input options = Inr (a, targets, candidates)"
    using assms(2) by (cases "plan_inputs H program input options") (auto simp: plan_invalid)
  then have a: "parseArchive H input = Inr a" "wf_archive H a"
    "mapE (\<lambda>pda. archivePublicKey H (JString pda) ''address'') (ropt_targets options) = Inr targets"
    "\<forall>target \<in> set targets. get (arch_nodes a) target \<noteq> None" "distinct targets"
    using parseArchive_wf [OF assms(1)] unfolding plan_inputs_ok by blast+
  obtain maps where maps: "read_result H N program t (keys (arch_nodes a)) maps"
    and reads: "read_records H N program ([], []) (keys (arch_nodes a)) t =
      (Inr maps, t @ map (read_event H) (keys (arch_nodes a)))"
    and run: "planArchiveRestore H N program prepared input options payer feePayer t =
      (case assemble_plan H N program a (context_of H a targets options payer feePayer maps) candidates of
         None \<Rightarrow> None
       | Some (Inl e) \<Rightarrow> Some (Inl (Plain e), prepared, t @ map (read_event H) (keys (arch_nodes a)))
       | Some (Inr (plan, execution)) \<Rightarrow> Some (Inr (length prepared, plan), prepared @ [execution],
           t @ map (read_event H) (keys (arch_nodes a))))"
    using plan_valid [OF assms(1) v] by blast
  let ?c = "context_of H a targets options payer feePayer maps"
  obtain ex where ex: "assemble_plan H N program a ?c candidates = Some (Inr (plan, ex))"
    and t': "t' = t @ map (read_event H) (keys (arch_nodes a))"
    using assms(2) assemble_ends [OF assms(1) v, of N payer feePayer maps] unfolding run by auto
  from assemble_cases [OF assms(1) a(2), of ?c N program candidates] a(4,5) ex
  obtain picked where plan: "plan_steps plan = map cand_summary picked" "plan_alreadyPresent plan = present_targets ?c"
    and picked: "\<forall>c \<in> set picked. \<exists>anchor \<in> set candidates. candidate_from H N program a ?c anchor c"
      "length picked \<le> length targets"
      "\<forall>target \<in> set targets. target \<in> set (present_targets ?c) \<or> (\<exists>c \<in> set picked. target \<in> set (step_targets (cand_summary c)))"
    unfolding context_of_simps by auto
  have present: "p \<in> set targets \<and> found_live H N program t a p" if "p \<in> set (present_targets ?c)" for p
    using that record_matches_found [OF maps] by (auto simp: present_targets_def split: if_splits)
  have step: "found_live H N program t a (step_anchor step) \<and>
      step_targets step \<noteq> [] \<and> set (step_targets step) \<subseteq> set targets \<and>
      (\<exists>closure c. dependencyOrder H a [step_anchor step] True = Inr closure \<and> set (step_targets step) \<subseteq> set closure \<and>
        compileArchiveCandidate H N program a ?c (step_anchor step) closure (step_targets step) = Inr c \<and>
        cand_summary c = step)" if "step \<in> set (plan_steps plan)" for step
  proof -
    from that obtain c where c: "c \<in> set picked" "step = cand_summary c" by (auto simp: plan(1))
    with picked(1) obtain anchor where "candidate_from H N program a ?c anchor c" by blast
    note from_step = candidate_from_step [OF this]
    have "found_live H N program t a (step_anchor step)"
      using from_step(1,5) record_matches_found [OF maps] by (simp add: c(2))
    with from_step show ?thesis unfolding context_of_simps c(2) by blast
  qed
  show ?thesis
  proof (intro exI conjI)
    show "\<forall>target \<in> set targets. target \<in> set (plan_alreadyPresent plan) \<or>
        (\<exists>step \<in> set (plan_steps plan). target \<in> set (step_targets step))"
      using picked(3) by (simp add: plan)
    show "\<forall>p \<in> set (plan_alreadyPresent plan). p \<in> set targets \<and> found_live H N program t a p"
      using present by (simp add: plan(2))
    show "length (plan_steps plan) \<le> length targets" using picked(2) by (simp add: plan(1))
    show "read_records H N program ([], []) (keys (arch_nodes a)) t = (Inr maps, t')" by (simp add: reads t' del: map_map)
  qed (use a(1,3) step in blast)+
qed

lemma assemble_complete:
  assumes "host_ok H" "plan_inputs H program input options = Inr (a, targets, candidates)"
    and "\<forall>target \<in> set targets. create_accounts (ropt_createAccounts options) \<and> record_matches H a (fst maps) target \<or>
      (\<exists>anchor \<in> set candidates. \<exists>closure c. live_anchor a (context_of H a targets options payer feePayer maps) anchor \<and>
        dependencyOrder H a [anchor] True = Inr closure \<and> target \<in> set closure \<and>
        compileArchiveCandidate H N program a (context_of H a targets options payer feePayer maps) anchor closure [target] = Inr c)"
  shows "\<exists>plan ex. assemble_plan H N program a (context_of H a targets options payer feePayer maps) candidates = Some (Inr (plan, ex))"
proof -
  let ?c = "context_of H a targets options payer feePayer maps"
  have a: "wf_archive H a" "\<forall>target \<in> set (ctx_targets ?c). get (arch_nodes a) target \<noteq> None" "distinct (ctx_targets ?c)"
    using assms(2) parseArchive_wf [OF assms(1)] unfolding plan_inputs_ok context_of_simps by blast+
  have "left_over H a ?c candidates failed = []" if fails: "\<forall>anchor. fails_for H N program a ?c anchor (failed anchor)" for failed
    unfolding left_over_def filter_empty_conv
  proof (intro ballI notI, elim conjE)
    fix target assume target: "target \<in> set (ctx_targets ?c)" "target \<notin> set (present_targets ?c)"
      and all: "\<forall>anchor \<in> set candidates. reaches H a ?c anchor target \<longrightarrow> target \<in> set (failed anchor)"
    then have "\<not> (create_accounts (ropt_createAccounts options) \<and> record_matches H a (fst maps) target)"
      by (auto simp: present_targets_def)
    with assms(3) target(1) obtain anchor closure c where valid: "anchor \<in> set candidates" "live_anchor a ?c anchor"
      "dependencyOrder H a [anchor] True = Inr closure" "target \<in> set closure"
      "compileArchiveCandidate H N program a ?c anchor closure [target] = Inr c"
      unfolding context_of_simps by blast
    then have "target \<in> set (failed anchor)" using all by (auto simp: reaches_def)
    with fails target(1) have "\<exists>closure e. dependencyOrder H a [anchor] True = Inr closure \<and>
        compileArchiveCandidate H N program a ?c anchor closure [target] = Inl e"
      unfolding fails_for_def by meson
    with valid(3,5) show False by auto
  qed
  with assemble_cases [OF assms(1) a, of N program candidates] show ?thesis by blast
qed

text \<open>C30: planning does not give up early: if every target is present already, or has an anchor among
  those tried that is live, reaches it, and for which a proof of that target alone compiles and
  fits, then planning succeeds, whatever else fails and however the selections are split.\<close>

theorem planArchiveRestore_complete:
  assumes "host_ok H" "plan_inputs H program input options = Inr (a, targets, candidates)"
    and "read_records H N program ([], []) (keys (arch_nodes a)) t = (Inr maps, t')"
    and "\<forall>target \<in> set targets. create_accounts (ropt_createAccounts options) \<and> record_matches H a (fst maps) target \<or>
      (\<exists>anchor \<in> set candidates. \<exists>closure c. live_anchor a (context_of H a targets options payer feePayer maps) anchor \<and>
        dependencyOrder H a [anchor] True = Inr closure \<and> target \<in> set closure \<and>
        compileArchiveCandidate H N program a (context_of H a targets options payer feePayer maps) anchor closure [target] = Inr c)"
  shows "\<exists>plan execution. planArchiveRestore H N program prepared input options payer feePayer t =
    Some (Inr (length prepared, plan), prepared @ [execution], t')"
proof -
  from assemble_complete [OF assms(1,2,4)] show ?thesis
    by (auto simp: planArchiveRestore_def assms(2,3) simp flip: context_of_def)
qed

text \<open>The demonstration network yields a plan.\<close>

lemma demo_planned:
  "\<exists>plan execution. planArchiveRestore demo_host demo_batch_net demo_prog [] (archive_value demo_archive) demo_restore
      (replicate 32 4) (replicate 32 4) [] = Some (Inr (0, plan), [execution],
        map (read_event demo_host) (keys (arch_nodes demo_archive))) \<and> exec_steps execution \<noteq> []"
proof -
  have wf: "wf_archive demo_host demo_archive" by (rule parseArchive_wf [OF demo_host_ok demo_parsed(1)])
  obtain maps where maps: "read_records demo_host demo_batch_net demo_prog ([], []) (keys (arch_nodes demo_archive)) [] =
      (Inr maps, [] @ map (read_event demo_host) (keys (arch_nodes demo_archive)))"
    "read_result demo_host demo_batch_net demo_prog [] (keys (arch_nodes demo_archive)) maps"
    using plan_run [OF demo_host_ok wf] by blast
  let ?c = "context_of demo_host demo_archive [demo_key (demo_id 0 1)] demo_restore (replicate 32 4) (replicate 32 4) maps"
  have "\<exists>plan ex. assemble_plan demo_host demo_batch_net demo_prog demo_archive ?c [demo_key demo_batch_id] = Some (Inr (plan, ex))"
    by (rule assemble_complete [OF demo_host_ok demo_inputs]) (use demo_settles [OF maps(2)] demo_batch_order in auto)
  then obtain plan ex where ex: "assemble_plan demo_host demo_batch_net demo_prog demo_archive ?c [demo_key demo_batch_id] =
      Some (Inr (plan, ex))" by blast
  have "present_targets ?c = []"
    by (simp add: present_targets_def demo_live_context(1) [OF maps(2)])
  with assemble_cases [OF demo_host_ok wf, of ?c demo_batch_net demo_prog "[demo_key demo_batch_id]"] ex
  have "exec_steps ex \<noteq> []" by (auto simp: demo_nodes)
  with ex show ?thesis
    by (auto simp: planArchiveRestore_def demo_inputs maps(1) simp del: map_map simp flip: context_of_def)
qed

lemma planArchiveRestore_complete_witness:
  "\<exists>plan execution. planArchiveRestore demo_host demo_batch_net demo_prog [] (archive_value demo_archive) demo_restore
      (replicate 32 4) (replicate 32 4) [] = Some (Inr (0, plan), [execution],
        map (read_event demo_host) (keys (arch_nodes demo_archive)))"
proof -
  have wf: "wf_archive demo_host demo_archive" by (rule parseArchive_wf [OF demo_host_ok demo_parsed(1)])
  obtain maps where maps: "read_records demo_host demo_batch_net demo_prog ([], []) (keys (arch_nodes demo_archive)) [] =
      (Inr maps, [] @ map (read_event demo_host) (keys (arch_nodes demo_archive)))"
    "read_result demo_host demo_batch_net demo_prog [] (keys (arch_nodes demo_archive)) maps"
    using plan_run [OF demo_host_ok wf] by blast
  note settles = demo_settles [OF maps(2)]
  show ?thesis
    using planArchiveRestore_complete [OF demo_host_ok demo_inputs maps(1), of "replicate 32 4" "replicate 32 4" "[]"]
      settles demo_batch_order by (auto simp del: map_map)
qed

lemma planArchiveRestore_covers_witness:
  "\<exists>plan. (\<exists>k prepared t. planArchiveRestore demo_host demo_batch_net demo_prog [] (archive_value demo_archive) demo_restore
      (replicate 32 4) (replicate 32 4) [] = Some (Inr (k, plan), prepared, t)) \<and>
    (demo_key (demo_id 0 1) \<in> set (plan_alreadyPresent plan) \<or>
      list_ex (\<lambda>step. demo_key (demo_id 0 1) \<in> set (step_targets step)) (plan_steps plan))"
proof -
  obtain k plan prepared t where run: "planArchiveRestore demo_host demo_batch_net demo_prog [] (archive_value demo_archive)
      demo_restore (replicate 32 4) (replicate 32 4) [] = Some (Inr (k, plan), prepared, t)"
    using demo_planned by blast
  from planArchiveRestore_covers [OF demo_host_ok run] run show ?thesis
    by (auto simp: demo_restore_def demo_address list_ex_iff)
qed

text \<open>C31: a plan that cannot be made names every target left over and every reason. On inputs that
  pass the checks the only failure is one message, and it is determined: it lists, in the order of
  the targets, exactly those that are not present and that every tried anchor reaching them has
  failed; and then, anchor by anchor in the order they were tried, every reason: the failed read,
  the absent or different record, the incomplete closure, or the compile errors of exactly the
  targets this anchor reaches and has neither a proof of their own nor a candidate for. A target an
  anchor reaches and has not failed is covered by one of its candidates, so it is never listed. No
  plan is stored.\<close>

theorem planArchiveRestore_error:
  assumes "host_ok H" "plan_inputs H program input options = Inr (a, targets, candidates)"
    and "planArchiveRestore H N program prepared input options payer feePayer t = Some (Inl e, prepared', t')"
  shows "\<exists>maps context left failed. read_records H N program ([], []) (keys (arch_nodes a)) t = (Inr maps, t') \<and>
    prepared' = prepared \<and> context = context_of H a targets options payer feePayer maps \<and>
    e = Plain (Error (no_proof_message left
      (concat (map (\<lambda>anchor. anchor_reasons H N program a context (failed anchor) anchor) candidates)))) \<and>
    left \<noteq> [] \<and> left = filter (\<lambda>target.
      \<not> (create_accounts (ropt_createAccounts options) \<and> record_matches H a (fst maps) target) \<and>
      (\<forall>anchor \<in> set candidates. reaches H a context anchor target \<longrightarrow> target \<in> set (failed anchor))) targets \<and>
    (\<forall>anchor \<in> set candidates. fails_for H N program a context anchor (failed anchor))"
proof -
  have a: "wf_archive H a" "\<forall>target \<in> set targets. get (arch_nodes a) target \<noteq> None" "distinct targets"
    using assms(2) parseArchive_wf [OF assms(1)] unfolding plan_inputs_ok by blast+
  obtain maps where maps: "read_records H N program ([], []) (keys (arch_nodes a)) t =
      (Inr maps, t @ map (read_event H) (keys (arch_nodes a)))" "read_result H N program t (keys (arch_nodes a)) maps"
    using plan_run [OF assms(1) a(1)] by blast
  let ?c = "context_of H a targets options payer feePayer maps"
  have run: "planArchiveRestore H N program prepared input options payer feePayer t =
      (case assemble_plan H N program a ?c candidates of
         None \<Rightarrow> None
       | Some (Inl e) \<Rightarrow> Some (Inl (Plain e), prepared, t @ map (read_event H) (keys (arch_nodes a)))
       | Some (Inr (plan, execution)) \<Rightarrow> Some (Inr (length prepared, plan), prepared @ [execution],
           t @ map (read_event H) (keys (arch_nodes a))))"
    by (simp add: planArchiveRestore_def assms(2) maps(1) context_of_def del: map_map)
  obtain e' where e': "assemble_plan H N program a ?c candidates = Some (Inl e')" "e = Plain e'" "prepared' = prepared"
    "t' = t @ map (read_event H) (keys (arch_nodes a))"
    using assms(3) assemble_ends [OF assms(1,2), of N payer feePayer maps] unfolding run by (elim disjE exE) auto
  from assemble_cases [OF assms(1) a(1), of ?c N program candidates] a(2,3) e'(1)
  obtain failed where failed: "e' = Error (no_proof_message (left_over H a ?c candidates failed)
      (all_reasons H N program a ?c candidates failed))" "left_over H a ?c candidates failed \<noteq> []"
      "\<forall>anchor. fails_for H N program a ?c anchor (failed anchor)"
    unfolding context_of_simps by auto
  have left: "left_over H a ?c candidates failed = filter (\<lambda>target.
      \<not> (create_accounts (ropt_createAccounts options) \<and> record_matches H a (fst maps) target) \<and>
      (\<forall>anchor \<in> set candidates. reaches H a ?c anchor target \<longrightarrow> target \<in> set (failed anchor))) targets"
    unfolding left_over_def context_of_simps by (rule filter_cong) (auto simp: present_targets_def)
  show ?thesis
  proof (intro exI conjI)
    show "read_records H N program ([], []) (keys (arch_nodes a)) t = (Inr maps, t')" by (simp only: maps(1) e'(4))
    show "e = Plain (Error (no_proof_message (left_over H a ?c candidates failed)
        (concat (map (\<lambda>anchor. anchor_reasons H N program a ?c (failed anchor) anchor) candidates))))"
      by (simp only: e'(2) failed(1) all_reasons_def)
    show "\<forall>anchor \<in> set candidates. fails_for H N program a ?c anchor (failed anchor)" using failed(3) by blast
  qed (use e'(3) failed(2) left in auto)
qed

lemma planArchiveRestore_error_witness:
  "\<exists>t. planArchiveRestore demo_host demo_batch_net demo_prog [] (archive_value demo_archive)
      (demo_restore\<lparr>ropt_anchor := Some (demo_key (demo_id 0 1))\<rparr>) (replicate 32 4) (replicate 32 4) [] =
      Some (Inl (Plain (Error (no_proof_message [demo_key (demo_id 0 1)]
        [(demo_key (demo_id 0 1), ''Error: Anchor is absent or has a different historical state'')]))), [], t)"
proof -
  let ?o = "demo_restore\<lparr>ropt_anchor := Some (demo_key (demo_id 0 1))\<rparr>" and ?leaf = "demo_key (demo_id 0 1)"
  have wf: "wf_archive demo_host demo_archive" by (rule parseArchive_wf [OF demo_host_ok demo_parsed(1)])
  have "32 \<le> length ?leaf"
    using toBase58_text [OF demo_host_ok, of "demo_id 0 1"] unfolding base58_text_def by simp
  moreover have "\<not> 32 \<le> length ''auto''" "\<not> 32 \<le> length ([] :: string)" by simp_all
  ultimately have "?leaf \<noteq> []" "?leaf \<noteq> ''auto''" by metis+
  then have inputs: "plan_inputs demo_host demo_prog (archive_value demo_archive) ?o = Inr (demo_archive, [?leaf], [?leaf])"
    unfolding plan_inputs_ok
    by (simp add: demo_parsed demo_restore_def demo_program_def demo_address demo_nodes anchors_to_try_def)
  obtain maps where maps: "read_records demo_host demo_batch_net demo_prog ([], []) (keys (arch_nodes demo_archive)) [] =
      (Inr maps, [] @ map (read_event demo_host) (keys (arch_nodes demo_archive)))"
    "read_result demo_host demo_batch_net demo_prog [] (keys (arch_nodes demo_archive)) maps"
    using plan_run [OF demo_host_ok wf] by blast
  let ?c = "context_of demo_host demo_archive [?leaf] ?o (replicate 32 4) (replicate 32 4) maps"
  have "snd maps = []" using demo_reads [OF maps(2)] by simp
  then have tried: "try_anchors demo_host demo_batch_net demo_prog demo_archive ?c [?leaf] ([], []) =
      Some (reject demo_batch_net ?leaf (Error ''Anchor is absent or has a different historical state'') ([], []))"
    by (simp add: try_anchor_def demo_live_context(1) [OF maps(2)])
  have picked: "pick_steps demo_host [] [?leaf] [] = Inl [?leaf]"
    by (simp add: pick_steps.simps ranked_def)
  have copied: "copied_archive demo_host demo_archive [] = Inr (restricted demo_archive [])"
    by (rule copied_archive_known [OF demo_host_ok wf]) simp
  have "assemble_plan demo_host demo_batch_net demo_prog demo_archive ?c [?leaf] =
      Some (Inl (Error (no_proof_message [?leaf] (snd (reject demo_batch_net ?leaf
        (Error ''Anchor is absent or has a different historical state'') ([], []))))))"
    using tried picked copied
    by (simp add: assemble_plan_def demo_live_context(1) [OF maps(2)] reject_def del: try_anchors.simps)
  then have "\<exists>e prepared t. planArchiveRestore demo_host demo_batch_net demo_prog [] (archive_value demo_archive)
      ?o (replicate 32 4) (replicate 32 4) [] = Some (Inl e, prepared, t)"
    by (simp add: planArchiveRestore_def inputs maps(1) context_of_def del: map_map)
  then obtain e prepared t where run: "planArchiveRestore demo_host demo_batch_net demo_prog [] (archive_value demo_archive)
      ?o (replicate 32 4) (replicate 32 4) [] = Some (Inl e, prepared, t)" by blast
  from planArchiveRestore_error [OF demo_host_ok inputs run]
  obtain maps' left failed where err: "read_records demo_host demo_batch_net demo_prog ([], []) (keys (arch_nodes demo_archive)) [] = (Inr maps', t)"
    "e = Plain (Error (no_proof_message left (concat (map (\<lambda>anchor. anchor_reasons demo_host demo_batch_net demo_prog demo_archive
      (context_of demo_host demo_archive [?leaf] ?o (replicate 32 4) (replicate 32 4) maps') (failed anchor) anchor) [?leaf]))))"
    "left \<noteq> []" "\<exists>P. left = filter P [?leaf]" "prepared = []"
    by blast
  have same: "maps' = maps" using err(1) maps(1) by simp
  have "left = [?leaf]" using err(3,4) by (auto split: if_splits)
  moreover have "\<not> live_anchor demo_archive ?c ?leaf" by (simp add: live_anchor_def demo_live_context(1) [OF maps(2)])
  ultimately have "e = Plain (Error (no_proof_message [?leaf] [(?leaf, ''Error: Anchor is absent or has a different historical state'')]))"
    using err(2) \<open>snd maps = []\<close> by (simp add: same anchor_reasons_def)
  with run err(5) show ?thesis by blast
qed

end
