(* ===== verification/Execution.thy ===== *)
theory Execution
  imports Planning
begin

text \<open>
  What \<open>executeArchiveRestore\<close> promises: it sends exactly the prepared instructions, in order
  and until the first failure, and reports the signatures and the archive of what completed.
\<close>

section \<open>Selections of one archive\<close>

definition selects :: "hash_archive \<Rightarrow> string set \<Rightarrow> hash_archive \<Rightarrow> bool" where
  "selects a S b \<longleftrightarrow> arch_programId b = arch_programId a \<and> distinct (keys (arch_nodes b)) \<and>
     (\<forall>p. get (arch_nodes b) p = (if p \<in> S then get (arch_nodes a) p else None))"

lemma selects_part: "selects a S b \<Longrightarrow> part_of b a"
  by (auto simp: selects_def part_of_def split: if_splits)

lemma selects_wf: "host_ok H \<Longrightarrow> wf_archive H a \<Longrightarrow> selects a S b \<Longrightarrow> wf_archive H b"
  using wf_archive_part selects_part by blast

lemma restricted_selects:
  assumes "\<forall>p \<in> set ids. get (arch_nodes a) p \<noteq> None"
  shows "selects a (set ids) (restricted a ids)"
proof -
  have "distinct (keys (arch_nodes (restricted a ids)))" by (simp add: restricted_def foldl_put_keys)
  moreover have "get (arch_nodes (restricted a ids)) p = (if p \<in> set ids then get (arch_nodes a) p else None)" for p
    using assms by (cases "get (arch_nodes a) p") (auto simp: restricted_get)
  ultimately show ?thesis by (simp add: selects_def restricted_def)
qed

text \<open>Selections of one archive merge into the selection of both.\<close>

lemma merge_selects:
  assumes "host_ok H" "wf_archive H a" "selects a S b" "selects a T c"
  shows "\<exists>d. mergeArchives H (archive_value b) [archive_value c] = Inr d \<and> selects a (S \<union> T) d"
proof -
  note parsed = parseArchive_value [OF assms(1) selects_wf [OF assms(1-3)]]
    parseArchive_value [OF assms(1) selects_wf [OF assms(1,2,4)]]
  obtain d where d: "mergeArchives H (archive_value b) [archive_value c] = Inr d" "part_of d a"
    using merge_parts [OF assms(1) parsed assms(2) selects_part [OF assms(3)] selects_part [OF assms(4)]] by blast
  then have "union_of (arch_nodes b) (arch_nodes c) (arch_nodes d)"
    by (simp add: merge_parsed [OF assms(1) parsed])
  then have joins: "lift_join node_join (get (arch_nodes b) p) (get (arch_nodes c) p) = Some (get (arch_nodes d) p)" for p
    by (simp add: union_of_def)
  have "get (arch_nodes d) p = (if p \<in> S \<union> T then get (arch_nodes a) p else None)" for p
    using joins [of p] assms(3,4) record_join.join_idem
    by (cases "get (arch_nodes a) p") (auto simp: selects_def split: if_splits)
  with d show ?thesis by (auto simp: selects_def part_of_def)
qed

section \<open>Runs\<close>

definition send_event :: "bytes \<Rightarrow> bytes list \<Rightarrow> prepared_step \<Rightarrow> event" where
  "send_event feePayer signers step = ESend (prep_instruction step) feePayer signers"

lemma run_steps_sends:
  "run_steps H N feePayer signers index result steps t = (r, t') \<Longrightarrow>
     (\<exists>final. r = Inr final \<and> t' = t @ map (send_event feePayer signers) steps \<and>
        length (result_signatures final) = length (result_signatures result) + length steps) \<or>
     (\<exists>i signatures archive cause. i < length steps \<and> r = Inl (ExecutionError signatures archive (index + i) cause) \<and>
        t' = t @ map (send_event feePayer signers) (take (Suc i) steps) \<and>
        (length signatures = length (result_signatures result) + i \<or> length signatures = Suc (length (result_signatures result) + i)))"
proof (induction steps arbitrary: index result t)
  case (Cons step steps)
  let ?ev = "send_event feePayer signers"
  show ?case
  proof (cases "net_send N t (prep_instruction step) feePayer signers")
    case (Inl e)
    with Cons.prems show ?thesis by (auto simp: Let_def send_event_def)
  next
    case signature: (Inr signature)
    show ?thesis
    proof (cases "mergeArchives H (archive_value (result_archive result)) [archive_value (prep_archive step)]")
      case (Inl e)
      with Cons.prems signature show ?thesis by (auto simp: Let_def send_event_def)
    next
      case (Inr merged)
      let ?next = "\<lparr>result_signatures = result_signatures result @ [signature], result_archive = merged\<rparr>"
      from Cons.prems signature Inr
      have "run_steps H N feePayer signers (Suc index) ?next steps (t @ [?ev step]) = (r, t')"
        by (simp add: Let_def send_event_def)
      from Cons.IH [OF this] consider
        (sent) final where "r = Inr final" "t' = (t @ [?ev step]) @ map ?ev steps"
          "length (result_signatures final) = length (result_signatures ?next) + length steps"
      | (failed) i signatures archive cause where "i < length steps" "r = Inl (ExecutionError signatures archive (Suc index + i) cause)"
          "t' = (t @ [?ev step]) @ map ?ev (take (Suc i) steps)"
          "length signatures = length (result_signatures ?next) + i \<or> length signatures = Suc (length (result_signatures ?next) + i)"
        by blast
      then show ?thesis
      proof cases
        case failed
        then show ?thesis
          by (intro disjI2 exI [of _ "Suc i"] exI [of _ signatures] exI [of _ archive] exI [of _ cause]) auto
      qed simp
    qed
  qed
qed auto

text \<open>When every step holds a selection of one archive, merging never fails: an execution stops only
  at a failed transaction, and what it reports is the selection of what completed.\<close>

lemma run_steps_selects:
  assumes "host_ok H" "wf_archive H a"
  shows "list_all2 (\<lambda>step S. selects a S (prep_archive step)) steps Ss \<Longrightarrow> selects a S0 (result_archive result) \<Longrightarrow>
    run_steps H N feePayer signers index result steps t = (r, t') \<Longrightarrow>
     (\<exists>final. r = Inr final \<and> selects a (S0 \<union> \<Union> (set Ss)) (result_archive final)) \<or>
     (\<exists>i signatures archive e. i < length steps \<and> r = Inl (ExecutionError signatures archive (index + i) (Plain e)) \<and>
        length signatures = length (result_signatures result) + i \<and> selects a (S0 \<union> \<Union> (set (take i Ss))) archive \<and>
        net_send N (t @ map (send_event feePayer signers) (take i steps)) (prep_instruction (steps ! i)) feePayer signers = Inl e)"
proof (induction steps arbitrary: index result t Ss S0)
  case (Cons step steps)
  let ?ev = "send_event feePayer signers"
  obtain S Ss' where Ss: "Ss = S # Ss'" "selects a S (prep_archive step)"
    "list_all2 (\<lambda>step S. selects a S (prep_archive step)) steps Ss'"
    using Cons.prems(1) by (auto simp: list_all2_Cons1)
  show ?case
  proof (cases "net_send N t (prep_instruction step) feePayer signers")
    case (Inl e)
    with Cons.prems show ?thesis by (auto simp: Let_def)
  next
    case signature: (Inr signature)
    obtain merged where merged: "mergeArchives H (archive_value (result_archive result)) [archive_value (prep_archive step)] = Inr merged"
      "selects a (S0 \<union> S) merged"
      using merge_selects [OF assms Cons.prems(2) Ss(2)] by blast
    let ?next = "\<lparr>result_signatures = result_signatures result @ [signature], result_archive = merged\<rparr>"
    from Cons.prems(3) signature merged(1)
    have run: "run_steps H N feePayer signers (Suc index) ?next steps (t @ [?ev step]) = (r, t')"
      by (simp add: Let_def send_event_def)
    have "selects a (S0 \<union> S) (result_archive ?next)" using merged(2) by simp
    from Cons.IH [OF Ss(3) this run] show ?thesis
    proof (elim disjE exE conjE)
      fix final assume "r = Inr final" "selects a (S0 \<union> S \<union> \<Union> (set Ss')) (result_archive final)"
      then show ?thesis by (simp add: Ss(1) Un_assoc)
    next
      fix i signatures archive e
      assume "i < length steps" "r = Inl (ExecutionError signatures archive (Suc index + i) (Plain e))"
        "length signatures = length (result_signatures ?next) + i" "selects a (S0 \<union> S \<union> \<Union> (set (take i Ss'))) archive"
        "net_send N ((t @ [?ev step]) @ map ?ev (take i steps)) (prep_instruction (steps ! i)) feePayer signers = Inl e"
      then show ?thesis
        by (intro disjI2 exI [of _ "Suc i"] exI [of _ signatures] exI [of _ archive] exI [of _ e])
          (auto simp: Ss(1) Un_assoc)
    qed
  qed
qed auto

text \<open>Which plans may run at all.\<close>

definition executable_now ::
  "host \<Rightarrow> program \<Rightarrow> execution \<Rightarrow> bytes \<Rightarrow> bytes \<Rightarrow> bool \<Rightarrow> bool" where
  "executable_now H program execution payerKey feePayer allow \<longleftrightarrow>
     exec_connection execution = prog_connection program \<and> exec_endpoint execution = prog_endpoint program \<and>
     exec_programId execution = toBase58 H (prog_id program) \<and> exec_payer execution = toBase58 H payerKey \<and>
     exec_feePayer execution = toBase58 H feePayer \<and>
     (allow \<or> (\<forall>step \<in> set (exec_steps execution). prep_additional step = [])) \<and> prog_sendAndConfirm program"

lemma execute_run:
  "plan < length prepared \<Longrightarrow> executable_now H program (prepared ! plan) payerKey feePayer allow \<Longrightarrow>
     executeArchiveRestore H N program prepared plan payer payerKey feePayer allow =
       bindC (pureC (parseArchive H (archive_value (exec_present (prepared ! plan))))) (\<lambda>archive.
         run_steps H N feePayer (case payer of None \<Rightarrow> [] | Some key \<Rightarrow> [key]) 0
           \<lparr>result_signatures = [], result_archive = archive\<rparr> (exec_steps (prepared ! plan)))"
  by (auto simp: executeArchiveRestore_def executable_now_def Let_def list_ex_iff)

lemma execute_refused:
  "\<not> (plan < length prepared \<and> executable_now H program (prepared ! plan) payerKey feePayer allow) \<Longrightarrow>
     \<exists>message. executeArchiveRestore H N program prepared plan payer payerKey feePayer allow t = (Inl (Plain (Error message)), t)"
  by (auto simp: executeArchiveRestore_def executable_now_def Let_def list_ex_iff)

lemma list_all2_set1: "list_all2 P xs ys \<Longrightarrow> \<forall>x \<in> set xs. \<exists>y \<in> set ys. P x y"
  by (induction rule: list_all2_induct) auto

lemma compiled_copy:
  assumes "compileArchiveCandidate H N program a context anchor closure selected = Inr c"
  shows "copied_archive H a closure = Inr (prep_archive (cand_execution c))"
proof -
  from assms obtain summary ix b extra where "copied_archive H a closure = Inr b"
    "c = \<lparr>cand_summary = summary, cand_execution = \<lparr>prep_instruction = ix, prep_archive = b, prep_additional = extra\<rparr>\<rparr>"
    unfolding compileArchiveCandidate_def Let_def bindE_ok by blast
  then show ?thesis by simp
qed

text \<open>What is sent for a step: the Restore instruction of the step's proof, from the record of its
  anchor, charged to the payer, with no account of the remaining ones as a signer.\<close>

definition restores_step :: "host \<Rightarrow> bool \<Rightarrow> bytes \<Rightarrow> prepared_step \<Rightarrow> restore_step \<Rightarrow> bool" where
  "restores_step H create payer sent step \<longleftrightarrow> (\<exists>encoded key. prepareRestore H (step_proof step) create = Inr encoded \<and>
     publicKeyOf H (step_anchor step) = Inr key \<and> ix_call (prep_instruction sent) = IxRestore (proofEncoded encoded) \<and>
     ix_accounts (prep_instruction sent) =
       [(''payer'', payer), (''anchorHashAccount'', key), (''systemProgram'', SYSTEM_PROGRAM)] \<and>
     list_all (\<lambda>meta. \<not> meta_isSigner meta) (ix_remaining (prep_instruction sent)))"

lemma restore_meta_signers:
  assumes "mapE (restore_meta H program payer creations) ids = Inr metas"
  shows "list_all (\<lambda>meta. \<not> meta_isSigner meta) (concat metas)"
proof -
  have "list_all (\<lambda>meta. \<not> meta_isSigner meta) m" if "restore_meta H program payer creations i = Inr m" for i m
    using that by (auto simp: restore_meta_def Let_def)
  with assms show ?thesis by (induction ids arbitrary: metas) auto
qed

lemma compiled_instruction:
  assumes "compileArchiveCandidate H N program a context anchor closure selected = Inr c"
  shows "restores_step H (ctx_create context) (ctx_payer context) (cand_execution c) (cand_summary c)"
  using assms unfolding compileArchiveCandidate_def Let_def bindE_ok restores_step_def
  by (auto dest!: restore_meta_signers)

text \<open>The execution a plan stands for.\<close>

lemma planned_execution:
  assumes "host_ok H"
    and "planArchiveRestore H N program prepared input options payer feePayer t = Some (Inr (k, plan), prepared', t')"
  shows "\<exists>a targets ex closures. parseArchive H input = Inr a \<and> wf_archive H a \<and>
    mapE (\<lambda>pda. archivePublicKey H (JString pda) ''address'') (ropt_targets options) = Inr targets \<and>
    k = length prepared \<and> prepared' = prepared @ [ex] \<and>
    exec_connection ex = prog_connection program \<and> exec_endpoint ex = prog_endpoint program \<and>
    exec_programId ex = toBase58 H (prog_id program) \<and> exec_payer ex = toBase58 H payer \<and>
    exec_feePayer ex = toBase58 H feePayer \<and>
    selects a (set (plan_alreadyPresent plan)) (exec_present ex) \<and>
    length closures = length (plan_steps plan) \<and>
    list_all2 (\<lambda>step S. selects a S (prep_archive step)) (exec_steps ex) closures \<and>
    list_all2 (\<lambda>step S. \<exists>order. dependencyOrder H a [step_anchor step] True = Inr order \<and> S = set order \<and>
      set (step_targets step) \<subseteq> S) (plan_steps plan) closures \<and>
    map prep_additional (exec_steps ex) = map step_additional (plan_steps plan) \<and>
    (\<forall>target \<in> set targets. target \<in> set (plan_alreadyPresent plan) \<or>
      (\<exists>step \<in> set (plan_steps plan). target \<in> set (step_targets step))) \<and>
    list_all2 (restores_step H (create_accounts (ropt_createAccounts options)) payer) (exec_steps ex) (plan_steps plan)"
proof -
  obtain a targets candidates where v: "plan_inputs H program input options = Inr (a, targets, candidates)"
    using assms(2) by (cases "plan_inputs H program input options") (auto simp: plan_invalid)
  then have a: "parseArchive H input = Inr a" "wf_archive H a"
    "mapE (\<lambda>pda. archivePublicKey H (JString pda) ''address'') (ropt_targets options) = Inr targets"
    "\<forall>target \<in> set targets. get (arch_nodes a) target \<noteq> None" "arch_programId a = toBase58 H (prog_id program)"
    "distinct targets"
    using parseArchive_wf [OF assms(1)] unfolding plan_inputs_ok by blast+
  obtain maps where run: "planArchiveRestore H N program prepared input options payer feePayer t =
      (case assemble_plan H N program a (context_of H a targets options payer feePayer maps) candidates of
         None \<Rightarrow> None
       | Some (Inl e) \<Rightarrow> Some (Inl (Plain e), prepared, t @ map (read_event H) (keys (arch_nodes a)))
       | Some (Inr (plan, execution)) \<Rightarrow> Some (Inr (length prepared, plan), prepared @ [execution],
           t @ map (read_event H) (keys (arch_nodes a))))"
    using plan_valid [OF assms(1) v] by blast
  let ?c = "context_of H a targets options payer feePayer maps"
  obtain ex where ex: "assemble_plan H N program a ?c candidates = Some (Inr (plan, ex))" "k = length prepared" "prepared' = prepared @ [ex]"
    using assms(2) assemble_ends [OF assms(1) v, of N payer feePayer maps] unfolding run by auto
  from assemble_cases [OF assms(1) a(2), of ?c N program candidates] a(4,6) ex(1)
  obtain picked where plan: "plan_steps plan = map cand_summary picked" "plan_alreadyPresent plan = present_targets ?c"
    and fields: "exec_connection ex = prog_connection program" "exec_endpoint ex = prog_endpoint program"
      "exec_programId ex = arch_programId a" "exec_payer ex = toBase58 H payer" "exec_feePayer ex = toBase58 H feePayer"
      "exec_present ex = restricted a (present_targets ?c)" "exec_steps ex = map cand_execution picked"
    and picked: "\<forall>c \<in> set picked. \<exists>anchor \<in> set candidates. candidate_from H N program a ?c anchor c"
      "\<forall>target \<in> set targets. target \<in> set (present_targets ?c) \<or> (\<exists>c \<in> set picked. target \<in> set (step_targets (cand_summary c)))"
    unfolding context_of_simps by auto
  define closure where "closure c = set (projr (dependencyOrder H a [step_anchor (cand_summary c)] True))" for c :: candidate
  have step: "selects a (closure c) (prep_archive (cand_execution c)) \<and>
      (\<exists>order. dependencyOrder H a [step_anchor (cand_summary c)] True = Inr order \<and> closure c = set order \<and>
        set (step_targets (cand_summary c)) \<subseteq> closure c) \<and>
      prep_additional (cand_execution c) = step_additional (cand_summary c) \<and>
      restores_step H (create_accounts (ropt_createAccounts options)) payer (cand_execution c) (cand_summary c)" if c: "c \<in> set picked" for c
  proof -
    obtain anchor where "candidate_from H N program a ?c anchor c" using picked(1) c by blast
    from candidate_from_step [OF this] obtain order where order: "step_anchor (cand_summary c) = anchor"
      "dependencyOrder H a [anchor] True = Inr order" "set (step_targets (cand_summary c)) \<subseteq> set order"
      "compileArchiveCandidate H N program a ?c anchor order (step_targets (cand_summary c)) = Inr c" by blast
    have present: "\<forall>p \<in> set order. get (arch_nodes a) p \<noteq> None"
      using order_present [OF order(2)] by (metis option.distinct(1))
    from compiled_copy [OF order(4)] have "selects a (set order) (prep_archive (cand_execution c))"
      using copied_archive_known [OF assms(1) a(2) present] restricted_selects [OF present] by simp
    with order compiled_names(3) [OF order(4)] compiled_instruction [OF order(4)] show ?thesis by (simp add: closure_def)
  qed
  have "\<forall>p \<in> set (present_targets ?c). get (arch_nodes a) p \<noteq> None" using a(4) by (auto simp: present_targets_def)
  from restricted_selects [OF this] have present: "selects a (set (plan_alreadyPresent plan)) (exec_present ex)"
    by (simp add: plan(2) fields(6))
  have covered: "\<forall>target \<in> set targets. target \<in> set (plan_alreadyPresent plan) \<or>
      (\<exists>step \<in> set (plan_steps plan). target \<in> set (step_targets step))"
    using picked(2) by (simp add: plan)
  have lists: "list_all2 (\<lambda>step S. selects a S (prep_archive step)) (exec_steps ex) (map closure picked)"
    "list_all2 (\<lambda>step S. \<exists>order. dependencyOrder H a [step_anchor step] True = Inr order \<and> S = set order \<and>
      set (step_targets step) \<subseteq> S) (plan_steps plan) (map closure picked)"
    "map prep_additional (exec_steps ex) = map step_additional (plan_steps plan)"
    "list_all2 (restores_step H (create_accounts (ropt_createAccounts options)) payer) (exec_steps ex) (plan_steps plan)"
    using step by (simp_all add: fields(7) plan(1) list.rel_map list_all2_same comp_def)
  show ?thesis
    by (rule exI [of _ a], rule exI [of _ targets], rule exI [of _ ex], rule exI [of _ "map closure picked"])
      (use a ex(2,3) fields(1-5) present covered lists plan(1) in simp)
qed

section \<open>Properties\<close>

lemma execute_outcome:
  assumes "executeArchiveRestore H N program prepared plan payer payerKey feePayer allow t = (r, t')"
  shows "(\<exists>e. r = Inl (Plain e) \<and> t' = t) \<or>
    plan < length prepared \<and> executable_now H program (prepared ! plan) payerKey feePayer allow \<and>
    ((\<exists>final. r = Inr final \<and>
        t' = t @ map (send_event feePayer (case payer of None \<Rightarrow> [] | Some key \<Rightarrow> [key])) (exec_steps (prepared ! plan)) \<and>
        length (result_signatures final) = length (exec_steps (prepared ! plan))) \<or>
     (\<exists>i signatures archive cause. i < length (exec_steps (prepared ! plan)) \<and>
        r = Inl (ExecutionError signatures archive i cause) \<and>
        t' = t @ map (send_event feePayer (case payer of None \<Rightarrow> [] | Some key \<Rightarrow> [key]))
          (take (Suc i) (exec_steps (prepared ! plan))) \<and>
        (length signatures = i \<or> length signatures = Suc i)))"
proof (cases "plan < length prepared \<and> executable_now H program (prepared ! plan) payerKey feePayer allow")
  case False
  with execute_refused [OF this, of N payer t] assms show ?thesis by auto
next
  case True
  then have run: "bindC (pureC (parseArchive H (archive_value (exec_present (prepared ! plan))))) (\<lambda>archive.
         run_steps H N feePayer (case payer of None \<Rightarrow> [] | Some key \<Rightarrow> [key]) 0
           \<lparr>result_signatures = [], result_archive = archive\<rparr> (exec_steps (prepared ! plan))) t = (r, t')"
    using assms execute_run by simp
  show ?thesis
  proof (cases "parseArchive H (archive_value (exec_present (prepared ! plan)))")
    case (Inl e)
    with run show ?thesis by (auto simp: bindC_def)
  next
    case (Inr archive)
    with run have "run_steps H N feePayer (case payer of None \<Rightarrow> [] | Some key \<Rightarrow> [key]) 0
        \<lparr>result_signatures = [], result_archive = archive\<rparr> (exec_steps (prepared ! plan)) t = (r, t')"
      by (simp add: bindC_def)
    from run_steps_sends [OF this] True show ?thesis by (intro disjI2) simp
  qed
qed

text \<open>Carrying out prepared steps that copy selections of one archive.\<close>

lemma executed:
  assumes "host_ok H" "wf_archive H a" "selects a S (exec_present ex)"
    and "list_all2 (\<lambda>step S. selects a S (prep_archive step)) (exec_steps ex) closures"
    and "k < length prepared" "prepared ! k = ex" "executable_now H program ex payer feePayer allow"
    and "executeArchiveRestore H N program prepared k signer payer feePayer allow u = (r, u')"
  shows "(\<exists>final. r = Inr final \<and> length (result_signatures final) = length (exec_steps ex) \<and>
      selects a (S \<union> \<Union> (set closures)) (result_archive final)) \<or>
    (\<exists>i signatures archive e. i < length (exec_steps ex) \<and> r = Inl (ExecutionError signatures archive i (Plain e)) \<and>
      length signatures = i \<and> selects a (S \<union> \<Union> (set (take i closures))) archive \<and>
      (\<exists>w ix. net_send N w ix feePayer (case signer of None \<Rightarrow> [] | Some key \<Rightarrow> [key]) = Inl e))"
proof -
  let ?start = "\<lparr>result_signatures = [], result_archive = exec_present ex\<rparr>"
  have "parseArchive H (archive_value (exec_present ex)) = Inr (exec_present ex)"
    by (rule parseArchive_value [OF assms(1) selects_wf [OF assms(1-3)]])
  with assms(5-8) execute_run [of k prepared H program payer feePayer allow N signer]
  have run: "run_steps H N feePayer (case signer of None \<Rightarrow> [] | Some key \<Rightarrow> [key]) 0 ?start (exec_steps ex) u = (r, u')"
    by (simp add: bindC_def)
  have "selects a S (result_archive ?start)" using assms(3) by simp
  from run_steps_selects [OF assms(1,2,4) this run] run_steps_sends [OF run] show ?thesis
    by (elim disjE exE conjE) auto
qed

text \<open>C28: an execution sends only what was prepared: either nothing is sent, or the plan is one the
  SDK prepared, for the same connection, endpoint, program, payer and fee payer, its additional
  records are allowed or there are none, and what is sent is a prefix of its instructions, in
  order, each once, with the given fee payer and signer. A result means that all were sent, with
  one signature each; a failed run names the step it stopped at, which is the last one sent.\<close>

theorem executeArchiveRestore_sends:
  assumes "executeArchiveRestore H N program prepared plan payer payerKey feePayer allow t = (r, t')"
  shows "(\<exists>e. r = Inl (Plain e) \<and> t' = t) \<or>
    plan < length prepared \<and> executable_now H program (prepared ! plan) payerKey feePayer allow \<and>
    ((\<exists>final. r = Inr final \<and>
        t' = t @ map (send_event feePayer (case payer of None \<Rightarrow> [] | Some key \<Rightarrow> [key])) (exec_steps (prepared ! plan)) \<and>
        length (result_signatures final) = length (exec_steps (prepared ! plan))) \<or>
     (\<exists>i signatures archive cause. i < length (exec_steps (prepared ! plan)) \<and>
        r = Inl (ExecutionError signatures archive i cause) \<and>
        t' = t @ map (send_event feePayer (case payer of None \<Rightarrow> [] | Some key \<Rightarrow> [key]))
          (take (Suc i) (exec_steps (prepared ! plan))) \<and>
        (length signatures = i \<or> length signatures = Suc i)))"
  by (rule execute_outcome [OF assms])

text \<open>One step that authenticates the batch.\<close>

definition demo_execution :: execution where
  "demo_execution = \<lparr>exec_connection = 0, exec_endpoint = ''http'', exec_programId = demo_program,
     exec_payer = demo_key (replicate 32 4), exec_feePayer = demo_key (replicate 32 4),
     exec_present = demo_batch_only, exec_steps = [\<lparr>prep_instruction = \<lparr>ix_call = IxRestore [], ix_accounts = [],
       ix_remaining = []\<rparr>, prep_archive = demo_batch_only, prep_additional = []\<rparr>]\<rparr>"

lemma demo_executed:
  "executeArchiveRestore demo_host demo_net demo_prog [demo_execution] 0 None (replicate 32 4) (replicate 32 4) False [] =
    (Inr \<lparr>result_signatures = [''signature''], result_archive = demo_batch_only\<rparr>,
     [ESend \<lparr>ix_call = IxRestore [], ix_accounts = [], ix_remaining = []\<rparr> (replicate 32 4) []])"
proof -
  have "selects demo_archive {demo_key demo_batch_id} demo_batch_only"
    by (auto simp: selects_def demo_batch_only_def demo_nodes)
  from selects_wf [OF demo_host_ok parseArchive_wf [OF demo_host_ok demo_parsed(1)] this]
  have parsed: "parseArchive demo_host (archive_value demo_batch_only) = Inr demo_batch_only"
    by (rule parseArchive_value [OF demo_host_ok])
  have "part_of demo_batch_only demo_batch_only" by (simp add: demo_batch_only_def)
  from merge_part [OF demo_host_ok parsed parsed this]
  have merged: "mergeArchives demo_host (archive_value demo_batch_only) [archive_value demo_batch_only] = Inr demo_batch_only" .
  have "net_send demo_net t ix k ks = Inr ''signature''" for t ix k ks by (simp add: demo_net_def)
  moreover have "executable_now demo_host demo_prog demo_execution (replicate 32 4) (replicate 32 4) False"
    by (simp add: executable_now_def demo_execution_def demo_prog_def demo_program_def)
  ultimately show ?thesis
    by (simp add: execute_run bindC_def) (simp add: demo_execution_def parsed merged Let_def)
qed

lemma executeArchiveRestore_sends_witness:
  "\<exists>final t. executeArchiveRestore demo_host demo_net demo_prog [demo_execution] 0 None (replicate 32 4) (replicate 32 4) False []
      = (Inr final, t) \<and> length (result_signatures final) = 1 \<and>
    t = [ESend \<lparr>ix_call = IxRestore [], ix_accounts = [], ix_remaining = []\<rparr> (replicate 32 4) []]"
  using executeArchiveRestore_sends [OF demo_executed] demo_executed by simp



end
