(* ===== verification/Client.thy ===== *)
theory Client
  imports Execution
begin

text \<open>
  \<open>app/sdk/client.ts\<close>: the methods of \<open>HashTimestampClient\<close> and the \<open>RestoreApi\<close>
  facade. \<open>hashPda\<close>, \<open>votePda\<close> and \<open>fetchHashAccount\<close> are in \<open>Aggregate\<close>. A method
  that takes an optional key pair is given its public key, if there is one.
\<close>

section \<open>Results\<close>

text \<open>The results and options of \<open>types.ts\<close>. An interface that extends \<open>CreationResult\<close> extends
  its record.\<close>

record batch_result = creation_result +
  res_batchId :: bytes

record pack_result = creation_result +
  res_packId :: bytes

record account_hash_result = creation_result +
  res_hashId :: bytes
  res_metadataHash :: bytes

record restore_call_options =
  call_createAccounts :: "bool option"

record restore_call_result =
  call_signature :: string
  call_restoredIds :: "bytes list"

section \<open>Creation and votes\<close>

definition register ::
  "host \<Rightarrow> net \<Rightarrow> program \<Rightarrow> jsval \<Rightarrow> bytes option \<Rightarrow> creation_result client" where
  "register H N program hash payer =
     bindC (pureC (to32Bytes H hash)) (\<lambda>hashBytes.
     bindC (pureC (deriveGenesisHashId H (JBytes hashBytes))) (\<lambda>hashIdBytes.
     let walletPk = instructionPayer program payer in
     bindC (pureC (hashPda H program (JBytes hashIdBytes))) (\<lambda>hashKey.
     bindC (pureC (votePda H program (JBytes hashIdBytes) walletPk)) (\<lambda>voteKey.
     let builder = \<lparr>ix_call = IxRegister hashBytes,
           ix_accounts = [(''hashAccount'', hashKey), (''voteInfo'', voteKey), (''user'', walletPk),
             (''systemProgram'', SYSTEM_PROGRAM)], ix_remaining = []\<rparr> in
     bindC (pureC (archiveHex H (JBytes hashBytes))) (\<lambda>hex.
     submitCreation H N program builder
       \<lparr>pend_hash = hex, pend_source = AHash, pend_members = None, pend_snapshot = None\<rparr> payer)))))"

definition vote_instruction :: "host \<Rightarrow> program \<Rightarrow> ix_call \<Rightarrow> jsval \<Rightarrow> bytes \<Rightarrow> instruction result" where
  "vote_instruction H program call hashId walletPk =
     bindE (to32Bytes H hashId) (\<lambda>hashIdBytes.
     bindE (hashPda H program (JBytes hashIdBytes)) (\<lambda>hashKey.
     bindE (votePda H program (JBytes hashIdBytes) walletPk) (\<lambda>voteKey.
     Inr \<lparr>ix_call = call, ix_accounts = [(''hashAccount'', hashKey), (''voteInfo'', voteKey), (''user'', walletPk),
       (''systemProgram'', SYSTEM_PROGRAM)], ix_remaining = []\<rparr>)))"

definition vote :: "host \<Rightarrow> net \<Rightarrow> program \<Rightarrow> jsval \<Rightarrow> bytes option \<Rightarrow> string client" where
  "vote H N program hashId payer =
     bindC (pureC (vote_instruction H program IxVote hashId (instructionPayer program payer))) (\<lambda>builder.
     submitInstruction N builder payer)"

definition unvote :: "host \<Rightarrow> net \<Rightarrow> program \<Rightarrow> jsval \<Rightarrow> bytes option \<Rightarrow> string client" where
  "unvote H N program hashId payer =
     bindC (pureC (vote_instruction H program IxUnvote hashId (instructionPayer program payer))) (\<lambda>builder.
     submitInstruction N builder payer)"

definition verify :: "host \<Rightarrow> net \<Rightarrow> program \<Rightarrow> jsval \<Rightarrow> string client" where
  "verify H N program hashId =
     bindC (pureC (to32Bytes H hashId)) (\<lambda>hashIdBytes.
     bindC (pureC (hashPda H program (JBytes hashIdBytes))) (\<lambda>hashKey.
     submitInstruction N \<lparr>ix_call = IxVerify, ix_accounts = [(''hashAccount'', hashKey)], ix_remaining = []\<rparr> None))"

definition branch ::
  "host \<Rightarrow> net \<Rightarrow> program \<Rightarrow> jsval \<Rightarrow> jsval \<Rightarrow> bool \<Rightarrow> bytes option \<Rightarrow> creation_result client" where
  "branch H N program oldHashId payload takeVote payer =
     (let walletPk = instructionPayer program payer in
     bindC (pureC (to32Bytes H oldHashId)) (\<lambda>oldHashIdBytes.
     bindC (pureC (to32Bytes H payload)) (\<lambda>payloadBytes.
     bindC (pureC (hashPda H program (JBytes oldHashIdBytes))) (\<lambda>oldHashPda.
     bindC (fetchHashAccount H N program (JBytes oldHashIdBytes)) (\<lambda>oldAccount.
     case oldAccount of
       None \<Rightarrow> throwC (Plain (Error ''old hash account not found''))
     | Some account \<Rightarrow>
         bindC (pureC (branchParentMetadata H account)) (\<lambda>parent.
         bindC (pureC (deriveBranchHash H (JBytes oldHashIdBytes) (JBigInt (parent_createdAt parent))
           (JBigInt (parent_generation parent)) (jint (int (kind_number (parent_sourceKind parent))))
           (JBytes payloadBytes))) (\<lambda>newHash.
         bindC (pureC (canonicalHashId H (JBytes newHash) (jint (int (kind_number KBranch))))) (\<lambda>newId.
         bindC (pureC (hashPda H program (JBytes newId))) (\<lambda>newHashPda.
         bindC (pureC (votePda H program (JBytes newId) walletPk)) (\<lambda>newVotePda.
         bindC (pureC (votePda H program (JBytes oldHashIdBytes) walletPk)) (\<lambda>oldVotePda.
         let builder = \<lparr>ix_call = IxBranch payloadBytes takeVote,
               ix_accounts = [(''hashAccount'', oldHashPda), (''newHashAccount'', newHashPda),
                 (''voteInfo'', oldVotePda), (''newVoteInfo'', newVotePda), (''user'', walletPk),
                 (''systemProgram'', SYSTEM_PROGRAM)], ix_remaining = []\<rparr> in
         bindC (pureC (archiveHex H (JBytes newHash))) (\<lambda>hex.
         bindC (pureC (archiveSource H (SBranch (JBytes oldHashIdBytes) (JBytes payloadBytes)
           (parent_generation parent + 1)))) (\<lambda>source.
         submitCreation H N program builder
           \<lparr>pend_hash = hex, pend_source = source, pend_members = None, pend_snapshot = None\<rparr> payer)))))))))))))"

section \<open>Aggregates and account snapshots\<close>

definition member_metas :: "bytes list \<Rightarrow> account_meta list" where
  "member_metas memberPdas =
     map (\<lambda>pubkey. \<lparr>meta_pubkey = pubkey, meta_isSigner = False, meta_isWritable = False\<rparr>) memberPdas"

definition batch ::
  "host \<Rightarrow> net \<Rightarrow> program \<Rightarrow> jsval list \<Rightarrow> bytes option \<Rightarrow> batch_result client" where
  "batch H N program memberIds payer =
     (if length memberIds = 0 then throwC (Plain (Error ''batch requires at least one member''))
      else
        bindC (pureC (normalizeUniqueMemberIds H memberIds Batch)) (\<lambda>memberIdBytes.
        let walletPk = instructionPayer program payer in
        bindC (loadAggregateMembers H N program memberIdBytes Batch) (\<lambda>(memberPdas, fingerprints).
        bindC (pureC (deriveBatchHash H fingerprints)) (\<lambda>batchHash.
        bindC (pureC (deriveBatchHashId H (JBytes batchHash))) (\<lambda>batchId.
        bindC (pureC (hashPda H program (JBytes batchId))) (\<lambda>batchPda.
        bindC (pureC (votePda H program (JBytes batchId) walletPk)) (\<lambda>voteKey.
        let builder = \<lparr>ix_call = IxBatch,
              ix_accounts = [(''hashAccount'', batchPda), (''voteInfo'', voteKey), (''payer'', walletPk),
                (''systemProgram'', SYSTEM_PROGRAM)], ix_remaining = member_metas memberPdas\<rparr> in
        bindC (pureC (archiveHex H (JBytes batchHash))) (\<lambda>hex.
        bindC (pureC (mapE (\<lambda>i. archiveHex H (JBytes i)) memberIdBytes)) (\<lambda>members.
        bindC (submitCreation H N program builder
          \<lparr>pend_hash = hex, pend_source = ABatch members, pend_members = None, pend_snapshot = None\<rparr> payer) (\<lambda>result.
        returnC \<lparr>res_signature = res_signature result, res_archive = res_archive result, res_batchId = batchId\<rparr>))))))))))"

definition pack ::
  "host \<Rightarrow> net \<Rightarrow> program \<Rightarrow> jsval list \<Rightarrow> bytes option \<Rightarrow> pack_result client" where
  "pack H N program memberIds payer =
     (if length memberIds = 0 then throwC (Plain (Error ''pack requires at least one member''))
      else
        bindC (pureC (normalizeUniqueMemberIds H memberIds Pack)) (\<lambda>memberIdBytes.
        let walletPk = instructionPayer program payer in
        bindC (loadAggregateMembers H N program memberIdBytes Pack) (\<lambda>(memberPdas, fingerprints).
        bindC (pureC (derivePackHash H fingerprints)) (\<lambda>packHash.
        bindC (pureC (derivePackHashId H (JBytes packHash))) (\<lambda>packId.
        bindC (pureC (hashPda H program (JBytes packId))) (\<lambda>packPda.
        bindC (pureC (votePda H program (JBytes packId) walletPk)) (\<lambda>voteKey.
        let builder = \<lparr>ix_call = IxPack,
              ix_accounts = [(''hashAccount'', packPda), (''voteInfo'', voteKey), (''payer'', walletPk),
                (''systemProgram'', SYSTEM_PROGRAM)], ix_remaining = member_metas memberPdas\<rparr> in
        bindC (pureC (archiveHex H (JBytes packHash))) (\<lambda>hex.
        bindC (submitCreation H N program builder
          \<lparr>pend_hash = hex, pend_source = APack, pend_members = Some (map (toBase58 H) memberPdas),
            pend_snapshot = None\<rparr> payer) (\<lambda>result.
        returnC \<lparr>res_signature = res_signature result, res_archive = res_archive result, res_packId = packId\<rparr>)))))))))"

text \<open>\<open>hashAccount\<close> reads the target with the default commitment, other reads are confirmed; the
  event does not tell them apart.\<close>

definition hashAccount ::
  "host \<Rightarrow> net \<Rightarrow> program \<Rightarrow> bytes \<Rightarrow> bytes option \<Rightarrow> account_hash_result client" where
  "hashAccount H N program target payer =
     (let walletPk = instructionPayer program payer in
     bindC (requestC (EAccountInfo target None) (\<lambda>t. net_accountInfo N t target None)) (\<lambda>fetched.
     case fetched of
       None \<Rightarrow> throwC (Plain (Error ''target account not found''))
     | Some info \<Rightarrow>
         if info_rentEpoch info = JUndefined then throwC (Plain (Error ''RPC snapshot is missing rentEpoch''))
         else
           bindC (pureC (deriveAccountMetadataHash H target info)) (\<lambda>metadataHash.
           bindC (pureC (canonicalHashId H (JBytes metadataHash) (jint (int (kind_number KAccount))))) (\<lambda>hashId.
           bindC (pureC (hashPda H program (JBytes hashId))) (\<lambda>hashKey.
           bindC (pureC (votePda H program (JBytes hashId) walletPk)) (\<lambda>voteKey.
           bindC (pureC (numberToU64 (info_lamports info))) (\<lambda>lamports.
           bindC (pureC (numberToU64 (info_rentEpoch info))) (\<lambda>rentEpoch.
           let snapshot = \<lparr>as_owner = toBase58 H (info_owner info), as_lamports = int_to_decimal lamports,
                 as_executable = info_executable info, as_rentEpoch = int_to_decimal rentEpoch,
                 as_data = map jbyte (info_data info)\<rparr>;
               builder = \<lparr>ix_call = IxAccount,
                 ix_accounts = [(''hashAccount'', hashKey), (''voteInfo'', voteKey), (''target'', target),
                   (''payer'', walletPk), (''systemProgram'', SYSTEM_PROGRAM)], ix_remaining = []\<rparr> in
           bindC (pureC (archiveHex H (JBytes metadataHash))) (\<lambda>hex.
           bindC (submitCreation H N program builder
             \<lparr>pend_hash = hex, pend_source = AAccount (toBase58 H target), pend_members = None,
               pend_snapshot = Some snapshot\<rparr> payer) (\<lambda>result.
           returnC \<lparr>res_signature = res_signature result, res_archive = res_archive result, res_hashId = hashId,
             res_metadataHash = metadataHash\<rparr>))))))))))"

definition fetchVoteInfo :: "host \<Rightarrow> net \<Rightarrow> program \<Rightarrow> jsval \<Rightarrow> bytes \<Rightarrow> jsval option client" where
  "fetchVoteInfo H N program hashId voter =
     bindC (pureC (to32Bytes H hashId)) (\<lambda>hashIdBytes.
     bindC (pureC (votePda H program (JBytes hashIdBytes) voter)) (\<lambda>voteKey.
     fetchNullableAccount N VoteInfo voteKey))"

section \<open>Restoration\<close>

definition planRestore ::
  "host \<Rightarrow> net \<Rightarrow> program \<Rightarrow> plans \<Rightarrow> jsval \<Rightarrow> restore_options \<Rightarrow> bytes option \<Rightarrow> event list \<Rightarrow> planned" where
  "planRestore H N program prepared archive options payer =
     planArchiveRestore H N program prepared archive options (instructionPayer program payer)
       (instructionPayer program None)"

definition executeRestorePlan ::
  "host \<Rightarrow> net \<Rightarrow> program \<Rightarrow> plans \<Rightarrow> nat \<Rightarrow> bool option \<Rightarrow> bytes option \<Rightarrow> restore_result client" where
  "executeRestorePlan H N program prepared plan allowAdditionalRecords payer =
     executeArchiveRestore H N program prepared plan payer (instructionPayer program payer)
       (instructionPayer program None) (allowAdditionalRecords = Some True)"

definition restoreArchive ::
  "host \<Rightarrow> net \<Rightarrow> program \<Rightarrow> plans \<Rightarrow> jsval \<Rightarrow> restore_options \<Rightarrow> bool option \<Rightarrow> bytes option \<Rightarrow> event list \<Rightarrow>
   ((client_error + restore_result) \<times> plans \<times> event list) option" where
  "restoreArchive H N program prepared archive options allowAdditionalRecords payer t =
     (case planRestore H N program prepared archive options payer t of
        None \<Rightarrow> None
      | Some (Inl e, prepared', t') \<Rightarrow> Some (Inl e, prepared', t')
      | Some (Inr (k, plan), prepared', t') \<Rightarrow>
          (case executeRestorePlan H N program prepared' k allowAdditionalRecords payer t' of
             (r, t'') \<Rightarrow> Some (r, prepared', t'')))"

text \<open>The second argument of \<open>restore\<close>: options, a key pair, or nothing.\<close>

datatype restore_argument = NoArgument | OptionsArgument restore_call_options | PayerArgument bytes

definition restore ::
  "host \<Rightarrow> net \<Rightarrow> program \<Rightarrow> restore_proof_input list \<Rightarrow> restore_argument \<Rightarrow> bytes option \<Rightarrow>
   restore_call_result client" where
  "restore H N program proof optionsOrPayer payer =
     (let createAccounts = create_accounts (case optionsOrPayer of OptionsArgument options \<Rightarrow> call_createAccounts options | _ \<Rightarrow> None);
          resolvedPayer = (case optionsOrPayer of PayerArgument key \<Rightarrow> Some key | _ \<Rightarrow> payer);
          walletPk = instructionPayer program resolvedPayer in
     bindC (pureC (prepareRestore H proof createAccounts)) (\<lambda>prepared.
     bindC (pureC (hashPda H program (JBytes (anchorId prepared)))) (\<lambda>anchorHashPda.
     bindC (pureC (mapE (\<lambda>i.
         bindE (hashPda H program (JBytes i)) (\<lambda>hashKey.
         bindE (votePda H program (JBytes i) walletPk) (\<lambda>voteKey.
         Inr [\<lparr>meta_pubkey = hashKey, meta_isSigner = False, meta_isWritable = True\<rparr>,
           \<lparr>meta_pubkey = voteKey, meta_isSigner = False, meta_isWritable = True\<rparr>]))) (restoredIds prepared))) (\<lambda>metas.
     let builder = \<lparr>ix_call = IxRestore (proofEncoded prepared),
           ix_accounts = [(''payer'', walletPk), (''anchorHashAccount'', anchorHashPda),
             (''systemProgram'', SYSTEM_PROGRAM)], ix_remaining = concat metas\<rparr> in
     bindC (submitInstruction N builder resolvedPayer) (\<lambda>signature.
     returnC \<lparr>call_signature = signature, call_restoredIds = restoredIds prepared\<rparr>)))))"

definition RestoreApi_restore ::
  "host \<Rightarrow> net \<Rightarrow> program \<Rightarrow> restore_proof_input list \<Rightarrow> restore_argument \<Rightarrow> bytes option \<Rightarrow>
   restore_call_result client" where
  "RestoreApi_restore H N program proof optionsOrPayer payer = restore H N program proof optionsOrPayer payer"

end
