(* ===== verification/ClientProof.thy ===== *)
theory ClientProof
  imports Client
begin

text \<open>
  What the client's methods promise: a creation captures the account its one transaction
  creates, and every transaction of a session, whichever of the two ways it goes out, has its
  origin in a method or a prepared plan and is charged to the account that signs for it.
\<close>

section \<open>Creations\<close>

text \<open>The five methods that create an account, as one call.\<close>

datatype creation_call =
    Register jsval
  | Branch jsval jsval bool
  | BatchOf "jsval list"
  | PackOf "jsval list"
  | HashAccountOf bytes

definition run_creation ::
  "host \<Rightarrow> net \<Rightarrow> program \<Rightarrow> creation_call \<Rightarrow> bytes option \<Rightarrow> creation_result client" where
  "run_creation H N program call payer = (case call of
      Register hash \<Rightarrow> register H N program hash payer
    | Branch oldHashId payload takeVote \<Rightarrow> branch H N program oldHashId payload takeVote payer
    | BatchOf memberIds \<Rightarrow> bindC (batch H N program memberIds payer) (\<lambda>result. returnC (creation_result.truncate result))
    | PackOf memberIds \<Rightarrow> bindC (pack H N program memberIds payer) (\<lambda>result. returnC (creation_result.truncate result))
    | HashAccountOf target \<Rightarrow> bindC (hashAccount H N program target payer) (\<lambda>result. returnC (creation_result.truncate result)))"

definition created_name :: "creation_call \<Rightarrow> string" where
  "created_name call = (case call of Branch _ _ _ \<Rightarrow> ''newHashAccount'' | _ \<Rightarrow> ''hashAccount'')"

text \<open>Requests that only read.\<close>

fun reading :: "event \<Rightarrow> bool" where
  "reading (EFetchNullable _ _) = True"
| "reading (EFetch _ _) = True"
| "reading (EAccountInfo _ _) = True"
| "reading _ = False"

text \<open>Digests and addresses of 32-byte values never fail on their arguments.\<close>

lemma deriveGenesisHashId_JBytes [simp]:
  "length h = 32 \<Longrightarrow> deriveGenesisHashId H (JBytes h) = Inr (sha256 H (canonical_frame h KHash))"
  by (simp add: deriveGenesisHashId_def canonicalHashId_def)

lemma canonicalHashId_JBytes [simp]:
  "length h = 32 \<Longrightarrow> canonicalHashId H (JBytes h) (jint (int (kind_number kind))) = Inr (sha256 H (canonical_frame h kind))"
  by (simp add: canonicalHashId_def)

lemma canonicalHashId_literal [simp]:
  assumes "length h = 32"
  shows "canonicalHashId H (JBytes h) (jint 3) = Inr (sha256 H (canonical_frame h KBatch))"
    and "canonicalHashId H (JBytes h) (jint 4) = Inr (sha256 H (canonical_frame h KPack))"
  using canonicalHashId_JBytes [OF assms, of H KBatch] canonicalHashId_JBytes [OF assms, of H KPack] by simp_all

lemma truncate_result [simp]:
  "creation_result.truncate \<lparr>res_signature = res_signature r, res_archive = res_archive r, \<dots> = extension\<rparr> = r"
  by (simp add: creation_result.truncate_def)

text \<open>A creation whose instruction creates the address of its draft captures that address.\<close>

lemma creation_at:
  assumes "host_ok H" "length (prog_id program) = 32" "length h = 32"
    and "submitCreation H N program ix draft payer t = (Inr result, t')"
    and "pend_hash draft = hex_of_bytes h" "source_texts H (pend_source draft)"
    and "hashPda H program (JBytes (sha256 H (canonical_frame h (archive_kind (pend_source draft))))) = Inr address"
  shows "\<exists>m slot. t' = t @ [ESubmit ix payer, EConfirm (res_signature result), EAccountInfo address (Some slot)] \<and>
    arch_nodes (res_archive result) = [(toBase58 H address, m)] \<and> node_hash m = hex_of_bytes h \<and> node_source m = pend_source draft \<and>
    deriveHashPda H (prog_id program) (JBytes (node_id H m)) = Inr address"
proof -
  obtain m address' slot where m: "arch_nodes (res_archive result) = [(toBase58 H address', m)]"
    "deriveHashPda H (prog_id program) (JBytes (node_id H m)) = Inr address'"
    "validate_creation H program draft = Inr (pending_of m)"
    "t' = t @ [ESubmit ix payer, EConfirm (res_signature result), EAccountInfo address' (Some slot)]"
    using creation_captured [OF assms(1,2,4)] by blast
  have "hash_text (pend_hash draft)" using assms(3,5) by (simp add: hash_textI del: hex_of_bytes.simps)
  from validate_creation_same [OF assms(1,2) m(3) this assms(6)]
  have same: "node_hash m = hex_of_bytes h" "node_source m = pend_source draft"
    by (simp_all add: pending_of_def assms(5))
  then have "node_id H m = sha256 H (canonical_frame h (archive_kind (pend_source draft)))"
    by (simp add: node_id_def)
  with m(2) assms(7) have "address' = address" by (simp add: hashPda_def)
  with m(1,2,4) same show ?thesis by blast
qed

lemma digest_lengths:
  assumes "host_ok H"
  shows "deriveBranchHash H i c g k p = Inr h \<Longrightarrow> length h = 32"
    and "deriveBatchHash H ms = Inr h \<Longrightarrow> length h = 32"
    and "derivePackHash H ms = Inr h \<Longrightarrow> length h = 32"
    and "deriveAccountMetadataHash H account info = Inr h \<Longrightarrow> length h = 32"
  by (auto simp: deriveBranchHash_def deriveBatchHash_def derivePackHash_def aggregateHashDigest_def
      deriveAccountMetadataHash_def sha256_length assms split: if_splits)

text \<open>What is said of each method.\<close>

definition captures ::
  "host \<Rightarrow> program \<Rightarrow> creation_call \<Rightarrow> bytes option \<Rightarrow> event list \<Rightarrow> creation_result \<Rightarrow> event list \<Rightarrow> bool" where
  "captures H program call payer t result t' \<longleftrightarrow> (\<exists>es ix address m slot. list_all reading es \<and>
     t' = t @ es @ [ESubmit ix payer, EConfirm (res_signature result), EAccountInfo address (Some slot)] \<and>
     get (ix_accounts ix) (created_name call) = Some address \<and> arch_nodes (res_archive result) = [(toBase58 H address, m)] \<and>
     deriveHashPda H (prog_id program) (JBytes (node_id H m)) = Inr address \<and>
     (\<forall>meta \<in> set (ix_remaining ix). \<not> meta_isWritable meta))"

lemma capturesI:
  assumes "host_ok H" "length (prog_id program) = 32" "length h = 32"
    and "submitCreation H N program ix draft payer u = (Inr result, t')"
    and "pend_hash draft = hex_of_bytes h" "source_texts H (pend_source draft)"
    and "hashPda H program (JBytes (sha256 H (canonical_frame h (archive_kind (pend_source draft))))) = Inr address"
    and "u = t @ es" "list_all reading es" "get (ix_accounts ix) (created_name call) = Some address"
    and "\<forall>meta \<in> set (ix_remaining ix). \<not> meta_isWritable meta"
  shows "captures H program call payer t result t'"
proof -
  obtain m slot where "t' = u @ [ESubmit ix payer, EConfirm (res_signature result), EAccountInfo address (Some slot)]"
    "arch_nodes (res_archive result) = [(toBase58 H address, m)]" "deriveHashPda H (prog_id program) (JBytes (node_id H m)) = Inr address"
    using creation_at [OF assms(1-7)] by blast
  with assms(8-11) show ?thesis unfolding captures_def
    by (intro exI [of _ es] exI [of _ ix] exI [of _ address] exI [of _ m] exI [of _ slot]) simp
qed

text \<open>The successful runs of \<open>register\<close> and \<open>branch\<close>, up to their submission.\<close>

lemma register_split:
  assumes "register H N program hash payer t = (Inr result, t')"
  obtains h address voteKey where "to32Bytes H hash = Inr h" "length h = 32"
    "hashPda H program (JBytes (sha256 H (canonical_frame h KHash))) = Inr address"
    "submitCreation H N program \<lparr>ix_call = IxRegister h, ix_accounts = [(''hashAccount'', address), (''voteInfo'', voteKey),
        (''user'', instructionPayer program payer), (''systemProgram'', SYSTEM_PROGRAM)], ix_remaining = []\<rparr>
      \<lparr>pend_hash = hex_of_bytes h, pend_source = AHash, pend_members = None, pend_snapshot = None\<rparr> payer t = (Inr result, t')"
  using assms to32Bytes_length
  by (auto simp: register_def client_ok Let_def archiveHex_def simp del: hex_of_bytes.simps)

lemma register_captures:
  assumes "host_ok H" "length (prog_id program) = 32" "register H N program hash payer t = (Inr result, t')"
  shows "captures H program (Register hash) payer t result t'"
proof -
  obtain h address voteKey where h: "to32Bytes H hash = Inr h" "length h = 32"
    "hashPda H program (JBytes (sha256 H (canonical_frame h KHash))) = Inr address"
    and run: "submitCreation H N program \<lparr>ix_call = IxRegister h, ix_accounts = [(''hashAccount'', address), (''voteInfo'', voteKey),
        (''user'', instructionPayer program payer), (''systemProgram'', SYSTEM_PROGRAM)], ix_remaining = []\<rparr>
      \<lparr>pend_hash = hex_of_bytes h, pend_source = AHash, pend_members = None, pend_snapshot = None\<rparr> payer t = (Inr result, t')"
    by (rule register_split [OF assms(3)])
  show ?thesis
    by (rule capturesI [OF assms(1,2) h(2) run, where address = address and es = "[]"])
      (use h(3) in \<open>simp_all add: source_texts_def created_name_def\<close>)
qed

lemma emits_fetch: "emits reading (fetchHashAccount H N program i)"
  unfolding fetchHashAccount_def fetchNullableAccount_def
  by (auto intro!: emits_intros split: option.split)

lemma emits_load: "emits reading (loadAggregateMembers H N program ids aggregate)"
  unfolding loadAggregateMembers_def fetch_member_def
  by (auto intro!: emits_intros emits_fetch split: option.split)

lemma branch_split:
  assumes "host_ok H" "branch H N program oldHashId payload takeVote payer t = (Inr result, t')"
  obtains old q oldPda account u and parent :: parent_metadata and h newPda newVote oldVote where
    "to32Bytes H oldHashId = Inr old" "to32Bytes H payload = Inr q"
    "fetchHashAccount H N program (JBytes old) t = (Inr (Some account), u)" "branchParentMetadata H account = Inr parent"
    "deriveBranchHash H (JBytes old) (JBigInt (parent_createdAt parent)) (JBigInt (parent_generation parent))
        (jint (int (kind_number (parent_sourceKind parent)))) (JBytes q) = Inr h" "length h = 32"
    "hashPda H program (JBytes (sha256 H (canonical_frame h KBranch))) = Inr newPda"
    "submitCreation H N program \<lparr>ix_call = IxBranch q takeVote, ix_accounts = [(''hashAccount'', oldPda),
        (''newHashAccount'', newPda), (''voteInfo'', oldVote), (''newVoteInfo'', newVote),
        (''user'', instructionPayer program payer), (''systemProgram'', SYSTEM_PROGRAM)], ix_remaining = []\<rparr>
      \<lparr>pend_hash = hex_of_bytes h, pend_source = ABranch (hex_of_bytes old) (hex_of_bytes q)
          (int_to_decimal (parent_generation parent + 1)), pend_members = None, pend_snapshot = None\<rparr> payer u = (Inr result, t')"
proof -
  obtain old q oldPda account u and parent :: parent_metadata and h newId newPda newVote oldVote hex source
    where args: "to32Bytes H oldHashId = Inr old" "to32Bytes H payload = Inr q"
    and fetch: "fetchHashAccount H N program (JBytes old) t = (Inr (Some account), u)" "branchParentMetadata H account = Inr parent"
    and h: "deriveBranchHash H (JBytes old) (JBigInt (parent_createdAt parent)) (JBigInt (parent_generation parent))
        (JNumber (Finite (of_nat (kind_number (parent_sourceKind parent))))) (JBytes q) = Inr h"
    and newId: "canonicalHashId H (JBytes h) (JNumber (Finite (of_nat (kind_number KBranch)))) = Inr newId"
    and newPda: "hashPda H program (JBytes newId) = Inr newPda"
    and hex: "archiveHex H (JBytes h) = Inr hex"
    and source: "archiveSource H (SBranch (JBytes old) (JBytes q) (parent_generation parent + 1)) = Inr source"
    and run: "submitCreation H N program \<lparr>ix_call = IxBranch q takeVote, ix_accounts = [(''hashAccount'', oldPda),
        (''newHashAccount'', newPda), (''voteInfo'', oldVote), (''newVoteInfo'', newVote),
        (''user'', instructionPayer program payer), (''systemProgram'', SYSTEM_PROGRAM)], ix_remaining = []\<rparr>
      \<lparr>pend_hash = hex, pend_source = source, pend_members = None, pend_snapshot = None\<rparr> payer u = (Inr result, t')"
    using assms(2) by (auto simp: branch_def client_ok Let_def
        simp del: archiveSource.simps archiveHex_ok kind_number.simps split: option.splits)
  have len: "length h = 32" by (rule digest_lengths(1) [OF assms(1) h])
  have "hex = hex_of_bytes h" "newId = sha256 H (canonical_frame h KBranch)"
    using hex newId len canonicalHashId_JBytes [OF len, of H KBranch] by (simp_all add: archiveHex_def)
  moreover have "source = ABranch (hex_of_bytes old) (hex_of_bytes q) (int_to_decimal (parent_generation parent + 1))"
    using source to32Bytes_length [OF args(1)] to32Bytes_length [OF args(2)] by (simp add: archiveHex_def)
  ultimately show thesis
    by (intro that [OF args fetch _ len]) (use h newPda run in simp_all)
qed

lemma branch_captures:
  assumes "host_ok H" "length (prog_id program) = 32"
    and "branch H N program oldHashId payload takeVote payer t = (Inr result, t')"
  shows "captures H program (Branch oldHashId payload takeVote) payer t result t'"
proof (rule branch_split [OF assms(1,3)])
  fix old q oldPda account u h newPda newVote oldVote and parent :: parent_metadata
  assume args: "to32Bytes H oldHashId = Inr old" "to32Bytes H payload = Inr q"
    and fetch: "fetchHashAccount H N program (JBytes old) t = (Inr (Some account), u)"
    and len: "length h = 32" and newPda: "hashPda H program (JBytes (sha256 H (canonical_frame h KBranch))) = Inr newPda"
    and run: "submitCreation H N program \<lparr>ix_call = IxBranch q takeVote, ix_accounts = [(''hashAccount'', oldPda),
        (''newHashAccount'', newPda), (''voteInfo'', oldVote), (''newVoteInfo'', newVote),
        (''user'', instructionPayer program payer), (''systemProgram'', SYSTEM_PROGRAM)], ix_remaining = []\<rparr>
      \<lparr>pend_hash = hex_of_bytes h, pend_source = ABranch (hex_of_bytes old) (hex_of_bytes q)
          (int_to_decimal (parent_generation parent + 1)), pend_members = None, pend_snapshot = None\<rparr> payer u = (Inr result, t')"
  obtain es where es: "u = t @ es" "list_all reading es" using emitsD [OF emits_fetch fetch] by blast
  have "hash_text (hex_of_bytes old)" "hash_text (hex_of_bytes q)"
    using args to32Bytes_length by (simp_all add: hash_textI del: hex_of_bytes.simps)
  then show ?thesis
    by (intro capturesI [OF assms(1,2) len run, where address = newPda and es = es])
      (use newPda es in \<open>simp_all add: created_name_def source_texts_def\<close>)
qed

lemma batch_captures:
  assumes "host_ok H" "length (prog_id program) = 32"
    and "batch H N program memberIds payer t = (Inr r, t')"
  shows "captures H program (BatchOf memberIds) payer t (creation_result.truncate r) t'"
proof -
  obtain i ids pdas fps u h address voteKey hex members
    where load: "loadAggregateMembers H N program ids Batch t = (Inr (pdas, fps), u)"
    and h: "deriveBatchHash H fps = Inr h" and i: "deriveBatchHashId H (JBytes h) = Inr i"
    and address: "hashPda H program (JBytes i) = Inr address" and hex: "archiveHex H (JBytes h) = Inr hex"
    and members: "mapE (\<lambda>i. archiveHex H (JBytes i)) ids = Inr members"
    and run: "submitCreation H N program \<lparr>ix_call = IxBatch, ix_accounts = [(''hashAccount'', address), (''voteInfo'', voteKey),
        (''payer'', instructionPayer program payer), (''systemProgram'', SYSTEM_PROGRAM)], ix_remaining = member_metas pdas\<rparr>
      \<lparr>pend_hash = hex, pend_source = ABatch members, pend_members = None, pend_snapshot = None\<rparr> payer u = (Inr (creation_result.truncate r), t')"
    using assms(3) by (auto simp: batch_def client_ok Let_def simp del: archiveHex_ok split: if_splits prod.splits)
  have len: "length h = 32" by (rule digest_lengths(2) [OF assms(1) h])
  obtain es where es: "u = t @ es" "list_all reading es" using emitsD [OF emits_load load] by blast
  have ids: "hex = hex_of_bytes h" "i = sha256 H (canonical_frame h KBatch)"
    using hex i len by (simp_all add: archiveHex_def deriveBatchHashId_def canonicalHashId_def)
  have "list_all hash_text members"
    unfolding list_all_iff using mapE_set [OF members] archiveHex_text by blast
  then show ?thesis
    by (intro capturesI [OF assms(1,2) len run, where address = address and es = es])
      (use address es ids in \<open>simp_all add: created_name_def source_texts_def member_metas_def\<close>)
qed

lemma pack_captures:
  assumes "host_ok H" "length (prog_id program) = 32"
    and "pack H N program memberIds payer t = (Inr r, t')"
  shows "captures H program (PackOf memberIds) payer t (creation_result.truncate r) t'"
proof -
  obtain i ids pdas fps u h address voteKey hex
    where load: "loadAggregateMembers H N program ids Pack t = (Inr (pdas, fps), u)"
    and h: "derivePackHash H fps = Inr h" and i: "derivePackHashId H (JBytes h) = Inr i"
    and address: "hashPda H program (JBytes i) = Inr address" and hex: "archiveHex H (JBytes h) = Inr hex"
    and run: "submitCreation H N program \<lparr>ix_call = IxPack, ix_accounts = [(''hashAccount'', address), (''voteInfo'', voteKey),
        (''payer'', instructionPayer program payer), (''systemProgram'', SYSTEM_PROGRAM)], ix_remaining = member_metas pdas\<rparr>
      \<lparr>pend_hash = hex, pend_source = APack, pend_members = Some (map (toBase58 H) pdas), pend_snapshot = None\<rparr> payer u
        = (Inr (creation_result.truncate r), t')"
    using assms(3) by (auto simp: pack_def client_ok Let_def simp del: archiveHex_ok split: if_splits prod.splits)
  have len: "length h = 32" by (rule digest_lengths(3) [OF assms(1) h])
  obtain es where es: "u = t @ es" "list_all reading es" using emitsD [OF emits_load load] by blast
  have ids: "hex = hex_of_bytes h" "i = sha256 H (canonical_frame h KPack)"
    using hex i len by (simp_all add: archiveHex_def derivePackHashId_def canonicalHashId_def)
  show ?thesis
    by (rule capturesI [OF assms(1,2) len run, where address = address and es = es])
      (use address es ids in \<open>simp_all add: created_name_def source_texts_def member_metas_def\<close>)
qed

lemma hashAccount_captures:
  assumes "host_ok H" "length (prog_id program) = 32" "length target = 32"
    and "hashAccount H N program target payer t = (Inr r, t')"
  shows "captures H program (HashAccountOf target) payer t (creation_result.truncate r) t'"
proof -
  obtain i h info address voteKey hex and snapshot :: archive_snapshot
    where h: "deriveAccountMetadataHash H target info = Inr h"
    and i: "canonicalHashId H (JBytes h) (JNumber (Finite (of_nat (kind_number KAccount)))) = Inr i"
    and address: "hashPda H program (JBytes i) = Inr address" and hex: "archiveHex H (JBytes h) = Inr hex"
    and run: "submitCreation H N program \<lparr>ix_call = IxAccount, ix_accounts = [(''hashAccount'', address), (''voteInfo'', voteKey),
        (''target'', target), (''payer'', instructionPayer program payer), (''systemProgram'', SYSTEM_PROGRAM)], ix_remaining = []\<rparr>
      \<lparr>pend_hash = hex, pend_source = AAccount (toBase58 H target), pend_members = None, pend_snapshot = Some snapshot\<rparr> payer
        (t @ [EAccountInfo target None]) = (Inr (creation_result.truncate r), t')"
    using assms(4) by (auto simp: hashAccount_def client_ok Let_def
        simp del: archiveHex_ok kind_number.simps split: if_splits option.splits)
  have len: "length h = 32" by (rule digest_lengths(4) [OF assms(1) h])
  have ids: "hex = hex_of_bytes h" "i = sha256 H (canonical_frame h KAccount)"
    using hex i len canonicalHashId_JBytes [OF len, of H KAccount] by (simp_all add: archiveHex_def)
  show ?thesis
    by (rule capturesI [OF assms(1,2) len run, where address = address and es = "[EAccountInfo target None]"])
      (use address ids assms(3) in \<open>simp_all add: created_name_def source_texts_def key_textI\<close>)
qed

section \<open>Sessions\<close>

text \<open>A client at work: the plans it has prepared and the requests it has made. Every method is a
  step, whatever it is called with and whatever it returns.\<close>

record session =
  session_plans :: plans
  session_trace :: "event list"

inductive client_step :: "host \<Rightarrow> net \<Rightarrow> program \<Rightarrow> session \<Rightarrow> session \<Rightarrow> bool" for H N program where
  step_create: "run_creation H N program call payer t = (r, t') \<Longrightarrow>
    client_step H N program \<lparr>session_plans = plans, session_trace = t\<rparr> \<lparr>session_plans = plans, session_trace = t'\<rparr>"
| step_vote: "vote H N program hashId payer t = (r, t') \<Longrightarrow>
    client_step H N program \<lparr>session_plans = plans, session_trace = t\<rparr> \<lparr>session_plans = plans, session_trace = t'\<rparr>"
| step_unvote: "unvote H N program hashId payer t = (r, t') \<Longrightarrow>
    client_step H N program \<lparr>session_plans = plans, session_trace = t\<rparr> \<lparr>session_plans = plans, session_trace = t'\<rparr>"
| step_verify: "verify H N program hashId t = (r, t') \<Longrightarrow>
    client_step H N program \<lparr>session_plans = plans, session_trace = t\<rparr> \<lparr>session_plans = plans, session_trace = t'\<rparr>"
| step_fetch: "fetchHashAccount H N program hashId t = (r, t') \<Longrightarrow>
    client_step H N program \<lparr>session_plans = plans, session_trace = t\<rparr> \<lparr>session_plans = plans, session_trace = t'\<rparr>"
| step_fetchVote: "fetchVoteInfo H N program hashId voter t = (r, t') \<Longrightarrow>
    client_step H N program \<lparr>session_plans = plans, session_trace = t\<rparr> \<lparr>session_plans = plans, session_trace = t'\<rparr>"
| step_restore: "restore H N program proof option payer t = (r, t') \<Longrightarrow>
    client_step H N program \<lparr>session_plans = plans, session_trace = t\<rparr> \<lparr>session_plans = plans, session_trace = t'\<rparr>"
| step_plan: "planRestore H N program plans archive options payer t = Some (r, plans', t') \<Longrightarrow>
    client_step H N program \<lparr>session_plans = plans, session_trace = t\<rparr> \<lparr>session_plans = plans', session_trace = t'\<rparr>"
| step_execute: "executeRestorePlan H N program plans k allow payer t = (r, t') \<Longrightarrow>
    client_step H N program \<lparr>session_plans = plans, session_trace = t\<rparr> \<lparr>session_plans = plans, session_trace = t'\<rparr>"
| step_archive: "restoreArchive H N program plans archive options allow payer t = Some (r, plans', t') \<Longrightarrow>
    client_step H N program \<lparr>session_plans = plans, session_trace = t\<rparr> \<lparr>session_plans = plans', session_trace = t'\<rparr>"

text \<open>The account of an instruction that pays for it, or signs for its vote.\<close>

fun charged_name :: "ix_call \<Rightarrow> string option" where
  "charged_name (IxRegister _) = Some ''user''"
| "charged_name IxVote = Some ''user''"
| "charged_name IxUnvote = Some ''user''"
| "charged_name (IxBranch _ _) = Some ''user''"
| "charged_name IxBatch = Some ''payer''"
| "charged_name IxPack = Some ''payer''"
| "charged_name IxAccount = Some ''payer''"
| "charged_name (IxRestore _) = Some ''payer''"
| "charged_name IxVerify = None"

text \<open>What a method builds for \<open>rpc()\<close>: the account charged is the extra key pair, or the wallet when
  there is none; no remaining account signs, and only those of a Restore are writable; and a
  Restore carries a proof that \<open>prepareRestore\<close> accepted.\<close>

definition accepted_proof :: "host \<Rightarrow> instruction \<Rightarrow> bool" where
  "accepted_proof H ix \<longleftrightarrow> (\<forall>links. ix_call ix = IxRestore links \<longrightarrow>
     (\<exists>proof create encoded. prepareRestore H proof create = Inr encoded \<and> links = proofEncoded encoded))"

definition built :: "host \<Rightarrow> program \<Rightarrow> instruction \<Rightarrow> bytes option \<Rightarrow> bool" where
  "built H program ix payer \<longleftrightarrow>
     (case charged_name (ix_call ix) of None \<Rightarrow> payer = None
      | Some name \<Rightarrow> get (ix_accounts ix) name = Some (instructionPayer program payer)) \<and>
     list_all (\<lambda>meta. \<not> meta_isSigner meta \<and> (meta_isWritable meta \<longrightarrow> (\<exists>links. ix_call ix = IxRestore links)))
       (ix_remaining ix) \<and>
     accepted_proof H ix"

text \<open>The requests of a method other than the execution of a plan.\<close>

fun method_event :: "host \<Rightarrow> program \<Rightarrow> event \<Rightarrow> bool" where
  "method_event H program (ESend _ _ _) = False"
| "method_event H program (ESubmit ix payer) = built H program ix payer"
| "method_event H program _ = True"

lemma emits_mono: "(\<And>e. P e \<Longrightarrow> Q e) \<Longrightarrow> emits P m \<Longrightarrow> emits Q m"
  unfolding emits_def list_all_iff by blast

lemma reading_method: "reading e \<Longrightarrow> method_event H program e"
  by (cases e) simp_all

lemma emits_fetch_method [emits_intros]: "emits (method_event H program) (fetchHashAccount H N program i)"
  "emits (method_event H program) (loadAggregateMembers H N program ids aggregate)"
  by (rule emits_mono [OF reading_method emits_fetch], assumption, rule emits_mono [OF reading_method emits_load], assumption)

lemma emits_submit [emits_intros]: "built H program ix payer \<Longrightarrow> emits (method_event H program) (submitInstruction N ix payer)"
  by (simp add: submitInstruction_def emits_request)

lemma emits_creation [emits_intros]:
  "built H program ix payer \<Longrightarrow> emits (method_event H program) (submitCreation H N program ix draft payer)"
  unfolding submitCreation_def captureCreatedArchive_def confirm_creation_def capture_record_def readArchiveRecord_def Let_def
  by (auto intro!: emits_intros split: option.split)

lemma emits_given: "(\<And>x. v = Inr x \<Longrightarrow> emits P (f x)) \<Longrightarrow> emits P (bindC (pureC v) f)"
  by (cases v) (auto simp: emits_def bindC_def)

lemma built_member_metas: "list_all (\<lambda>meta. \<not> meta_isSigner meta \<and> \<not> meta_isWritable meta) (member_metas ks)"
  by (simp add: member_metas_def list_all_iff)

lemma emits_creations: "emits (method_event H program) (run_creation H N program call payer)"
  unfolding run_creation_def register_def branch_def batch_def pack_def hashAccount_def Let_def
  by (auto intro!: emits_intros simp: built_def accepted_proof_def built_member_metas split: option.split creation_call.split prod.split)

lemma vote_built:
  "vote_instruction H program call hashId (instructionPayer program payer) = Inr ix \<Longrightarrow> call = IxVote \<or> call = IxUnvote \<Longrightarrow>
     built H program ix payer"
  by (auto simp: vote_instruction_def built_def accepted_proof_def)

lemma restored_metas:
  assumes "mapE (\<lambda>i. bindE (f i) (\<lambda>hashKey. bindE (g i) (\<lambda>voteKey.
      Inr [\<lparr>meta_pubkey = hashKey, meta_isSigner = False, meta_isWritable = True\<rparr>,
        \<lparr>meta_pubkey = voteKey, meta_isSigner = False, meta_isWritable = True\<rparr>]))) ids = Inr metas"
  shows "list_all (\<lambda>meta. \<not> meta_isSigner meta) (concat metas)"
  using assms by (induction ids arbitrary: metas) auto

lemma emits_methods:
  "emits (method_event H program) (vote H N program hashId payer)"
  "emits (method_event H program) (unvote H N program hashId payer)"
  "emits (method_event H program) (verify H N program hashId)"
  "emits (method_event H program) (fetchVoteInfo H N program hashId voter)"
  "emits (method_event H program) (restore H N program proof option payer)"
proof -
  show "emits (method_event H program) (vote H N program hashId payer)" "emits (method_event H program) (unvote H N program hashId payer)"
    unfolding vote_def unvote_def by (auto intro!: emits_given emits_submit vote_built)
  show "emits (method_event H program) (verify H N program hashId)"
    unfolding verify_def by (auto intro!: emits_intros simp: built_def accepted_proof_def)
  show "emits (method_event H program) (fetchVoteInfo H N program hashId voter)"
    unfolding fetchVoteInfo_def fetchNullableAccount_def by (auto intro!: emits_intros split: option.split)
  show "emits (method_event H program) (restore H N program proof option payer)"
    unfolding restore_def Let_def
    by (intro emits_given emits_bind emits_return emits_submit)
      (auto simp: built_def accepted_proof_def dest: restored_metas)
qed

text \<open>What a session maintains. Every prepared plan consists of parts of one decodable archive of this
  program, and its steps are Restore instructions of accepted proofs charged to the plan's payer;
  what was submitted was built by a method; and what was sent is a step of a prepared plan, with
  the plan's fee payer, signed by the plan's payer.\<close>

definition prepared_ok :: "host \<Rightarrow> program \<Rightarrow> execution \<Rightarrow> bool" where
  "prepared_ok H program ex \<longleftrightarrow> exec_programId ex = toBase58 H (prog_id program) \<and>
     (\<exists>a S. wf_archive H a \<and> selects a S (exec_present ex) \<and>
        (\<forall>step \<in> set (exec_steps ex). \<exists>T. selects a T (prep_archive step))) \<and>
     (\<forall>step \<in> set (exec_steps ex). \<exists>key create rs. toBase58 H key = exec_payer ex \<and> restores_step H create key step rs)"

definition event_ok :: "host \<Rightarrow> program \<Rightarrow> plans \<Rightarrow> event \<Rightarrow> bool" where
  "event_ok H program plans ev \<longleftrightarrow> (case ev of
      ESend ix feePayer signers \<Rightarrow> feePayer = prog_wallet program \<and>
        (\<exists>ex payer. ex \<in> set plans \<and> toBase58 H feePayer = exec_feePayer ex \<and>
          exec_payer ex = toBase58 H (instructionPayer program payer) \<and>
          signers = (case payer of None \<Rightarrow> [] | Some key \<Rightarrow> [key]) \<and> ix \<in> prep_instruction ` set (exec_steps ex))
    | _ \<Rightarrow> method_event H program ev)"

definition session_ok :: "host \<Rightarrow> program \<Rightarrow> session \<Rightarrow> bool" where
  "session_ok H program s \<longleftrightarrow> list_all (prepared_ok H program) (session_plans s) \<and>
     list_all (event_ok H program (session_plans s)) (session_trace s)"

lemma method_event_ok: "method_event H program ev \<Longrightarrow> event_ok H program plans ev"
  by (cases ev) (simp_all add: event_ok_def)

lemma event_ok_more: "event_ok H program plans ev \<Longrightarrow> event_ok H program (plans @ new) ev"
  by (cases ev) (auto simp: event_ok_def)

lemma list_all_mono_ok: "list_all (event_ok H program plans) t \<Longrightarrow> list_all (event_ok H program (plans @ new)) t"
  by (simp add: list_all_iff event_ok_more)

lemma quiet_step:
  assumes "emits (method_event H program) m" "m t = (r, t')" "session_ok H program \<lparr>session_plans = plans, session_trace = t\<rparr>"
  shows "session_ok H program \<lparr>session_plans = plans, session_trace = t'\<rparr>"
proof -
  obtain es where "t' = t @ es" "list_all (method_event H program) es" using emitsD [OF assms(1,2)] by blast
  with assms(3) show ?thesis by (auto simp: session_ok_def list_all_iff method_event_ok)
qed

lemma plan_grows:
  assumes "host_ok H" "planRestore H N program plans archive options payer t = Some (r, plans', t')"
    and "session_ok H program \<lparr>session_plans = plans, session_trace = t\<rparr>"
  shows "session_ok H program \<lparr>session_plans = plans', session_trace = t'\<rparr> \<and> (\<exists>new. plans' = plans @ new)"
proof -
  note run = assms(2) [unfolded planRestore_def]
  from plan_outcome [OF assms(1), of program archive options N plans "instructionPayer program payer"
      "instructionPayer program None" t] run
  obtain es where es: "t' = t @ es" "list_all (method_event H program) es" and
    ends: "plans' = plans \<or> (\<exists>plan. r = Inr (length plans, plan))"
    by (auto simp: list_all_iff)
  from ends show ?thesis
  proof
    assume "plans' = plans"
    with es assms(3) show ?thesis by (auto simp: session_ok_def list_all_iff method_event_ok)
  next
    assume "\<exists>plan. r = Inr (length plans, plan)"
    then obtain plan where plan: "r = Inr (length plans, plan)" ..
    from planned_execution [OF assms(1) run [unfolded plan]]
    obtain a ex closures where ex: "wf_archive H a" "plans' = plans @ [ex]" "exec_programId ex = toBase58 H (prog_id program)"
      "exec_payer ex = toBase58 H (instructionPayer program payer)"
      "selects a (set (plan_alreadyPresent plan)) (exec_present ex)"
      "list_all2 (\<lambda>step S. selects a S (prep_archive step)) (exec_steps ex) closures"
      "list_all2 (restores_step H (create_accounts (ropt_createAccounts options)) (instructionPayer program payer))
        (exec_steps ex) (plan_steps plan)"
      by blast
    have "\<forall>step \<in> set (exec_steps ex). \<exists>T. selects a T (prep_archive step)"
      using list_all2_set1 [OF ex(6)] by blast
    moreover have "\<forall>step \<in> set (exec_steps ex). \<exists>key create rs. toBase58 H key = exec_payer ex \<and> restores_step H create key step rs"
      using list_all2_set1 [OF ex(7)] ex(4) by metis
    ultimately have "prepared_ok H program ex" using ex unfolding prepared_ok_def by blast
    with ex(2) es assms(3) show ?thesis
      by (auto simp: session_ok_def list_all_mono_ok) (simp add: list_all_iff method_event_ok)
  qed
qed

lemma execute_sends_prepared:
  assumes "executeRestorePlan H N program plans k allow payer t = (r, t')"
    and "session_ok H program \<lparr>session_plans = plans, session_trace = t\<rparr>"
  shows "session_ok H program \<lparr>session_plans = plans, session_trace = t'\<rparr>"
proof -
  let ?signers = "case payer of None \<Rightarrow> [] | Some key \<Rightarrow> [key]"
  from execute_outcome [OF assms(1) [unfolded executeRestorePlan_def]]
  consider "t' = t" | steps where "k < length plans"
      "executable_now H program (plans ! k) (instructionPayer program payer) (instructionPayer program None) (allow = Some True)"
      "set steps \<subseteq> set (exec_steps (plans ! k))"
      "t' = t @ map (send_event (instructionPayer program None) ?signers) steps"
    using set_take_subset by (metis order_refl)
  then show ?thesis
  proof cases
    case 1
    with assms(2) show ?thesis by simp
  next
    case 2
    have "event_ok H program plans (send_event (instructionPayer program None) ?signers step)" if "step \<in> set steps" for step
      using that nth_mem [OF 2(1)] 2(2,3) unfolding event_ok_def send_event_def event.case executable_now_def
      by (intro conjI exI [of _ "plans ! k"] exI [of _ payer]) (auto simp: instructionPayer_def)
    with 2(4) assms(2) show ?thesis by (auto simp: session_ok_def list_all_iff)
  qed
qed

lemma step_keeps:
  assumes "host_ok H" "client_step H N program s s'" "session_ok H program s"
  shows "session_ok H program s' \<and> (\<exists>new. session_plans s' = session_plans s @ new)"
  using assms(2,3)
proof cases
  case (step_archive plans archive options allow payer t r plans' t')
  then show ?thesis
    using plan_grows [OF assms(1)] execute_sends_prepared assms(3)
    by (auto simp: restoreArchive_def split: option.splits prod.splits sum.splits)
next
  case (step_plan plans archive options payer t r plans' t')
  with plan_grows [OF assms(1) step_plan(3)] assms(3) show ?thesis by simp
next
  case (step_execute plans k allow payer t r t')
  with execute_sends_prepared [OF step_execute(3)] assms(3) show ?thesis by simp
qed (use assms(3) quiet_step [OF emits_creations] quiet_step [OF emits_methods(1)] quiet_step [OF emits_methods(2)]
    quiet_step [OF emits_methods(3)] quiet_step [OF emits_methods(4)] quiet_step [OF emits_methods(5)]
    quiet_step [OF emits_fetch_method(1)] in simp_all)

section \<open>Restoring with a compiled proof\<close>

lemma mapE_metas:
  assumes "\<And>p. p \<in> set ps \<Longrightarrow> hashPda H program (JBytes (f p)) = Inr (address p)"
  shows "mapE (\<lambda>i. bindE (hashPda H program (JBytes i)) (\<lambda>hashKey. bindE (votePda H program (JBytes i) wallet) (\<lambda>voteKey.
      Inr [\<lparr>meta_pubkey = hashKey, meta_isSigner = False, meta_isWritable = True\<rparr>,
        \<lparr>meta_pubkey = voteKey, meta_isSigner = False, meta_isWritable = True\<rparr>]))) (map f ps) = Inr metas \<Longrightarrow>
    \<exists>vote. (\<forall>p \<in> set ps. votePda H program (JBytes (f p)) wallet = Inr (vote p)) \<and>
      metas = map (\<lambda>p. [\<lparr>meta_pubkey = address p, meta_isSigner = False, meta_isWritable = True\<rparr>,
        \<lparr>meta_pubkey = vote p, meta_isSigner = False, meta_isWritable = True\<rparr>]) ps"
  using assms
proof (induction ps arbitrary: metas)
  case (Cons p ps)
  let ?vote = "\<lambda>p. projr (votePda H program (JBytes (f p)) wallet)"
  obtain v ms where v: "votePda H program (JBytes (f p)) wallet = Inr v" "metas = [\<lparr>meta_pubkey = address p, meta_isSigner = False,
      meta_isWritable = True\<rparr>, \<lparr>meta_pubkey = v, meta_isSigner = False, meta_isWritable = True\<rparr>] # ms"
    and ms: "mapE (\<lambda>i. bindE (hashPda H program (JBytes i)) (\<lambda>hashKey. bindE (votePda H program (JBytes i) wallet) (\<lambda>voteKey.
      Inr [\<lparr>meta_pubkey = hashKey, meta_isSigner = False, meta_isWritable = True\<rparr>,
        \<lparr>meta_pubkey = voteKey, meta_isSigner = False, meta_isWritable = True\<rparr>]))) (map f ps) = Inr ms"
    using Cons.prems by auto
  from Cons.IH [OF ms] Cons.prems(2) v show ?case
    by (intro exI [of _ ?vote]) auto
qed simp

lemma restore_run:
  fixes option :: restore_argument and payer :: "bytes option"
  assumes "prepareRestore H proof (create_accounts (case option of OptionsArgument options \<Rightarrow> call_createAccounts options | _ \<Rightarrow> None)) = Inr q"
    and "hashPda H program (JBytes (anchorId q)) = Inr anchorKey"
  defines "signer \<equiv> (case option of PayerArgument key \<Rightarrow> Some key | _ \<Rightarrow> payer)"
  shows "restore H N program proof option payer t =
    (case mapE (\<lambda>i. bindE (hashPda H program (JBytes i)) (\<lambda>hashKey.
        bindE (votePda H program (JBytes i) (instructionPayer program signer)) (\<lambda>voteKey.
        Inr [\<lparr>meta_pubkey = hashKey, meta_isSigner = False, meta_isWritable = True\<rparr>,
          \<lparr>meta_pubkey = voteKey, meta_isSigner = False, meta_isWritable = True\<rparr>]))) (restoredIds q) of
       Inl e \<Rightarrow> (Inl (Plain e), t)
     | Inr metas \<Rightarrow>
        let ix = \<lparr>ix_call = IxRestore (proofEncoded q), ix_accounts = [(''payer'', instructionPayer program signer),
            (''anchorHashAccount'', anchorKey), (''systemProgram'', SYSTEM_PROGRAM)], ix_remaining = concat metas\<rparr> in
        (case net_submit N t ix signer of
           Inl e \<Rightarrow> (Inl (Plain e), t @ [ESubmit ix signer])
         | Inr signature \<Rightarrow> (Inr \<lparr>call_signature = signature, call_restoredIds = restoredIds q\<rparr>, t @ [ESubmit ix signer])))"
  by (auto simp: restore_def assms(1,2) signer_def [symmetric] bindC_def pureC_run submitInstruction_def requestC_run Let_def
      split: sum.split)

section \<open>Properties\<close>

text \<open>C8: a creation captures what it creates. When \<open>register\<close>, \<open>branch\<close>, \<open>batch\<close>, \<open>pack\<close> or
  \<open>hashAccount\<close> succeeds, it has made read requests only, then submitted one instruction, confirmed
  its signature and read one account at the confirmed slot; that account is the one the submitted
  instruction names as the account to create, its address is derived from the identity of the
  returned archive's single node, and the instruction's remaining accounts are read-only.\<close>

theorem create_captures:
  assumes "host_ok H" "length (prog_id program) = 32" "\<forall>target. call = HashAccountOf target \<longrightarrow> length target = 32"
    and "run_creation H N program call payer t = (Inr result, t')"
  shows "\<exists>es ix address m slot. list_all reading es \<and>
    t' = t @ es @ [ESubmit ix payer, EConfirm (res_signature result), EAccountInfo address (Some slot)] \<and>
    get (ix_accounts ix) (created_name call) = Some address \<and> arch_nodes (res_archive result) = [(toBase58 H address, m)] \<and>
    deriveHashPda H (prog_id program) (JBytes (node_id H m)) = Inr address \<and>
    (\<forall>meta \<in> set (ix_remaining ix). \<not> meta_isWritable meta)"
  unfolding captures_def [symmetric]
proof (cases call)
  case (Register hash)
  with register_captures [OF assms(1,2)] assms(4) show "captures H program call payer t result t'"
    by (simp add: run_creation_def)
next
  case (Branch oldHashId payload takeVote)
  with branch_captures [OF assms(1,2)] assms(4) show "captures H program call payer t result t'"
    by (simp add: run_creation_def)
next
  case (BatchOf memberIds)
  with batch_captures [OF assms(1,2)] assms(4) show "captures H program call payer t result t'"
    by (auto simp: run_creation_def bindC_ok)
next
  case (PackOf memberIds)
  with pack_captures [OF assms(1,2)] assms(4) show "captures H program call payer t result t'"
    by (auto simp: run_creation_def bindC_ok)
next
  case (HashAccountOf target)
  with hashAccount_captures [OF assms(1,2), of target] assms(3,4) show "captures H program call payer t result t'"
    by (auto simp: run_creation_def bindC_ok)
qed

text \<open>Registering the raw hash of the demonstration leaf.\<close>

lemma demo_register:
  "\<exists>result t. run_creation demo_host demo_net demo_prog (Register (JBytes (replicate 32 1))) None [] = (Inr result, t)"
proof -
  let ?h = "replicate 32 1 :: bytes"
  have i: "sha256 demo_host (canonical_frame ?h KHash) = demo_id 0 1"
    by (simp add: canonical_frame_def demo_sha256_def)
  have genesis: "deriveGenesisHashId demo_host (JBytes ?h) = Inr (demo_id 0 1)"
    using deriveGenesisHashId_JBytes [of ?h demo_host] i by simp
  have pdas: "hashPda demo_host demo_prog (JBytes (demo_id 0 1)) = Inr (demo_id 0 1)"
    "votePda demo_host demo_prog (JBytes (demo_id 0 1)) w = Inr (demo_id 0 1)" for w
    by (simp_all add: hashPda_def votePda_def deriveVotePda_def findPda_def demo_find_def)
  have draft: "\<lparr>pend_hash = hex_of_bytes ?h, pend_source = AHash, pend_members = None, pend_snapshot = None\<rparr> = pending_of demo_leaf"
    by (simp add: pending_of_def demo_leaf_def)
  have bytes: "to32Bytes demo_host (JBytes ?h) = Inr ?h" by simp
  have hex: "archiveHex demo_host (JBytes ?h) = Inr (hex_of_bytes ?h)" by (simp add: archiveHex_def)
  show ?thesis
    by (simp only: run_creation_def creation_call.case register_def bytes genesis pdas hex draft demo_submit bindC_def pureC_run
        lifted_simps Let_def prod.case sum.case) blast
qed

lemma create_captures_witness:
  "\<exists>result t es ix address m slot.
     run_creation demo_host demo_net demo_prog (Register (JBytes (replicate 32 1))) None [] = (Inr result, t) \<and>
     t = es @ [ESubmit ix None, EConfirm (res_signature result), EAccountInfo address (Some slot)] \<and>
     get (ix_accounts ix) ''hashAccount'' = Some address \<and> arch_nodes (res_archive result) = [(toBase58 demo_host address, m)]"
proof -
  obtain result t where run: "run_creation demo_host demo_net demo_prog (Register (JBytes (replicate 32 1))) None [] =
      (Inr result, t)"
    using demo_register by blast
  from create_captures [OF demo_host_ok _ _ run] run show ?thesis
    by (auto simp: created_name_def)
qed

lemma submission_follows:
  assumes "host_ok H" "length (prog_id program) = 32" "validate_creation H program draft = Inr expected"
  shows "\<exists>r es. submitCreation H N program ix draft payer t = (r, t @ ESubmit ix payer # es)"
proof (cases "net_submit N t ix payer")
  case (Inl e)
  then show ?thesis by (auto simp: submitCreation_run [OF assms(1,2)] assms(3))
next
  case (Inr signature)
  let ?rest = "bindC (captureCreatedArchive H N program signature expected) (\<lambda>archive. returnC \<lparr>res_signature = signature, res_archive = archive\<rparr>)"
  have "emits (\<lambda>_. True) ?rest"
    unfolding captureCreatedArchive_def confirm_creation_def capture_record_def readArchiveRecord_def Let_def
    by (auto intro!: emits_intros split: option.split)
  moreover obtain r u where "?rest (t @ [ESubmit ix payer]) = (r, u)" by (rule prod.exhaust)
  ultimately obtain es where "?rest (t @ [ESubmit ix payer]) = (r, (t @ [ESubmit ix payer]) @ es)" using emitsD by metis
  with Inr show ?thesis by (simp add: submitCreation_run [OF assms(1,2)] assms(3))
qed

lemma demo_register_submits:
  "\<exists>r es. run_creation demo_host N demo_prog (Register (JBytes (replicate 32 1))) (Some key) t =
     (r, t @ ESubmit \<lparr>ix_call = IxRegister (replicate 32 1), ix_accounts = [(''hashAccount'', demo_id 0 1),
       (''voteInfo'', demo_id 0 1), (''user'', key), (''systemProgram'', SYSTEM_PROGRAM)], ix_remaining = []\<rparr> (Some key) # es)"
proof -
  let ?h = "replicate 32 1 :: bytes"
  have i: "sha256 demo_host (canonical_frame ?h KHash) = demo_id 0 1"
    by (simp add: canonical_frame_def demo_sha256_def)
  have genesis: "deriveGenesisHashId demo_host (JBytes ?h) = Inr (demo_id 0 1)"
    using deriveGenesisHashId_JBytes [of ?h demo_host] i by simp
  have pdas: "hashPda demo_host demo_prog (JBytes (demo_id 0 1)) = Inr (demo_id 0 1)"
    "votePda demo_host demo_prog (JBytes (demo_id 0 1)) w = Inr (demo_id 0 1)" for w
    by (simp_all add: hashPda_def votePda_def deriveVotePda_def findPda_def demo_find_def)
  have draft: "\<lparr>pend_hash = hex_of_bytes ?h, pend_source = AHash, pend_members = None, pend_snapshot = None\<rparr> = pending_of demo_leaf"
    by (simp add: pending_of_def demo_leaf_def)
  have bytes: "to32Bytes demo_host (JBytes ?h) = Inr ?h" by simp
  have hex: "archiveHex demo_host (JBytes ?h) = Inr (hex_of_bytes ?h)" by (simp add: archiveHex_def)
  have "length (prog_id demo_prog) = 32" by simp
  from submission_follows [OF demo_host_ok this demo_validate] show ?thesis
    by (simp only: run_creation_def creation_call.case register_def bytes genesis pdas hex draft bindC_def pureC_run
        lifted_simps Let_def prod.case sum.case instructionPayer_def option.case)
qed

text \<open>A session of all three kinds of transaction methods: it plans the restoration of the raw hash
  of the demonstration archive, carries the plan out, and registers a hash with an extra key pair.\<close>

lemma demo_session:
  "\<exists>s ix. (client_step demo_host demo_batch_net demo_prog)\<^sup>*\<^sup>* \<lparr>session_plans = [], session_trace = []\<rparr> s \<and>
     session_plans s \<noteq> [] \<and> (\<exists>tx. ESend tx (replicate 32 4) [] \<in> set (session_trace s)) \<and>
     ix_call ix = IxRegister (replicate 32 1) \<and> ESubmit ix (Some (replicate 32 5)) \<in> set (session_trace s)"
proof -
  let ?w = "replicate 32 4 :: bytes" and ?h = "replicate 32 1 :: bytes"
  have w: "instructionPayer demo_prog None = ?w" by (simp add: instructionPayer_def demo_prog_def)
  obtain plan ex t where plan: "planArchiveRestore demo_host demo_batch_net demo_prog [] (archive_value demo_archive) demo_restore
      ?w ?w [] = Some (Inr (0, plan), [ex], t)" "exec_steps ex \<noteq> []"
    using demo_planned by blast
  have one: "client_step demo_host demo_batch_net demo_prog \<lparr>session_plans = [], session_trace = []\<rparr>
      \<lparr>session_plans = [ex], session_trace = t\<rparr>"
    by (rule step_plan [where payer = None and options = demo_restore and archive = "archive_value demo_archive"])
      (simp add: planRestore_def w plan(1))
  obtain a where ex: "wf_archive demo_host a" "selects a (set (plan_alreadyPresent plan)) (exec_present ex)"
    "exec_connection ex = prog_connection demo_prog" "exec_endpoint ex = prog_endpoint demo_prog"
    "exec_programId ex = toBase58 demo_host (prog_id demo_prog)" "exec_payer ex = toBase58 demo_host ?w"
    "exec_feePayer ex = toBase58 demo_host ?w"
    using planned_execution [OF demo_host_ok plan(1)] by auto
  have "parseArchive demo_host (archive_value (exec_present ex)) = Inr (exec_present ex)"
    by (rule parseArchive_value [OF demo_host_ok selects_wf [OF demo_host_ok ex(1,2)]])
  moreover have "executable_now demo_host demo_prog ex ?w ?w True" using ex by (simp add: executable_now_def demo_prog_def)
  ultimately obtain r u where run: "executeRestorePlan demo_host demo_batch_net demo_prog [ex] 0 (Some True) None t = (r, u)"
    "run_steps demo_host demo_batch_net ?w [] 0 \<lparr>result_signatures = [], result_archive = exec_present ex\<rparr> (exec_steps ex) t = (r, u)"
    by (cases "run_steps demo_host demo_batch_net ?w [] 0 \<lparr>result_signatures = [], result_archive = exec_present ex\<rparr> (exec_steps ex) t")
      (simp add: executeRestorePlan_def w execute_run bindC_def)
  have two: "client_step demo_host demo_batch_net demo_prog \<lparr>session_plans = [ex], session_trace = t\<rparr>
      \<lparr>session_plans = [ex], session_trace = u\<rparr>"
    by (rule step_execute [OF run(1)])
  obtain first rest where steps: "exec_steps ex = first # rest" using plan(2) by (cases "exec_steps ex") auto
  have sent: "ESend (prep_instruction first) ?w [] \<in> set u"
    using run_steps_sends [OF run(2)] by (auto simp: steps send_event_def)
  let ?ix = "\<lparr>ix_call = IxRegister ?h, ix_accounts = [(''hashAccount'', demo_id 0 1), (''voteInfo'', demo_id 0 1),
      (''user'', replicate 32 5), (''systemProgram'', SYSTEM_PROGRAM)], ix_remaining = []\<rparr>"
  obtain r' es where three: "run_creation demo_host demo_batch_net demo_prog (Register (JBytes ?h)) (Some (replicate 32 5)) u =
      (r', u @ ESubmit ?ix (Some (replicate 32 5)) # es)"
    using demo_register_submits by blast
  have "client_step demo_host demo_batch_net demo_prog \<lparr>session_plans = [ex], session_trace = u\<rparr>
      \<lparr>session_plans = [ex], session_trace = u @ ESubmit ?ix (Some (replicate 32 5)) # es\<rparr>"
    by (rule step_create [OF three])
  with one two have "(client_step demo_host demo_batch_net demo_prog)\<^sup>*\<^sup>* \<lparr>session_plans = [], session_trace = []\<rparr>
      \<lparr>session_plans = [ex], session_trace = u @ ESubmit ?ix (Some (replicate 32 5)) # es\<rparr>"
    by (meson rtranclp.rtrancl_refl rtranclp.rtrancl_into_rtrancl)
  with sent show ?thesis
    by (intro exI [of _ "\<lparr>session_plans = [ex], session_trace = u @ ESubmit ?ix (Some (replicate 32 5)) # es\<rparr>"] exI [of _ ?ix]) auto
qed

text \<open>C10: every transaction of a session has its origin and is charged to its signer. There are two
  ways out: \<open>rpc()\<close> of a built instruction (\<open>ESubmit\<close>) and a direct \<open>sendAndConfirm\<close> (\<open>ESend\<close>); both end
  at the provider. In every session, whatever methods are called in whatever order with whatever
  arguments and answers: an instruction submitted by a method charges the extra key pair that
  signs it, or the wallet when there is none (only \<open>verify\<close> charges nobody, and takes no key pair),
  makes no other account a signer, and only a Restore makes further accounts writable; an
  instruction sent directly is a Restore of a prepared plan, with the wallet as fee payer as the
  plan was made for, charged to the plan's payer, who is also the signer; every Restore
  that goes out either way carries a proof that \<open>prepareRestore\<close> accepted; and every prepared plan,
  old ones included, still holds only parts of one decodable archive of the program.\<close>

theorem session_transactions:
  assumes "host_ok H" "(client_step H N program)\<^sup>*\<^sup>* \<lparr>session_plans = [], session_trace = []\<rparr> s"
  shows "(\<forall>ix payer. ESubmit ix payer \<in> set (session_trace s) \<longrightarrow>
      (case charged_name (ix_call ix) of None \<Rightarrow> ix_call ix = IxVerify \<and> payer = None
       | Some name \<Rightarrow> get (ix_accounts ix) name = Some (case payer of Some key \<Rightarrow> key | None \<Rightarrow> prog_wallet program)) \<and>
      (\<forall>meta \<in> set (ix_remaining ix). \<not> meta_isSigner meta \<and> (meta_isWritable meta \<longrightarrow> (\<exists>links. ix_call ix = IxRestore links))) \<and>
      (\<forall>links. ix_call ix = IxRestore links \<longrightarrow>
        (\<exists>proof create encoded. prepareRestore H proof create = Inr encoded \<and> links = proofEncoded encoded))) \<and>
    (\<forall>ix feePayer signers. ESend ix feePayer signers \<in> set (session_trace s) \<longrightarrow> feePayer = prog_wallet program \<and>
      (\<exists>ex key signer proof create encoded. ex \<in> set (session_plans s) \<and> ix \<in> prep_instruction ` set (exec_steps ex) \<and>
        toBase58 H feePayer = exec_feePayer ex \<and>
        signers = (case signer of None \<Rightarrow> [] | Some k \<Rightarrow> [k]) \<and>
        get (ix_accounts ix) ''payer'' = Some key \<and> toBase58 H key = exec_payer ex \<and>
        exec_payer ex = toBase58 H (case signer of Some k \<Rightarrow> k | None \<Rightarrow> prog_wallet program) \<and>
        (\<forall>meta \<in> set (ix_remaining ix). \<not> meta_isSigner meta) \<and>
        prepareRestore H proof create = Inr encoded \<and> ix_call ix = IxRestore (proofEncoded encoded))) \<and>
    (\<forall>ex \<in> set (session_plans s). exec_programId ex = toBase58 H (prog_id program) \<and>
      (\<exists>a S. wf_archive H a \<and> selects a S (exec_present ex) \<and>
        (\<forall>step \<in> set (exec_steps ex). \<exists>T. selects a T (prep_archive step))))"
proof -
  from assms(2) have ok: "session_ok H program s"
    by (induction rule: rtranclp_induct) (use step_keeps [OF assms(1)] in \<open>auto simp: session_ok_def\<close>)
  have submitted: "built H program ix payer" if "ESubmit ix payer \<in> set (session_trace s)" for ix payer
    using ok that by (fastforce simp: session_ok_def list_all_iff event_ok_def)
  have none: "charged_name call = None \<longleftrightarrow> call = IxVerify" for call by (cases call) simp_all
  have sent: "feePayer = prog_wallet program \<and> (\<exists>ex key signer proof create encoded. ex \<in> set (session_plans s) \<and>
      ix \<in> prep_instruction ` set (exec_steps ex) \<and> toBase58 H feePayer = exec_feePayer ex \<and>
      signers = (case signer of None \<Rightarrow> [] | Some k \<Rightarrow> [k]) \<and> get (ix_accounts ix) ''payer'' = Some key \<and>
      toBase58 H key = exec_payer ex \<and> exec_payer ex = toBase58 H (instructionPayer program signer) \<and>
      (\<forall>meta \<in> set (ix_remaining ix). \<not> meta_isSigner meta) \<and>
      prepareRestore H proof create = Inr encoded \<and> ix_call ix = IxRestore (proofEncoded encoded))"
    if "ESend ix feePayer signers \<in> set (session_trace s)" for ix feePayer signers
  proof -
    from ok that have "event_ok H program (session_plans s) (ESend ix feePayer signers)"
      by (auto simp: session_ok_def list_all_iff)
    then obtain ex signer step where ex: "feePayer = prog_wallet program" "ex \<in> set (session_plans s)"
      "toBase58 H feePayer = exec_feePayer ex" "exec_payer ex = toBase58 H (instructionPayer program signer)"
      "signers = (case signer of None \<Rightarrow> [] | Some k \<Rightarrow> [k])" "step \<in> set (exec_steps ex)" "ix = prep_instruction step"
      by (auto simp: event_ok_def)
    from ok ex(2) have "prepared_ok H program ex" by (simp add: session_ok_def list_all_iff)
    then obtain key create rs where rs: "toBase58 H key = exec_payer ex" "restores_step H create key step rs"
      using ex(6) unfolding prepared_ok_def by blast
    from rs(2) obtain encoded where "prepareRestore H (step_proof rs) create = Inr encoded" "ix_call ix = IxRestore (proofEncoded encoded)"
      "get (ix_accounts ix) ''payer'' = Some key" "\<forall>meta \<in> set (ix_remaining ix). \<not> meta_isSigner meta"
      by (auto simp: restores_step_def ex(7) list_all_iff)
    with ex rs(1) show ?thesis by blast
  qed
  show ?thesis
  proof (intro conjI allI impI, goal_cases)
    case (1 ix payer)
    with submitted none show ?case by (fastforce simp: built_def instructionPayer_def split: option.splits)
  next
    case (2 ix payer)
    with submitted show ?case by (fastforce simp: built_def list_all_iff)
  next
    case (3 ix payer links)
    with submitted show ?case by (fastforce simp: built_def accepted_proof_def)
  next
    case (4 ix feePayer signers)
    with sent show ?case by blast
  next
    case (5 ix feePayer signers)
    with sent [unfolded instructionPayer_def] show ?case by blast
  next
    case 6
    from ok show ?case by (auto simp: session_ok_def list_all_iff prepared_ok_def)
  qed
qed

lemma session_transactions_witness:
  "\<exists>s ix tx links. (client_step demo_host demo_batch_net demo_prog)\<^sup>*\<^sup>* \<lparr>session_plans = [], session_trace = []\<rparr> s \<and>
     session_plans s \<noteq> [] \<and>
     ESubmit ix (Some (replicate 32 5)) \<in> set (session_trace s) \<and> get (ix_accounts ix) ''user'' = Some (replicate 32 5) \<and>
     ESend tx (replicate 32 4) [] \<in> set (session_trace s) \<and> ix_call tx = IxRestore links"
proof -
  obtain s ix tx where s: "(client_step demo_host demo_batch_net demo_prog)\<^sup>*\<^sup>* \<lparr>session_plans = [], session_trace = []\<rparr> s"
    "session_plans s \<noteq> []" "ESend tx (replicate 32 4) [] \<in> set (session_trace s)"
    "ix_call ix = IxRegister (replicate 32 1)" "ESubmit ix (Some (replicate 32 5)) \<in> set (session_trace s)"
    using demo_session by blast
  note facts = session_transactions [OF demo_host_ok s(1)]
  from facts s(4,5) have "get (ix_accounts ix) ''user'' = Some (replicate 32 5)" by fastforce
  moreover from facts s(3) have "\<exists>links. ix_call tx = IxRestore links" by blast
  ultimately show ?thesis using s by blast
qed

text \<open>C9: restoring a compiled proof is one request. For a proof compiled from an archive of the
  client's program, \<open>restore\<close> never fails on the proof: unless the address of a vote account cannot
  be derived, it submits exactly one instruction, which carries the encoded proof and names the
  anchor's record, and answers with what the network answered. The accounts that follow are, in
  order, the live record and the payer's vote of each requested node, all writable and none a
  signer, and the returned ids are the ids of those nodes: the whole closure of the anchor except
  the anchor and the raw hashes that are not targets, or nothing when no account is to be created.\<close>

theorem restore_compiled:
  fixes option :: restore_argument and payer :: "bytes option"
  assumes "host_ok H" "parseArchive H input = Inr a" "arch_programId a = toBase58 H (prog_id program)"
    and "length (prog_id program) = 32"
    and "archivePublicKey H (JString (opt_anchor options)) ''address'' = Inr anchor"
    and "mapE (\<lambda>pda. archivePublicKey H (JString pda) ''address'') (opt_targets options) = Inr targets"
    and "buildRestoreProof H input options = Inr links"
    and "signer = (case option of PayerArgument key \<Rightarrow> Some key | _ \<Rightarrow> payer)"
    and "creating = create_accounts (case option of OptionsArgument options \<Rightarrow> call_createAccounts options | _ \<Rightarrow> None)"
  shows "\<exists>requested. distinct requested \<and> set requested = {p. creating \<and> p \<noteq> anchor \<and>
        (anchor, p) \<in> (dependency_edges H a)\<^sup>* \<and>
        (node_source (the (get (arch_nodes a) p)) = AHash \<longrightarrow> p \<in> set targets)} \<and>
     ((\<exists>p \<in> set requested. \<exists>e. votePda H program (JBytes (id_at H a p)) (instructionPayer program signer) = Inl e \<and>
        restore H N program links option payer t = (Inl (Plain e), t)) \<or>
      (\<exists>vote encoded ix. mapE (encode_link H) links = Inr encoded \<and> ix_call ix = IxRestore encoded \<and>
        ix_accounts ix = [(''payer'', instructionPayer program signer), (''anchorHashAccount'', key_bytes H anchor),
          (''systemProgram'', SYSTEM_PROGRAM)] \<and>
        ix_remaining ix = concat (map (\<lambda>p.
          [\<lparr>meta_pubkey = key_bytes H p, meta_isSigner = False, meta_isWritable = True\<rparr>,
           \<lparr>meta_pubkey = vote p, meta_isSigner = False, meta_isWritable = True\<rparr>]) requested) \<and>
        (\<forall>p \<in> set requested. hashPda H program (JBytes (id_at H a p)) = Inr (key_bytes H p) \<and>
          votePda H program (JBytes (id_at H a p)) (instructionPayer program signer) = Inr (vote p)) \<and>
        restore H N program links option payer t =
          (case net_submit N t ix signer of
             Inl e \<Rightarrow> (Inl (Plain e), t @ [ESubmit ix signer])
           | Inr signature \<Rightarrow> (Inr \<lparr>call_signature = signature, call_restoredIds = map (id_at H a) requested\<rparr>, t @ [ESubmit ix signer]))))"
proof -
  have wf: "wf_archive H a" by (rule parseArchive_wf [OF assms(1,2)])
  obtain order accounts where order: "dependencyOrder H a [anchor] True = Inr order"
    and links: "links = links_of H a targets accounts anchor order"
    using assms(2,5-7) by (auto simp: buildRestoreProof_ok [OF assms(1)] links_of_def)
  let ?req = "requested_of a targets creating anchor order"
  have present: "get (arch_nodes a) p = Some (the (get (arch_nodes a) p))" if "p \<in> set order" for p
    by (rule order_present [OF order that]) simp
  have address: "hashPda H program (JBytes (id_at H a p)) = Inr (key_bytes H p)" if "p \<in> set order" for p
    using node_address(1) [OF wf present [OF that] assms(1)] assms(1,3,4) by (simp add: hashPda_def id_at_def)
  have order_reach: "set order = {p. (anchor, p) \<in> (dependency_edges H a)\<^sup>*}"
    using dependency_search_ok(1) [OF order [unfolded dependencyOrder_def]] by (auto simp: reach_def wanted_def)
  have asked: "asked a targets p \<longleftrightarrow> (node_source (the (get (arch_nodes a) p)) = AHash \<longrightarrow> p \<in> set targets)"
    if "p \<in> set order" for p
    using present [OF that] unfolding asked_def by (metis option.sel)
  have req: "set ?req \<subseteq> set order" "distinct ?req" "set ?req = {p. creating \<and> p \<noteq> anchor \<and>
      (anchor, p) \<in> (dependency_edges H a)\<^sup>* \<and> (node_source (the (get (arch_nodes a) p)) = AHash \<longrightarrow> p \<in> set targets)}"
    using dependency_search_ok(2) [OF order [unfolded dependencyOrder_def]] asked order_reach
    by (auto simp: requested_of_def)
  obtain ws where ws: "mapE (encode_link H) links = Inr ws" "prepareRestore H links creating =
      Inr \<lparr>proofEncoded = ws, anchorId = id_at H a anchor, restoredIds = map (id_at H a) ?req\<rparr>"
    using links_prepared [OF assms(1) wf order, of targets accounts creating] unfolding links by blast
  let ?q = "\<lparr>proofEncoded = ws, anchorId = id_at H a anchor, restoredIds = map (id_at H a) ?req\<rparr>"
  have anchor: "hashPda H program (JBytes (anchorId ?q)) = Inr (key_bytes H anchor)"
    using address [OF proof_order_set(3) [OF order]] by simp
  note run = restore_run [OF ws(2) [unfolded assms(9)] anchor [unfolded assms(9)], of N payer t,
      folded assms(8,9), unfolded prepared_restore.select_convs]
  let ?metas = "mapE (\<lambda>i. bindE (hashPda H program (JBytes i)) (\<lambda>hashKey.
      bindE (votePda H program (JBytes i) (instructionPayer program signer)) (\<lambda>voteKey.
      Inr [\<lparr>meta_pubkey = hashKey, meta_isSigner = False, meta_isWritable = True\<rparr>,
        \<lparr>meta_pubkey = voteKey, meta_isSigner = False, meta_isWritable = True\<rparr>]))) (map (id_at H a) ?req)"
  show ?thesis
  proof (cases ?metas)
    case (Inl e)
    then obtain p where p: "p \<in> set ?req" "votePda H program (JBytes (id_at H a p)) (instructionPayer program signer) = Inl e"
      using mapE_failed [OF Inl] address req(1) by (auto simp: bindE_err)
    show ?thesis
      by (intro exI [of _ ?req] conjI req(2,3) disjI1 bexI [OF _ p(1)] exI [of _ e])
        (use p(2) run Inl in simp_all)
  next
    case (Inr metas)
    obtain vote where vote: "\<forall>p \<in> set ?req. votePda H program (JBytes (id_at H a p)) (instructionPayer program signer) = Inr (vote p)"
      "metas = map (\<lambda>p. [\<lparr>meta_pubkey = key_bytes H p, meta_isSigner = False, meta_isWritable = True\<rparr>,
        \<lparr>meta_pubkey = vote p, meta_isSigner = False, meta_isWritable = True\<rparr>]) ?req"
      using mapE_metas [OF address Inr] req(1) by blast
    show ?thesis
      by (intro exI [of _ ?req] conjI req(2,3) disjI2 exI [of _ vote] exI [of _ ws] exI)
        (use ws(1) vote address req(1) run Inr in \<open>auto simp: Let_def\<close>)
  qed
qed

lemma demo_reach:
  "(demo_key demo_batch_id, p) \<in> (dependency_edges demo_host demo_archive)\<^sup>* \<Longrightarrow>
     p \<in> {demo_key (demo_id 0 1), demo_key (demo_id 2 2), demo_key demo_batch_id}"
  using dependency_search_ok(1) [OF demo_batch_order [unfolded dependencyOrder_def]] by (auto simp: reach_def wanted_def)

lemma demo_vote:
  assumes "p \<in> {demo_key (demo_id 0 1), demo_key (demo_id 2 2), demo_key demo_batch_id}"
  shows "\<exists>k. votePda demo_host demo_prog (JBytes (id_at demo_host demo_archive p)) w = Inr k"
  using assms by (auto simp: votePda_def deriveVotePda_def findPda_def demo_find_def id_at_def demo_nodes demo_node_ids)

lemma restore_compiled_witness:
  "\<exists>links ix ids. buildRestoreProof demo_host (archive_value demo_archive) demo_options = Inr links \<and>
     restore demo_host demo_net demo_prog links NoArgument None [] = (Inr \<lparr>call_signature = ''signature'', call_restoredIds = ids\<rparr>, [ESubmit ix None]) \<and>
     get (ix_accounts ix) ''anchorHashAccount'' = Some (key_bytes demo_host (demo_key demo_batch_id))"
proof -
  have "arch_programId demo_archive = toBase58 demo_host (prog_id demo_prog)" "length (prog_id demo_prog) = 32"
    by (simp_all add: demo_program_def)
  from restore_compiled [OF demo_host_ok demo_parsed(1) this demo_options_parsed(1,2) demo_proof refl refl,
      where option = NoArgument and payer = None and N = demo_net and t = "[]"]
  show ?thesis
  proof (elim exE conjE disjE bexE, goal_cases)
    case (1 requested p e)
    then have "(demo_key demo_batch_id, p) \<in> (dependency_edges demo_host demo_archive)\<^sup>*" by simp
    from demo_vote [OF demo_reach [OF this]] 1(4) show ?case by (metis Inl_Inr_False)
  next
    case (2 requested vote encoded ix)
    have "net_submit demo_net [] ix None = Inr ''signature''" by (simp add: demo_net_def)
    with 2 demo_proof show ?case by (intro exI conjI) (assumption, simp, simp)
  qed
qed

end
