(* ===== verification/Workflows.thy ===== *)
theory Workflows
  imports ClientProof
begin

text \<open>
  \<open>examples/archive-usage.ts\<close> and \<open>examples/sdk-usage.ts\<close>: the workflows the repository gives its
  users, which put the client, the archive operations and the codec together, and what their
  composition guarantees.
\<close>

section \<open>Archive workflows\<close>

text \<open>The object \<open>registerAndBranch\<close> returns; \<open>Object.keys(...)[0]\<close> is \<open>undefined\<close> on an empty
  object.\<close>

record branched_archive =
  br_signatures :: "string list"
  br_archive :: hash_archive
  br_json :: string
  br_originalPda :: "string option"

definition first_key :: "'v object \<Rightarrow> string option" where
  "first_key obj = (case keys obj of [] \<Rightarrow> None | k # _ \<Rightarrow> Some k)"

definition registerAndBranch :: "host \<Rightarrow> net \<Rightarrow> program \<Rightarrow> bytes \<Rightarrow> bytes \<Rightarrow> branched_archive client" where
  "registerAndBranch H N program bytes updated =
     (let hash = sha256 H bytes in
     bindC (register H N program (JBytes hash) None) (\<lambda>initial.
     bindC (pureC (deriveGenesisHashId H (JBytes hash))) (\<lambda>genesisId.
     bindC (branch H N program (JBytes genesisId) (JBytes (sha256 H updated)) False None) (\<lambda>child.
     bindC (pureC (mergeArchives H (archive_value (res_archive initial)) [archive_value (res_archive child)])) (\<lambda>archive.
     bindC (pureC (stringifyArchive H (archive_value archive))) (\<lambda>json.
     returnC \<lparr>br_signatures = [res_signature initial, res_signature child], br_archive = archive, br_json = json,
       br_originalPda = first_key (arch_nodes (res_archive initial))\<rparr>))))))"

definition previewRestore ::
  "host \<Rightarrow> net \<Rightarrow> program \<Rightarrow> plans \<Rightarrow> string \<Rightarrow> string \<Rightarrow> event list \<Rightarrow> planned" where
  "previewRestore H N program prepared json targetPda t =
     (case parseArchive H (JString json) of
        Inl e \<Rightarrow> Some (Inl (Plain e), prepared, t)
      | Inr archive \<Rightarrow> planRestore H N program prepared (archive_value archive)
          \<lparr>ropt_targets = [targetPda], ropt_anchor = None, ropt_createAccounts = None\<rparr> None t)"

definition appendReceipt :: "host \<Rightarrow> string \<Rightarrow> jsval \<Rightarrow> string result" where
  "appendReceipt H savedJson newNodeArchive =
     bindE (parseArchive H (JString savedJson)) (\<lambda>saved.
     bindE (mergeArchives H (archive_value saved) [newNodeArchive]) (\<lambda>merged.
     stringifyArchive H (archive_value merged)))"

section \<open>File workflows\<close>

text \<open>What \<open>registerFile\<close> and \<open>branchFromFile\<close> return extends the result of the creation.\<close>

record registered_file = creation_result +
  rf_fileHash :: bytes
  rf_hashId :: bytes
  rf_address :: bytes
  rf_createdAt :: string
  rf_source :: hash_source

definition registerFile :: "host \<Rightarrow> net \<Rightarrow> program \<Rightarrow> bytes \<Rightarrow> registered_file client" where
  "registerFile H N program bytes =
     (let fileHash = sha256 H bytes in
     bindC (pureC (deriveGenesisHashId H (JBytes fileHash))) (\<lambda>hashId.
     bindC (register H N program (JBytes fileHash) None) (\<lambda>created.
     bindC (fetchHashAccount H N program (JBytes hashId)) (\<lambda>fetched.
     case fetched of
       None \<Rightarrow> throwC (Plain (Error ''Registered hash record was not found''))
     | Some record \<Rightarrow>
         bindC (pureC (hashPda H program (JBytes hashId))) (\<lambda>address.
         bindC (pureC (valueString H (account_field record ''createdAt''))) (\<lambda>createdAt.
         bindC (pureC (decodeHashSource H (account_field record ''source''))) (\<lambda>source.
         returnC \<lparr>res_signature = res_signature created, res_archive = res_archive created, rf_fileHash = fileHash,
           rf_hashId = hashId, rf_address = address, rf_createdAt = createdAt, rf_source = source\<rparr>)))))))"

record branched_file = creation_result +
  bf_childId :: bytes
  bf_parentId :: bytes
  bf_proof :: "restore_proof_input list"

text \<open>The two links of the returned proof: the child, which becomes the anchor, and its parent.\<close>

definition branch_proof ::
  "jsval \<Rightarrow> hash_source \<Rightarrow> jsval \<Rightarrow> hash_source \<Rightarrow> hash_kind \<Rightarrow> restore_proof_input list" where
  "branch_proof child childSource parent parentSource parentKind =
     [\<lparr>link_hash = account_field child ''hash'', link_source = childSource,
        link_createdAt = account_field child ''createdAt'',
        link_params = Some (PBranch \<lparr>fp_hash = account_field parent ''hash'',
          fp_sourceKind = jint (int (kind_number parentKind)), fp_createdAt = account_field parent ''createdAt'',
          fp_generation = JBigInt 0\<rparr>)\<rparr>,
      \<lparr>link_hash = account_field parent ''hash'', link_source = parentSource,
        link_createdAt = account_field parent ''createdAt'',
        link_params = Some (PHash (account_field parent ''hash''))\<rparr>]"

definition branchFromFile :: "host \<Rightarrow> net \<Rightarrow> program \<Rightarrow> jsval \<Rightarrow> jsval \<Rightarrow> branched_file client" where
  "branchFromFile H N program parentId payload =
     bindC (fetchHashAccount H N program parentId) (\<lambda>fetchedParent.
     case fetchedParent of
       None \<Rightarrow> throwC (Plain (Error ''Parent hash record was not found''))
     | Some parent \<Rightarrow>
     bindC (pureC (decodeHashSource H (account_field parent ''source''))) (\<lambda>parentSource.
     if source_kind parentSource \<noteq> KHash then throwC (Plain (Error ''This example requires a raw Hash parent''))
     else
     bindC (pureC (hashSourceKindOf (source_object parentSource))) (\<lambda>parentKind.
     bindC (pureC (deriveBranchHash H parentId (account_field parent ''createdAt'') (JBigInt 0)
       (jint (int (kind_number parentKind))) payload)) (\<lambda>childHash.
     bindC (pureC (deriveBranchHashId H (JBytes childHash))) (\<lambda>childId.
     bindC (branch H N program parentId payload False None) (\<lambda>created.
     bindC (fetchHashAccount H N program (JBytes childId)) (\<lambda>fetchedChild.
     case fetchedChild of
       None \<Rightarrow> throwC (Plain (Error ''Branch hash record was not found''))
     | Some child \<Rightarrow>
     bindC (pureC (decodeHashSource H (account_field child ''source''))) (\<lambda>childSource.
     bindC (pureC (canonicalHashId H (account_field parent ''hash'') (source_object parentSource))) (\<lambda>canonicalParentId.
     returnC \<lparr>res_signature = res_signature created, res_archive = res_archive created, bf_childId = childId,
       bf_parentId = canonicalParentId, bf_proof = branch_proof child childSource parent parentSource parentKind\<rparr>)))))))))"

section \<open>Logs that only grow\<close>

text \<open>
  A client that persists what it receives: \<open>append\<close> extends a state by a receipt, \<open>leq s u\<close> says
  that \<open>u\<close> contains all of \<open>s\<close>, and \<open>covers u r\<close> that it contains the receipt. Appending
  yields a state that contains both, and succeeds below any state that does.
\<close>

locale receipt_log =
  fixes valid :: "'s \<Rightarrow> bool" and append :: "'s \<Rightarrow> 'r \<Rightarrow> 'e + 's"
    and leq :: "'s \<Rightarrow> 's \<Rightarrow> bool" and covers :: "'s \<Rightarrow> 'r \<Rightarrow> bool"
  assumes leq_refl: "valid s \<Longrightarrow> leq s s"
    and leq_trans: "leq s t \<Longrightarrow> leq t u \<Longrightarrow> leq s u"
    and covers_mono: "covers s r \<Longrightarrow> leq s u \<Longrightarrow> covers u r"
    and append_grows: "valid s \<Longrightarrow> append s r = Inr s' \<Longrightarrow> valid s' \<and> leq s s' \<and> covers s' r"
    and append_bounded: "valid s \<Longrightarrow> valid u \<Longrightarrow> leq s u \<Longrightarrow> covers u r \<Longrightarrow>
      \<exists>s'. append s r = Inr s' \<and> leq s' u"
begin

lemma appends_grow:
  "valid s \<Longrightarrow> foldE append s rs = Inr u \<Longrightarrow> valid u \<and> leq s u \<and> (\<forall>r \<in> set rs. covers u r)"
proof (induction rs arbitrary: s)
  case Nil
  then show ?case by (simp add: leq_refl)
next
  case (Cons r rs)
  then obtain s' where s': "append s r = Inr s'" "foldE append s' rs = Inr u" by auto
  with append_grows [OF Cons.prems(1) s'(1)] Cons.IH [of s'] show ?case
    using leq_trans covers_mono by auto
qed

lemma appends_bounded:
  "valid s \<Longrightarrow> valid u \<Longrightarrow> leq s u \<Longrightarrow> \<forall>r \<in> set rs. covers u r \<Longrightarrow>
     \<exists>s'. foldE append s rs = Inr s' \<and> leq s' u"
proof (induction rs arbitrary: s)
  case (Cons r rs)
  obtain s' where s': "append s r = Inr s'" "leq s' u"
    using append_bounded [OF Cons.prems(1-3), of r] Cons.prems(4) by auto
  with append_grows [OF Cons.prems(1) s'(1)] Cons.IH [of s'] Cons.prems show ?case by simp
qed simp

text \<open>So the receipts can come in any order, and any number of times.\<close>

lemma appends_order:
  assumes "valid s" "foldE append s rs = Inr u" "set rs' = set rs"
  shows "\<exists>u'. foldE append s rs' = Inr u' \<and> valid u' \<and> leq u u' \<and> leq u' u"
proof -
  note u = appends_grow [OF assms(1,2)]
  obtain u' where u': "foldE append s rs' = Inr u'" "leq u' u"
    using appends_bounded [of s u rs'] assms(1,3) u by auto
  note v = appends_grow [OF assms(1) u'(1)]
  obtain w where "foldE append s rs = Inr w" "leq w u'"
    using appends_bounded [of s u' rs] assms(1,3) v by auto
  with assms(2) u' v show ?thesis by auto
qed

end

section \<open>Appending receipts\<close>

lemma sort_nodes_programId [simp]: "arch_programId (sort_nodes H a) = arch_programId a"
  by (simp add: sort_nodes_def)

lemma part_of_sort:
  assumes "distinct (keys (arch_nodes a))"
  shows "part_of a (sort_nodes H a)" "part_of (sort_nodes H a) a"
proof -
  have "mset (arch_nodes (sort_nodes H a)) = mset (arch_nodes a)" by (simp add: sort_nodes_def)
  then have "get (arch_nodes (sort_nodes H a)) p = get (arch_nodes a) p" for p
    using get_mset [of "arch_nodes a" "arch_nodes (sort_nodes H a)" p] assms by simp
  moreover from \<open>mset _ = _\<close> have "mset (keys (arch_nodes (sort_nodes H a))) = mset (keys (arch_nodes a))"
    by (simp add: mset_map)
  then have "distinct (keys (arch_nodes (sort_nodes H a)))"
    using assms by (metis mset_eq_imp_distinct_iff)
  ultimately show "part_of a (sort_nodes H a)" "part_of (sort_nodes H a) a"
    using assms by (auto simp: part_of_def)
qed

lemma stringify_wf:
  assumes "host_ok H" "wf_archive H a"
  obtains json where "stringifyArchive H (archive_value a) = Inr json"
    "parseArchive H (JString json) = Inr (sort_nodes H a)"
proof -
  obtain json where "stringifyArchive H (archive_value a) = Inr json"
    by (simp add: stringifyArchive_def parseArchive_value [OF assms] Let_def)
  with parse_stringify [OF assms(1) this] that show thesis
    by (simp add: parseArchive_value [OF assms])
qed

text \<open>A saved json is a part of another if the archives they decode to are.\<close>

definition saved_text :: "host \<Rightarrow> string \<Rightarrow> bool" where
  "saved_text H s \<longleftrightarrow> host_ok H \<and> (\<exists>a. parseArchive H (JString s) = Inr a)"

definition text_part :: "host \<Rightarrow> string \<Rightarrow> string \<Rightarrow> bool" where
  "text_part H s u \<longleftrightarrow> (\<exists>a b. parseArchive H (JString s) = Inr a \<and> parseArchive H (JString u) = Inr b \<and> part_of a b)"

definition text_covers :: "host \<Rightarrow> string \<Rightarrow> jsval \<Rightarrow> bool" where
  "text_covers H u x \<longleftrightarrow> (\<exists>a b. parseArchive H x = Inr a \<and> parseArchive H (JString u) = Inr b \<and> part_of a b)"

lemma appendReceipt_run:
  assumes "host_ok H" "parseArchive H (JString s) = Inr a" "parseArchive H x = Inr b"
    and "mergeArchives H (archive_value a) [x] = Inr c"
  obtains json where "appendReceipt H s x = Inr json" "parseArchive H (JString json) = Inr (sort_nodes H c)"
    "part_of a (sort_nodes H c)" "part_of b (sort_nodes H c)"
proof -
  have a: "parseArchive H (archive_value a) = Inr a"
    by (rule parseArchive_value [OF assms(1) parseArchive_wf [OF assms(1,2)]])
  have wf: "wf_archive H c" by (rule merge_two_wf [OF assms(1,4)])
  then have d: "distinct (keys (arch_nodes c))" by (simp add: wf_archive_def)
  obtain json where "stringifyArchive H (archive_value c) = Inr json"
    "parseArchive H (JString json) = Inr (sort_nodes H c)"
    by (rule stringify_wf [OF assms(1) wf])
  with that show thesis
    using assms(2,4) union_parts [OF assms(1) a assms(3,4)] part_of_trans part_of_sort(1) [OF d]
    by (simp add: appendReceipt_def)
qed

lemma appendReceipt_split:
  assumes "appendReceipt H s x = Inr json"
  obtains a b c where "parseArchive H (JString s) = Inr a" "parseArchive H x = Inr b"
    "mergeArchives H (archive_value a) [x] = Inr c"
proof -
  obtain a c where a: "parseArchive H (JString s) = Inr a" "mergeArchives H (archive_value a) [x] = Inr c"
    using assms by (auto simp: appendReceipt_def)
  then obtain b where "parseArchive H x = Inr b"
    by (auto simp: mergeArchives_def merge_archive_def)
  with a that show thesis by blast
qed

interpretation receipts: receipt_log "saved_text H" "appendReceipt H" "text_part H" "text_covers H" for H
proof
  show "text_part H s s" if "saved_text H s" for s
    using that parseArchive_wf by (auto simp: saved_text_def text_part_def wf_archive_def)
  show "text_part H s u" if "text_part H s t" "text_part H t u" for s t u
    using that part_of_trans by (auto simp: text_part_def)
  show "text_covers H u x" if "text_covers H s x" "text_part H s u" for s u x
    using that part_of_trans by (auto simp: text_covers_def text_part_def)
next
  fix s s' x
  assume s: "saved_text H s" and run: "appendReceipt H s x = Inr s'"
  obtain a b c where "parseArchive H (JString s) = Inr a" "parseArchive H x = Inr b"
    "mergeArchives H (archive_value a) [x] = Inr c"
    by (rule appendReceipt_split [OF run])
  with s run show "saved_text H s' \<and> text_part H s s' \<and> text_covers H s' x"
    by (auto simp: saved_text_def text_part_def text_covers_def elim: appendReceipt_run)
next
  fix s u x
  assume s: "saved_text H s" and u: "saved_text H u" and leq: "text_part H s u" and cov: "text_covers H u x"
  obtain a b d where p: "parseArchive H (JString s) = Inr a" "parseArchive H (JString u) = Inr d"
    "parseArchive H x = Inr b" "part_of a d" "part_of b d" and ok: "host_ok H"
    using s leq cov by (auto simp: saved_text_def text_part_def text_covers_def)
  have a: "parseArchive H (archive_value a) = Inr a"
    by (rule parseArchive_value [OF ok parseArchive_wf [OF ok p(1)]])
  obtain c where c: "mergeArchives H (archive_value a) [x] = Inr c" "part_of c d"
    using merge_parts [OF ok a p(3) parseArchive_wf [OF ok p(2)] p(4,5)] by blast
  have "part_of (sort_nodes H c) c"
    using part_of_sort(2) merge_two_wf [OF ok c(1)] by (simp add: wf_archive_def)
  then have "part_of (sort_nodes H c) d" using c(2) part_of_trans by blast
  then show "\<exists>s'. appendReceipt H s x = Inr s' \<and> text_part H s' u"
    using appendReceipt_run [OF ok p(1,3) c(1)] p(2) unfolding text_part_def by metis
qed

lemma part_of_antisym:
  assumes "part_of a b" "part_of b a"
  shows "arch_programId a = arch_programId b \<and> mset (arch_nodes a) = mset (arch_nodes b)"
proof -
  have same: "get (arch_nodes a) p = get (arch_nodes b) p" for p
    using assms entry_join.join_antisym unfolding part_of_iff_join by blast
  have d: "distinct (keys (arch_nodes a))" "distinct (keys (arch_nodes b))"
    using assms by (simp_all add: part_of_def)
  have "(p, n) \<in> set (arch_nodes a) \<longleftrightarrow> (p, n) \<in> set (arch_nodes b)" for p n
    using same [of p] map_of_eq_Some_iff [OF d(1)] map_of_eq_Some_iff [OF d(2)] unfolding get_def by metis
  then have "set (arch_nodes a) = set (arch_nodes b)" by auto
  moreover have "distinct (arch_nodes a)" "distinct (arch_nodes b)" using d by (simp_all add: distinct_map)
  ultimately have "mset (arch_nodes a) = mset (arch_nodes b)" by (simp add: set_eq_iff_mset_eq_distinct)
  with assms show ?thesis by (simp add: part_of_def)
qed

lemma text_part_mset:
  assumes "text_part H u v" "text_part H v u"
  shows "\<exists>b c. parseArchive H (JString u) = Inr b \<and> parseArchive H (JString v) = Inr c \<and>
    arch_programId c = arch_programId b \<and> mset (arch_nodes c) = mset (arch_nodes b)"
proof -
  obtain b c where bc: "parseArchive H (JString u) = Inr b" "parseArchive H (JString v) = Inr c" "part_of b c"
    using assms(1) unfolding text_part_def by blast
  moreover have "part_of c b" using assms(2) bc(1,2) by (simp add: text_part_def)
  ultimately show ?thesis using part_of_antisym [of c b] by blast
qed

text \<open>C13: the order in which receipts are appended to a saved archive, and their repetition, do not
  matter. If appending a list of receipts succeeds, appending the same receipts in any other order succeeds
  too, and the two texts decode to archives with the same nodes; these contain everything that was saved
  and everything in each receipt.\<close>

theorem appendReceipt_order:
  assumes "host_ok H" "parseArchive H (JString saved) = Inr a"
    and "foldE (appendReceipt H) saved received = Inr json" "set received' = set received"
  shows "\<exists>json' b c. foldE (appendReceipt H) saved received' = Inr json' \<and>
    parseArchive H (JString json) = Inr b \<and> parseArchive H (JString json') = Inr c \<and>
    arch_programId c = arch_programId b \<and> mset (arch_nodes c) = mset (arch_nodes b) \<and> part_of a b \<and>
    (\<forall>x \<in> set received. \<exists>r. parseArchive H x = Inr r \<and> part_of r b)"
proof -
  have s: "saved_text H saved" using assms(1,2) by (simp add: saved_text_def)
  obtain json' where json': "foldE (appendReceipt H) saved received' = Inr json'"
    "text_part H json json'" "text_part H json' json"
    using receipts.appends_order [OF s assms(3,4)] by blast
  obtain b c where "parseArchive H (JString json) = Inr b" "parseArchive H (JString json') = Inr c"
    "arch_programId c = arch_programId b" "mset (arch_nodes c) = mset (arch_nodes b)"
    using text_part_mset [OF json'(2,3)] by blast
  moreover have "part_of a b \<and> (\<forall>x \<in> set received. \<exists>r. parseArchive H x = Inr r \<and> part_of r b)"
    using receipts.appends_grow [OF s assms(3)] assms(2) calculation(1) by (simp add: text_part_def text_covers_def)
  ultimately show ?thesis using json'(1) by blast
qed

lemma demo_appended:
  "\<exists>saved json. parseArchive demo_host (JString saved) = Inr (sort_nodes demo_host demo_partial) \<and>
     foldE (appendReceipt demo_host) saved [archive_value demo_bare, archive_value demo_archive] = Inr json"
proof -
  obtain saved where saved: "parseArchive demo_host (JString saved) = Inr (sort_nodes demo_host demo_partial)"
    by (rule stringify_wf [OF demo_host_ok demo_archives_wf(2)])
  obtain top where top: "parseArchive demo_host (JString top) = Inr (sort_nodes demo_host demo_archive)"
    by (rule stringify_wf [OF demo_host_ok demo_archives_wf(1)])
  have d: "distinct (keys (arch_nodes demo_archive))" "distinct (keys (arch_nodes demo_partial))"
    using demo_archives_wf by (simp_all add: wf_archive_def)
  have "part_of demo_partial (sort_nodes demo_host demo_archive)" "part_of demo_bare (sort_nodes demo_host demo_archive)"
    using demo_parts part_of_sort(1) [OF d(1)] part_of_trans by blast+
  moreover have "part_of (sort_nodes demo_host demo_partial) (sort_nodes demo_host demo_archive)"
    using calculation(1) part_of_sort(2) [OF d(2)] part_of_trans by blast
  ultimately have "\<exists>json. foldE (appendReceipt demo_host) saved [archive_value demo_bare, archive_value demo_archive] = Inr json \<and>
      text_part demo_host json top"
    using saved top part_of_sort(1) [OF d(1)]
    by (intro receipts.appends_bounded) (auto simp: saved_text_def text_part_def text_covers_def demo_parsed simp del: foldE.simps)
  with saved show ?thesis by blast
qed

text \<open>The partial archive, then its missing parts in both orders.\<close>

theorem appendReceipt_order_witness:
  "\<exists>saved json json' b c.
    foldE (appendReceipt demo_host) saved [archive_value demo_bare, archive_value demo_archive] = Inr json \<and>
    foldE (appendReceipt demo_host) saved [archive_value demo_archive, archive_value demo_bare] = Inr json' \<and>
    parseArchive demo_host (JString json) = Inr b \<and> parseArchive demo_host (JString json') = Inr c \<and>
    mset (arch_nodes c) = mset (arch_nodes b)"
proof -
  obtain saved json where run: "parseArchive demo_host (JString saved) = Inr (sort_nodes demo_host demo_partial)"
      "foldE (appendReceipt demo_host) saved [archive_value demo_bare, archive_value demo_archive] = Inr json"
    using demo_appended by blast
  have "set [archive_value demo_archive, archive_value demo_bare] = set [archive_value demo_bare, archive_value demo_archive]"
    by auto
  from appendReceipt_order [OF demo_host_ok run this] run(2) show ?thesis by blast
qed

section \<open>A record and its branch\<close>

lemma creation_node:
  assumes "host_ok H" "length (prog_id program) = 32" "length h = 32"
    and "submitCreation H N program ix draft payer t = (Inr result, t')"
    and "pend_hash draft = hex_of_bytes h" "source_texts H (pend_source draft)"
    and "hashPda H program (JBytes (sha256 H (canonical_frame h (archive_kind (pend_source draft))))) = Inr address"
  obtains m slot where "t' = t @ [ESubmit ix payer, EConfirm (res_signature result), EAccountInfo address (Some slot)]"
    "res_archive result = \<lparr>arch_programId = toBase58 H (prog_id program), arch_nodes = [(toBase58 H address, m)]\<rparr>"
    "node_hash m = hex_of_bytes h" "node_source m = pend_source draft"
    "parseArchive H (archive_value (res_archive result)) = Inr (res_archive result)"
proof -
  obtain m slot where "t' = t @ [ESubmit ix payer, EConfirm (res_signature result), EAccountInfo address (Some slot)]"
    "arch_nodes (res_archive result) = [(toBase58 H address, m)]" "node_hash m = hex_of_bytes h"
    "node_source m = pend_source draft"
    using creation_at [OF assms] by blast
  moreover have "arch_programId (res_archive result) = toBase58 H (prog_id program)"
    "parseArchive H (archive_value (res_archive result)) = Inr (res_archive result)"
    using creation_captured [OF assms(1,2,4)] by blast+
  ultimately show thesis using that by (cases "res_archive result") auto
qed

lemma register_node:
  assumes "host_ok H" "length (prog_id program) = 32" "register H N program (JBytes h) payer t = (Inr result, t')" "length h = 32"
  obtains ix address m slot where
    "t' = t @ [ESubmit ix payer, EConfirm (res_signature result), EAccountInfo address (Some slot)]"
    "res_archive result = \<lparr>arch_programId = toBase58 H (prog_id program), arch_nodes = [(toBase58 H address, m)]\<rparr>"
    "node_hash m = hex_of_bytes h" "node_source m = AHash"
    "parseArchive H (archive_value (res_archive result)) = Inr (res_archive result)"
    "hashPda H program (JBytes (sha256 H (canonical_frame h KHash))) = Inr address"
proof (rule register_split [OF assms(3)])
  fix h' address voteKey
  assume h: "to32Bytes H (JBytes h) = Inr h'" "length h' = 32"
      "hashPda H program (JBytes (sha256 H (canonical_frame h' KHash))) = Inr address"
    and run: "submitCreation H N program \<lparr>ix_call = IxRegister h', ix_accounts = [(''hashAccount'', address), (''voteInfo'', voteKey),
        (''user'', instructionPayer program payer), (''systemProgram'', SYSTEM_PROGRAM)], ix_remaining = []\<rparr>
      \<lparr>pend_hash = hex_of_bytes h', pend_source = AHash, pend_members = None, pend_snapshot = None\<rparr> payer t = (Inr result, t')"
  have "h' = h" using h(1) assms(4) by simp
  show thesis
    by (rule creation_node [OF assms(1,2) h(2) run, where address = address])
      (use h(3) \<open>h' = h\<close> that in \<open>simp_all add: source_texts_def del: hex_of_bytes.simps\<close>)
qed

lemma branch_node:
  assumes "host_ok H" "length (prog_id program) = 32"
    and "branch H N program (JBytes i) (JBytes q) takeVote payer t = (Inr result, t')" "length i = 32" "length q = 32"
  obtains es ix address m slot g where "list_all reading es"
    "t' = t @ es @ [ESubmit ix payer, EConfirm (res_signature result), EAccountInfo address (Some slot)]"
    "res_archive result = \<lparr>arch_programId = toBase58 H (prog_id program), arch_nodes = [(toBase58 H address, m)]\<rparr>"
    "node_source m = ABranch (hex_of_bytes i) (hex_of_bytes q) g"
    "parseArchive H (archive_value (res_archive result)) = Inr (res_archive result)"
proof (rule branch_split [OF assms(1,3)])
  fix old q' oldPda account u h newPda newVote oldVote and parent :: parent_metadata
  assume args: "to32Bytes H (JBytes i) = Inr old" "to32Bytes H (JBytes q) = Inr q'"
    and fetch: "fetchHashAccount H N program (JBytes old) t = (Inr (Some account), u)"
    and len: "length h = 32" and newPda: "hashPda H program (JBytes (sha256 H (canonical_frame h KBranch))) = Inr newPda"
    and run: "submitCreation H N program \<lparr>ix_call = IxBranch q' takeVote, ix_accounts = [(''hashAccount'', oldPda),
        (''newHashAccount'', newPda), (''voteInfo'', oldVote), (''newVoteInfo'', newVote),
        (''user'', instructionPayer program payer), (''systemProgram'', SYSTEM_PROGRAM)], ix_remaining = []\<rparr>
      \<lparr>pend_hash = hex_of_bytes h, pend_source = ABranch (hex_of_bytes old) (hex_of_bytes q')
          (int_to_decimal (parent_generation parent + 1)), pend_members = None, pend_snapshot = None\<rparr> payer u = (Inr result, t')"
  obtain es where es: "u = t @ es" "list_all reading es" using emitsD [OF emits_fetch fetch] by blast
  have same: "old = i" "q' = q" using args assms(4,5) by simp_all
  have "hash_text (hex_of_bytes i)" "hash_text (hex_of_bytes q)"
    using assms(4,5) by (simp_all add: hash_textI del: hex_of_bytes.simps)
  then have texts: "source_texts H (ABranch (hex_of_bytes old) (hex_of_bytes q') (int_to_decimal (parent_generation parent + 1)))"
    by (simp add: source_texts_def same del: hex_of_bytes.simps)
  obtain m slot where m: "t' = u @ [ESubmit \<lparr>ix_call = IxBranch q' takeVote, ix_accounts = [(''hashAccount'', oldPda),
        (''newHashAccount'', newPda), (''voteInfo'', oldVote), (''newVoteInfo'', newVote),
        (''user'', instructionPayer program payer), (''systemProgram'', SYSTEM_PROGRAM)], ix_remaining = []\<rparr> payer,
        EConfirm (res_signature result), EAccountInfo newPda (Some slot)]"
    "res_archive result = \<lparr>arch_programId = toBase58 H (prog_id program), arch_nodes = [(toBase58 H newPda, m)]\<rparr>"
    "node_source m = ABranch (hex_of_bytes i) (hex_of_bytes q) (int_to_decimal (parent_generation parent + 1))"
    "parseArchive H (archive_value (res_archive result)) = Inr (res_archive result)"
    by (rule creation_node [OF assms(1,2) len run, where address = newPda])
      (use newPda texts same in \<open>simp_all del: hex_of_bytes.simps\<close>)
  show thesis
    by (rule that [OF es(2) _ m(2,3,4)]) (simp add: m(1) es(1))
qed

text \<open>An archive of a raw hash and a branch of it: the branch depends on the hash alone, so its
  generation and its hash are what the protocol derives from the archived parent.\<close>

lemma branched_pair:
  assumes "host_ok H" "wf_archive H c" "arch_nodes c = [(p, m), (q, n)]" "p \<noteq> q"
    and "node_source m = AHash" "node_source n = ABranch (hex_of_bytes (node_id H m)) payload g"
  shows "nodeDependencies H c n = Inr (Some [p])" "g = ''1''"
    and "node_hash n = hex_of_bytes (branch_digest H m payload)"
    and "inspectArchive H (archive_value c) =
      Inr \<lparr>insp_complete = True, insp_missingNodes = [], insp_missingWitnesses = []\<rparr>"
proof -
  have get: "get (arch_nodes c) p = Some m" "get (arch_nodes c) q = Some n" using assms(3,4) by (simp_all add: get_def)
  note addr = node_address [OF assms(2) get(1) assms(1)]
  have wfn: "wf_node H n" by (rule node_address(3) [OF assms(2) get(2) assms(1)])
  have id: "length (node_id H m) = 32" by (simp add: node_id_def sha256_length assms(1))
  have "key_text H (arch_programId c)" using assms(2) by (simp add: wf_archive_def)
  moreover from this have "publicKeyOf H (arch_programId c) = Inr (key_bytes H (arch_programId c))"
    by (simp add: key_textD(3) [OF assms(1)])
  ultimately show deps: "nodeDependencies H c n = Inr (Some [p])"
    using addr(1,2) id by (auto simp: nodeDependencies_def assms(6) node_pda_def deriveHashPda_def simp del: hex_of_bytes.simps)
  have present: "present_deps H c n = Some [m]" using deps get(1) by (simp add: present_deps_def)
  obtain i where i: "inspectArchiveGraph H c = Inr i" using assms(2) by (auto simp: wf_archive_def)
  have com: "commits H c q n" using i assms(3) by (simp add: inspectArchiveGraph_ok)
  have nodes: "wf_nodes H c" by (rule wf_archive_nodes [OF assms(2)])
  from com have gen: "generation_ok H c n" and digest: "commitment H c n = Some e \<longrightarrow> node_hash n = hex_of_bytes e" for e
    unfolding commits_wf [OF assms(1) nodes wfn] by auto
  show "node_hash n = hex_of_bytes (branch_digest H m payload)"
    using digest present by (simp add: commitment_def assms(6) del: hex_of_bytes.simps)
  obtain k where k: "g = int_to_decimal k" using wfn by (auto simp: wf_node_def assms(6) decimal_field_def)
  have "node_generation n = 1"
    using gen present assms(5) by (simp add: generation_ok_def assms(6)) (simp add: node_generation_def)
  then have "k = 1" by (simp add: node_generation_def assms(6) k decimal_value_def)
  then show "g = ''1''" using plain_decimal [of 1] by (simp add: k digit_char_def)
  have "nodeDependencies H c m = Inr (Some [])" by (simp add: nodeDependencies_def assms(5))
  then have "inspection_of H c = \<lparr>insp_complete = True, insp_missingNodes = [], insp_missingWitnesses = []\<rparr>"
    using deps by (simp add: inspection_of_def assms(3,5,6) known_deps_def node_gaps_def add_missing_def get_def)
  with i show "inspectArchive H (archive_value c) =
      Inr \<lparr>insp_complete = True, insp_missingNodes = [], insp_missingWitnesses = []\<rparr>"
    by (simp add: inspectArchive_def parseArchive_value [OF assms(1,2)] inspectArchiveGraph_ok)
qed

text \<open>Merging a one-node archive of a raw hash with one of another kind of record keeps both.\<close>

lemma merge_pair:
  assumes "host_ok H" "parseArchive H x = Inr \<lparr>arch_programId = i, arch_nodes = [(p, m)]\<rparr>"
    and "parseArchive H y = Inr \<lparr>arch_programId = i, arch_nodes = [(q, n)]\<rparr>"
    and "mergeArchives H x [y] = Inr c" "node_source m \<noteq> node_source n"
  shows "p \<noteq> q \<and> c = \<lparr>arch_programId = i, arch_nodes = [(p, m), (q, n)]\<rparr>"
proof -
  have c: "arch_programId c = i" "keys (arch_nodes c) = [p] @ filter (\<lambda>r. r \<notin> {p}) [q]"
    "\<And>r. lift_join node_join (get [(p, m)] r) (get [(q, n)] r) = Some (get (arch_nodes c) r)"
    using assms(4) unfolding merge_parsed [OF assms(1-3)] union_of_def by simp_all
  have "p \<noteq> q"
  proof
    assume "p = q"
    with c(3) [of p] obtain k where "node_join m n = Some k" by (cases "node_join m n") (auto simp: get_def)
    with assms(5) show False by (simp add: node_join_Some)
  qed
  with c(3) [of p] c(3) [of q] have "get (arch_nodes c) p = Some m" "get (arch_nodes c) q = Some n"
    by (simp_all add: get_def)
  with c(1,2) \<open>p \<noteq> q\<close> show ?thesis
    by (cases c) (auto simp: get_def map_eq_Cons_conv split: if_splits)
qed

text \<open>A successful run, and the events of its two transactions.\<close>

lemma register_and_branch:
  assumes "host_ok H" "length (prog_id program) = 32" "registerAndBranch H N program bytes updated t = (Inr r, t')"
  obtains m n p q es ix ix' address slot address' slot' where "p \<noteq> q" "br_originalPda r = Some p"
    "br_archive r = \<lparr>arch_programId = toBase58 H (prog_id program), arch_nodes = [(p, m), (q, n)]\<rparr>"
    "node_hash m = hex_of_bytes (sha256 H bytes)" "node_source m = AHash"
    "node_source n = ABranch (hex_of_bytes (node_id H m)) (hex_of_bytes (sha256 H updated)) ''1''"
    "node_hash n = hex_of_bytes (branch_digest H m (hex_of_bytes (sha256 H updated)))"
    "wf_archive H (br_archive r)" "nodeDependencies H (br_archive r) n = Inr (Some [p])"
    "inspectArchive H (archive_value (br_archive r)) =
      Inr \<lparr>insp_complete = True, insp_missingNodes = [], insp_missingWitnesses = []\<rparr>"
    "stringifyArchive H (archive_value (br_archive r)) = Inr (br_json r)"
    "list_all reading es" "length (br_signatures r) = 2"
    "t' = t @ [ESubmit ix None, EConfirm (hd (br_signatures r)), EAccountInfo address (Some slot)] @ es @
      [ESubmit ix' None, EConfirm (last (br_signatures r)), EAccountInfo address' (Some slot')]"
proof -
  let ?h = "sha256 H bytes" and ?q = "sha256 H updated"
  have len: "length ?h = 32" "length ?q = 32" by (simp_all add: sha256_length assms(1))
  let ?id = "sha256 H (canonical_frame ?h KHash)"
  have genesis: "deriveGenesisHashId H (JBytes ?h) = Inr ?id" using len(1) by simp
  obtain initial child archive u
    where reg: "register H N program (JBytes ?h) None t = (Inr initial, u)"
    and bra: "branch H N program (JBytes ?id) (JBytes ?q) False None u = (Inr child, t')"
    and mer: "mergeArchives H (archive_value (res_archive initial)) [archive_value (res_archive child)] = Inr archive"
    and json: "stringifyArchive H (archive_value archive) = Inr (br_json r)"
    and r: "br_signatures r = [res_signature initial, res_signature child]" "br_archive r = archive"
      "br_originalPda r = first_key (arch_nodes (res_archive initial))"
    using assms(3) by (auto simp: registerAndBranch_def Let_def client_ok genesis simp del: hex_of_bytes.simps)
  obtain ix address m slot where m: "u = t @ [ESubmit ix None, EConfirm (res_signature initial), EAccountInfo address (Some slot)]"
    "res_archive initial = \<lparr>arch_programId = toBase58 H (prog_id program), arch_nodes = [(toBase58 H address, m)]\<rparr>"
    "node_hash m = hex_of_bytes ?h" "node_source m = AHash"
    "parseArchive H (archive_value (res_archive initial)) = Inr (res_archive initial)"
    "hashPda H program (JBytes ?id) = Inr address"
    by (rule register_node [OF assms(1,2) reg len(1)])
  obtain es ix' address' n slot' g where n: "list_all reading es"
    "t' = u @ es @ [ESubmit ix' None, EConfirm (res_signature child), EAccountInfo address' (Some slot')]"
    "res_archive child = \<lparr>arch_programId = toBase58 H (prog_id program), arch_nodes = [(toBase58 H address', n)]\<rparr>"
    "node_source n = ABranch (hex_of_bytes ?id) (hex_of_bytes ?q) g"
    "parseArchive H (archive_value (res_archive child)) = Inr (res_archive child)"
    by (rule branch_node [OF assms(1,2) bra _ len(2)]) (simp_all add: sha256_length assms(1))
  have id: "node_id H m = ?id" by (simp add: node_id_def m(3,4) del: hex_of_bytes.simps)
  have c: "toBase58 H address \<noteq> toBase58 H address'"
    "archive = \<lparr>arch_programId = toBase58 H (prog_id program), arch_nodes = [(toBase58 H address, m), (toBase58 H address', n)]\<rparr>"
    using merge_pair [OF assms(1) m(5) [unfolded m(2)] n(5) [unfolded n(3)] mer [unfolded m(2) n(3)]] m(4) n(4) by auto
  have wf: "wf_archive H archive" by (rule merge_two_wf [OF assms(1) mer])
  have nodes: "arch_nodes archive = [(toBase58 H address, m), (toBase58 H address', n)]" by (simp add: c(2))
  note pair = branched_pair [OF assms(1) wf nodes c(1) m(4) n(4) [folded id]]
  show thesis
    by (rule that [OF c(1) _ _ m(3,4) _ pair(3) _ _ _ _ n(1)])
      (use wf pair json r c(2) m(1,2) n(2,4) id in \<open>simp_all add: first_key_def del: hex_of_bytes.simps\<close>)
qed

end
