(* ===== verification/WireProof.thy ===== *)
theory WireProof
  imports Encoding DemoHost
begin

text \<open>
  What is handed to Anchor: every field of an encoded Restore proof fits its width in the IDL,
  and how the amounts of an account snapshot are bounded on the wire and in its digest.
\<close>

section \<open>The widths of the IDL\<close>

definition wire_fingerprint_ok :: "wire_fingerprint \<Rightarrow> bool" where
  "wire_fingerprint_ok f \<longleftrightarrow> key32 (wf_hash f) \<and> wf_sourceKind f < 5 \<and> i64_range (wf_createdAt f) \<and>
     u64_range (wf_generation f)"

definition wire_snapshot_ok :: "wire_snapshot \<Rightarrow> bool" where
  "wire_snapshot_ok s \<longleftrightarrow> key32 (ws_owner s) \<and> u64_range (ws_lamports s) \<and> u64_range (ws_rentEpoch s)"

definition wire_params_ok :: "wire_params \<Rightarrow> bool" where
  "wire_params_ok p = (case p of
      WPHash payload \<Rightarrow> True
    | WPAccount s \<Rightarrow> pred_option wire_snapshot_ok s
    | WPBranch f \<Rightarrow> wire_fingerprint_ok f
    | WPBatch fs \<Rightarrow> list_all wire_fingerprint_ok fs
    | WPPack fs \<Rightarrow> list_all wire_fingerprint_ok fs)"

definition wire_link_ok :: "wire_link \<Rightarrow> bool" where
  "wire_link_ok l \<longleftrightarrow> key32 (wl_hash l) \<and> wire_source_ok (wl_source l) \<and> i64_range (wl_createdAt l) \<and>
     pred_option wire_params_ok (wl_params l)"

lemma clampU64_eq: "clampU64 i = max 0 (min i (2 ^ 64 - 1))"
  by (simp add: clampU64_def Let_def min_def max_def)

lemma clampU64_range: "u64_range (clampU64 i)"
  by (simp add: clampU64_def Let_def u64_range_def)

lemma clampU64_same: "u64_range i \<Longrightarrow> clampU64 i = i"
  by (simp add: clampU64_def Let_def u64_range_def)

lemma encodeFingerprint_wf: "encodeFingerprint H f = Inr w \<Longrightarrow> wire_fingerprint_ok w"
  by (auto simp: encodeFingerprint_def wire_fingerprint_ok_def key32_def to32Bytes_length normalizeSourceKind_def
      kind_number_less asI64_ok asU64_ok)

lemma encodeAccountSnapshot_wf: "encodeAccountSnapshot H (Some s) = Inr w \<Longrightarrow> pred_option wire_snapshot_ok w"
  by (auto simp: encodeAccountSnapshot_def wire_snapshot_ok_def key32_def accountPublicKey_length clampU64_range)

lemma encodeFingerprints_wf: "mapE (encodeFingerprint H) fs = Inr ws \<Longrightarrow> list_all wire_fingerprint_ok ws"
  by (auto simp: list_all_iff dest!: mapE_set intro: encodeFingerprint_wf)

lemma encodeRestoreParameters_wf: "encodeRestoreParameters H p = Inr w \<Longrightarrow> wire_params_ok w"
proof (cases p)
  case (PAccount s)
  then show "encodeRestoreParameters H p = Inr w \<Longrightarrow> wire_params_ok w"
    by (cases s) (auto simp: wire_params_ok_def encodeAccountSnapshot_def [of _ None] dest: encodeAccountSnapshot_wf)
qed (auto simp: wire_params_ok_def intro: encodeFingerprint_wf encodeFingerprints_wf)

lemma encode_link_wf: "encode_link H l = Inr w \<Longrightarrow> wire_link_ok w"
  by (auto simp: encode_link_def wire_link_ok_def key32_def to32Bytes_length asI64_ok
      intro: encodeHashSource_wf encodeRestoreParameters_wf split: option.splits)

lemma canonicalHashId_length: "host_ok H \<Longrightarrow> canonicalHashId H h k = Inr i \<Longrightarrow> key32 i"
  by (auto simp: canonicalHashId_def key32_def sha256_length)

lemma link_id_length: "host_ok H \<Longrightarrow> link_id H l = Inr i \<Longrightarrow> key32 i"
  unfolding link_id_def by (auto dest: canonicalHashId_length)

section \<open>Properties\<close>

text \<open>C34: what \<open>prepareRestore\<close> returns is well typed for the program. Whatever proof it accepts, it
  encodes it link by link; every hash, key and member is 32 bytes, every kind tag is one of the
  five, every timestamp fits a signed and every generation and amount an unsigned 64-bit integer;
  the encoded source is one the IDL reader decodes, to a source of the same kind; and the anchor
  and the requested ids are 32-byte digests, the anchor not among the requested and fewer of these
  than links.\<close>

theorem prepareRestore_types:
  assumes "host_ok H" "prepareRestore H proof create = Inr r"
  shows "list_all wire_link_ok (proofEncoded r) \<and>
    list_all2 (\<lambda>link w. to32Bytes H (link_hash link) = Inr (wl_hash w) \<and>
        toBigInt H (link_createdAt link) = Inr (wl_createdAt w) \<and>
        decodeHashSource H (wire_source_object (wl_source w)) = Inr (source_of_wire (wl_source w)) \<and>
        source_kind (source_of_wire (wl_source w)) = source_kind (link_source link) \<and>
        (wl_params w = None \<longleftrightarrow> link_params link = None)) proof (proofEncoded r) \<and>
    key32 (anchorId r) \<and> list_all key32 (restoredIds r) \<and> anchorId r \<notin> set (restoredIds r) \<and>
    length (restoredIds r) \<le> length proof - 1"
proof (intro conjI)
  note run = assms(2) [unfolded prepareRestore_ok]
  then have links: "list_all2 (\<lambda>link w. encode_link H link = Inr w) proof (proofEncoded r)" by (simp add: mapE_ok)
  show "list_all wire_link_ok (proofEncoded r)"
    using run by (auto simp: list_all_iff dest!: mapE_set intro: encode_link_wf)
  show "list_all2 (\<lambda>link w. to32Bytes H (link_hash link) = Inr (wl_hash w) \<and>
        toBigInt H (link_createdAt link) = Inr (wl_createdAt w) \<and>
        decodeHashSource H (wire_source_object (wl_source w)) = Inr (source_of_wire (wl_source w)) \<and>
        source_kind (source_of_wire (wl_source w)) = source_kind (link_source link) \<and>
        (wl_params w = None \<longleftrightarrow> link_params link = None)) proof (proofEncoded r)"
    by (rule list_all2_mono [OF links])
      (auto simp: encode_link_def asI64_ok encode_preserves_kind intro!: decode_wire_source_object encodeHashSource_wf
        split: option.splits)
  show "key32 (anchorId r)"
    using run by (auto intro: link_id_length [OF assms(1)] canonicalHashId_length [OF assms(1)] split: list.splits)
  show "list_all key32 (restoredIds r)"
    using run by (auto simp: list_all_iff dest!: mapE_set intro: link_id_length [OF assms(1)])
  show "anchorId r \<notin> set (restoredIds r)" using run by simp
  have "mapE (link_id H) (restore_selection proof create) = Inr (restoredIds r)" using run by blast
  then have "length (restoredIds r) = length (restore_selection proof create)" by (rule mapE_length)
  then show "length (restoredIds r) \<le> length proof - 1"
    by (auto simp: restore_selection_def intro: order_trans [OF length_filter_le])
qed

text \<open>A raw hash as anchor and a branch of it to restore.\<close>

definition demo_links :: "restore_proof_input list" where
  "demo_links =
     [\<lparr>link_hash = JBytes (replicate 32 1), link_source = SHash, link_createdAt = JBigInt 5, link_params = None\<rparr>,
      \<lparr>link_hash = JBytes (replicate 32 2), link_source = SBranch (JBytes (replicate 32 3)) (JBytes (replicate 32 4)) 1,
        link_createdAt = JBigInt 6, link_params = Some (PBranch \<lparr>fp_hash = JBytes (replicate 32 1),
          fp_sourceKind = jint 0, fp_createdAt = JBigInt 5, fp_generation = JBigInt 0\<rparr>)\<rparr>]"

lemma prepareRestore_types_witness:
  "\<exists>r. prepareRestore demo_host demo_links True = Inr r \<and> list_all wire_link_ok (proofEncoded r) \<and>
     length (proofEncoded r) = 2 \<and> length (restoredIds r) = 1"
proof -
  have "\<exists>r. prepareRestore demo_host demo_links True = Inr r \<and> length (restoredIds r) = 1"
    by (simp add: prepareRestore_def demo_links_def encode_link_def encodeFingerprint_def asI64_def asU64_def
        normalizeSourceKind_def link_id_def canonicalHashId_def canonical_frame_def demo_sha256_def)
  then obtain r where r: "prepareRestore demo_host demo_links True = Inr r" "length (restoredIds r) = 1" by blast
  from prepareRestore_types [OF demo_host_ok r(1)] r show ?thesis
    by (auto simp: demo_links_def dest: list_all2_lengthD)
qed

text \<open>C35: a snapshot's amounts are saturated on the wire and refused in the digest. Whatever integers
  they denote, the wire carries the nearest 64-bit unsigned value; the digest of the same snapshot
  is that of the very bytes the wire carries when both amounts are in that range, and otherwise a
  range error that names the bound that was broken, so a clamped snapshot has no digest.\<close>

theorem encodeAccountSnapshot_bounds:
  assumes "accountPublicKey H account = Inr key" "accountPublicKey H (snap_owner s) = Inr owner"
    and "toBigInt H (snap_lamports s) = Inr l" "toBigInt H (snap_rentEpoch s) = Inr r" "toBytes H (snap_data s) = Inr d"
  shows "\<exists>w. encodeAccountSnapshot H (Some s) = Inr (Some w) \<and>
    ws_lamports w = max 0 (min l (2 ^ 64 - 1)) \<and> ws_rentEpoch w = max 0 (min r (2 ^ 64 - 1)) \<and>
    deriveAccountSnapshotHash H account s =
      (if l < 0 \<or> l \<le> 2 ^ 64 - 1 \<and> r < 0 then Inl (RangeError ''value must be non-negative'')
       else if 2 ^ 64 - 1 < l \<or> 2 ^ 64 - 1 < r then Inl (RangeError ''value must fit in u64'')
       else Inr (sha256 H (snapshot_frame key (ws_owner w) (ws_lamports w) (ws_executable w) (ws_rentEpoch w) (ws_data w))))"
proof -
  let ?w = "\<lparr>ws_owner = owner, ws_lamports = clampU64 l, ws_executable = snap_executable s,
    ws_rentEpoch = clampU64 r, ws_data = d\<rparr>"
  have "encodeAccountSnapshot H (Some s) = Inr (Some ?w)" using assms by (simp add: encodeAccountSnapshot_def)
  moreover have "deriveAccountSnapshotHash H account s =
      (if l < 0 \<or> l \<le> 2 ^ 64 - 1 \<and> r < 0 then Inl (RangeError ''value must be non-negative'')
       else if 2 ^ 64 - 1 < l \<or> 2 ^ 64 - 1 < r then Inl (RangeError ''value must fit in u64'')
       else Inr (sha256 H (snapshot_frame key owner (clampU64 l) (snap_executable s) (clampU64 r) d)))"
    using assms by (auto simp: deriveAccountSnapshotHash_def asU64_def clampU64_same u64_range_def)
  ultimately show ?thesis by (intro exI [of _ ?w]) (simp add: clampU64_eq)
qed

lemma encodeAccountSnapshot_bounds_witness:
  "\<exists>w. encodeAccountSnapshot demo_host (Some \<lparr>snap_owner = JBytes (replicate 32 1), snap_lamports = JBigInt (2 ^ 64),
      snap_executable = False, snap_rentEpoch = JBigInt (- 1), snap_data = JBytes []\<rparr>) = Inr (Some w) \<and>
    ws_lamports w = 18446744073709551615 \<and> ws_rentEpoch w = 0"
  using encodeAccountSnapshot_bounds [of demo_host "JBytes (replicate 32 1)" "replicate 32 1"
      "\<lparr>snap_owner = JBytes (replicate 32 1), snap_lamports = JBigInt (2 ^ 64),
      snap_executable = False, snap_rentEpoch = JBigInt (- 1), snap_data = JBytes []\<rparr>" "replicate 32 1" "2 ^ 64" "- 1" "[]"]
  by auto

end
