(* ===== verification/WorkflowProof.thy ===== *)
theory WorkflowProof
  imports Workflows WireProof
begin

text \<open>
  What the workflows of \<open>Workflows\<close> guarantee: the archive \<open>registerAndBranch\<close> returns is complete and
  is enough to restore the original record from its branch, and the proof
  \<open>branchFromFile\<close> returns describes the parent it restores.
\<close>

section \<open>Restoring the parent of a branch\<close>

lemma sort_nodes_get:
  assumes "distinct (keys (arch_nodes a))"
  shows "get (arch_nodes (sort_nodes H a)) p = get (arch_nodes a) p"
  using get_mset [of "arch_nodes a" "arch_nodes (sort_nodes H a)" p] assms by (simp add: sort_nodes_def)

text \<open>An archive of a raw hash and one record that depends on it.\<close>

definition child_of :: "host \<Rightarrow> program \<Rightarrow> hash_archive \<Rightarrow> string \<Rightarrow> string \<Rightarrow> bool" where
  "child_of H program c p q \<longleftrightarrow> wf_archive H c \<and> arch_programId c = toBase58 H (prog_id program) \<and>
     length (prog_id program) = 32 \<and> set (keys (arch_nodes c)) = {p, q} \<and> p \<noteq> q \<and>
     (\<exists>m n. get (arch_nodes c) p = Some m \<and> get (arch_nodes c) q = Some n \<and> node_source m = AHash \<and>
        (\<exists>i j g. node_source n = ABranch i j g) \<and> nodeDependencies H c n = Inr (Some [p]))"

lemma child_order:
  assumes "child_of H program c p q"
  shows "dependencyOrder H c [q] True = Inr [p, q]"
proof -
  obtain m n where "get (arch_nodes c) p = Some m" "get (arch_nodes c) q = Some n" "node_source m = AHash"
    "nodeDependencies H c n = Inr (Some [p])" "p \<noteq> q"
    using assms by (auto simp: child_of_def)
  moreover have "nodeDependencies H c m = Inr (Some [])" by (simp add: nodeDependencies_def calculation(3))
  ultimately show ?thesis by (simp add: dependencyOrder_def dependency_search_def search.simps)
qed

text \<open>While the planner makes its two reads after trace \<open>t\<close>, the record reads as absent and its branch
  is there, unchanged. Nothing is said of any later time.\<close>

definition withdrawn ::
  "host \<Rightarrow> net \<Rightarrow> program \<Rightarrow> event list \<Rightarrow> hash_archive \<Rightarrow> string \<Rightarrow> string \<Rightarrow> bool" where
  "withdrawn H N program t c p q \<longleftrightarrow> (\<forall>es. list_all reading es \<and> length es < 2 \<longrightarrow>
     read_at H N program (t @ es) p = Inr None \<and>
     (\<exists>x n. read_at H N program (t @ es) q = Inr (Some x) \<and> get (arch_nodes c) q = Some n \<and> sameArchiveRecord H x n))"

lemma read_key:
  assumes "read_result H N program t ks maps" "p \<in> set ks"
  obtains es where "list_all reading es" "length es < length ks" "holds_answer N maps p (read_at H N program (t @ es) p)"
proof -
  obtain i where i: "i < length ks" "ks ! i = p" using assms(2) by (auto simp: in_set_conv_nth)
  have "list_all reading (map (read_event H) (take i ks))" by (simp add: list_all_iff read_event_def)
  moreover have "length (map (read_event H) (take i ks)) < length ks" using i(1) by simp
  moreover have "holds_answer N maps p (read_at H N program (t @ map (read_event H) (take i ks)) p)"
    using assms(1) i by (auto simp: read_result_def)
  ultimately show thesis by (rule that)
qed

lemma withdrawn_reads:
  assumes "child_of H program c p q" "withdrawn H N program t c p q"
    and "read_result H N program t (keys (arch_nodes c)) maps"
  shows "get (snd maps) p = None" "get (snd maps) q = None" "get (fst maps) p = Some None"
    "record_matches H c (fst maps) = (\<lambda>r. r = q)"
proof -
  have keys: "set (keys (arch_nodes c)) = {p, q}" "p \<noteq> q" "distinct (keys (arch_nodes c))"
    using assms(1) by (auto simp: child_of_def wf_archive_def)
  have "length (keys (arch_nodes c)) = card {p, q}" by (simp only: distinct_card [OF keys(3), symmetric] keys(1))
  with keys(2) have two: "length (keys (arch_nodes c)) = 2" by simp
  obtain es where es: "list_all reading es" "length es < 2" "holds_answer N maps p (read_at H N program (t @ es) p)"
    by (rule read_key [OF assms(3), of p, unfolded two]) (simp add: keys del: set_map)
  have "read_at H N program (t @ es) p = Inr None" using assms(2) es(1,2) unfolding withdrawn_def by blast
  with es(3) show p: "get (snd maps) p = None" "get (fst maps) p = Some None"
    by (simp_all add: holds_answer_def)
  obtain fs where fs: "list_all reading fs" "length fs < 2" "holds_answer N maps q (read_at H N program (t @ fs) q)"
    by (rule read_key [OF assms(3), of q, unfolded two]) (simp add: keys del: set_map)
  obtain x n where "read_at H N program (t @ fs) q = Inr (Some x)" "get (arch_nodes c) q = Some n" "sameArchiveRecord H x n"
    using assms(2) fs(1,2) unfolding withdrawn_def by blast
  with fs(3) have q: "get (snd maps) q = None" "record_matches H c (fst maps) q"
    by (simp_all add: holds_answer_def record_matches_def)
  then show "get (snd maps) q = None" by simp
  have "\<not> record_matches H c (fst maps) r" if "r \<noteq> q" for r
  proof (cases "r = p")
    case False
    then have "r \<notin> set (keys (arch_nodes c))" using that unfolding keys(1) by simp
    then have "get (arch_nodes c) r = None" by (simp add: get_None_iff)
    then show ?thesis by (simp add: record_matches_def split: option.split)
  qed (simp add: record_matches_def p(2))
  with q(2) show "record_matches H c (fst maps) = (\<lambda>r. r = q)" by auto
qed

text \<open>The links of such a restoration are of bounded size: raw hashes and branches, with at most
  a hash or one fingerprint as parameters. A transaction is taken to have room for two of them.\<close>

definition small_link :: "wire_link \<Rightarrow> bool" where
  "small_link w \<longleftrightarrow> length (wl_hash w) = 32 \<and>
     (case wl_source w of WHash \<Rightarrow> True | WBranch i j g \<Rightarrow> length i = 32 \<and> length j = 32 | _ \<Rightarrow> False) \<and>
     (case wl_params w of None \<Rightarrow> True | Some (WPHash x) \<Rightarrow> length x = 32 | Some (WPBranch f) \<Rightarrow> length (wf_hash f) = 32
      | _ \<Rightarrow> False)"

definition small_restores_fit :: "net \<Rightarrow> bytes \<Rightarrow> bool" where
  "small_restores_fit N feePayer \<longleftrightarrow> (\<forall>ix a b. ix_call ix = IxRestore [a, b] \<and> small_link a \<and> small_link b \<and>
     wire_link_ok a \<and> wire_link_ok b \<and> length (ix_accounts ix) = 3 \<and> list_all (\<lambda>(name, key). length key = 32) (ix_accounts ix) \<and>
     length (ix_remaining ix) = 2 \<and> list_all (\<lambda>meta. length (meta_pubkey meta) = 32) (ix_remaining ix) \<longrightarrow>
     (\<exists>bytes. net_txSize N ix feePayer = Inr bytes))"

lemma small_encoded:
  assumes "host_ok H" "get (arch_nodes c) p = Some n" "wf_node H n" "node_source n = AHash \<or> node_source n = ABranch i j g"
    and "encode_link H (compiled_link H c targets existing p) = Inr w"
  shows "small_link w"
proof -
  let ?l = "compiled_link H c targets existing p"
  obtain h source params where w: "to32Bytes H (link_hash ?l) = Inr h" "encodeHashSource H (link_source ?l) = Inr source"
    "(case link_params ?l of None \<Rightarrow> Inr None
      | Some params \<Rightarrow> bindE (encodeRestoreParameters H params) (\<lambda>p. Inr (Some p))) = Inr params"
    "wl_hash w = h" "wl_source w = source" "wl_params w = params"
    using assms(5) by (auto simp: encode_link_def simp del: asI64_ok)
  have "link_source ?l = source_input H n" by (simp add: compiled_link_def link_of_def assms(2) Let_def)
  moreover have "sourceFromArchive H (node_source n) = Inr (source_input H n)"
    by (rule source_input_wf(1) [OF assms(1,3)])
  then have "source_input H n = SHash \<or> (\<exists>x. SBranch (JString i) (JString j) x = source_input H n)"
    using assms(4) by auto
  moreover have "case source of WHash \<Rightarrow> True | WBranch i j g \<Rightarrow> length i = 32 \<and> length j = 32 | _ \<Rightarrow> False"
    if "encodeHashSource H x = Inr source" "x = SHash \<or> (\<exists>y. x = SBranch (JString i) (JString j) y)" for x
    using that to32Bytes_length by auto
  ultimately have "case source of WHash \<Rightarrow> True | WBranch i j g \<Rightarrow> length i = 32 \<and> length j = 32 | _ \<Rightarrow> False"
    using w(2) by metis
  moreover have "length h = 32" by (rule to32Bytes_length [OF w(1)])
  moreover have "toBytes H (JString (node_hash n)) = Inr x \<Longrightarrow> length x = 32" for x
    using assms(3) hash_textD(1) [of "node_hash n"] by (auto simp: wf_node_def toBytes_def publicKeyBytes_def decodeHex_def split: if_splits)
  then have "case params of None \<Rightarrow> True | Some (WPHash x) \<Rightarrow> length x = 32 | Some (WPBranch f) \<Rightarrow> length (wf_hash f) = 32
      | _ \<Rightarrow> False"
    using w(3) assms(4) to32Bytes_length
    by (auto simp: compiled_link_def link_of_def params_of_def assms(2) Let_def encodeFingerprint_def split: if_splits)
  ultimately show ?thesis by (simp add: small_link_def w(4-6))
qed

lemma child_compiles:
  assumes "host_ok H" "child_of H program c p q" "get (arch_nodes c) p = Some m"
    and "ctx_create k" "ctx_matches k = (\<lambda>r. r = q)" "get (ctx_readErrors k) p = None" "get (ctx_live k) p = Some None"
    and "deriveVotePda H (prog_id program) (JBytes (node_id H m)) (ctx_payer k) = Inr v"
    and "small_restores_fit N (ctx_feePayer k)" "length (ctx_payer k) = 32"
  shows "\<exists>e. compileArchiveCandidate H N program c k q [p, q] [p] = Inr e"
    and "compileArchiveCandidate H N program c k q [p, q] [p] = Inr e \<Longrightarrow>
      step_requested (cand_summary e) = [p] \<and> step_creations (cand_summary e) = [p] \<and>
      step_additional (cand_summary e) = filter (\<lambda>r. r \<notin> set (ctx_targets k)) [p]"
proof -
  note child = assms(2) [unfolded child_of_def]
  obtain n i j g where n: "get (arch_nodes c) q = Some n" "node_source m = AHash" "node_source n = ABranch i j g" "p \<noteq> q"
    using child assms(3) by auto
  note order = child_order [OF assms(2)]
  have wf: "wf_archive H c" "arch_programId c = toBase58 H (prog_id program)" "length (prog_id program) = 32"
    using child by auto
  have req: "requested_of c [p] True q [p, q] = [p]"
    using n assms(3) by (simp add: requested_of_def asked_def)
  have creations: "creations_of k c [p] q [p, q] = [p]"
    using req n(4) assms(4,5) by (simp add: creations_of_def)
  have id: "id_at H c p = node_id H m" by (simp add: id_at_def assms(3))
  obtain a where "deriveHashPda H (prog_id program) (JBytes (id_at H c p)) = Inr a"
    using node_address(1) [OF wf(1) assms(3) assms(1)] wf(2,3) assms(1) by (auto simp: id)
  moreover have "length a = 32" "length v = 32"
    using calculation assms(8) findProgramAddress_length [OF assms(1)]
    by (auto simp: deriveHashPda_def deriveVotePda_def findPda_def split: option.splits)
  ultimately obtain x y where metas: "mapE (\<lambda>r. restore_meta H program (ctx_payer k) [p] (id_at H c r)) [p] = Inr [[x, y]]"
    and meta_keys: "length (meta_pubkey x) = 32" "length (meta_pubkey y) = 32"
    using assms(8) by (auto simp: restore_meta_def id Let_def)
  let ?links = "links_of H c [p] (existing_of k q [p, q]) q [p, q]"
  let ?link = "compiled_link H c [p] (q # existing_of k q [p, q])"
  have links: "?links = [?link q, ?link p]" using n(4) by (simp add: links_of_def proof_order_def)
  obtain ws where ws: "mapE (encode_link H) ?links = Inr ws"
    using links_prepared [OF assms(1) wf(1) order] by blast
  obtain u v where uv: "encode_link H (?link q) = Inr u" "encode_link H (?link p) = Inr v" "ws = [u, v]"
    using ws unfolding links by (cases "encode_link H (?link q)"; cases "encode_link H (?link p)") auto
  note wfs = wf_nodes_get [OF wf_archive_nodes [OF wf(1)]]
  have "small_link u" "small_link v"
    by (rule small_encoded [OF assms(1) n(1) wfs [OF n(1)] _ uv(1)], use n(3) in blast)
      (rule small_encoded [OF assms(1,3) wfs [OF assms(3)] _ uv(2)], use n(2) in blast)
  moreover have "wire_link_ok u" "wire_link_ok v" using uv(1,2) encode_link_wf by blast+
  moreover have "length (key_bytes H q) = 32"
    using get_mem [OF n(1)] wf(1) key_textD(1) [OF assms(1)] by (auto simp: wf_archive_def wf_entry_def list_all_iff)
  moreover have "length SYSTEM_PROGRAM = 32" by (simp add: SYSTEM_PROGRAM_def)
  ultimately obtain b where b: "net_txSize N (restore_instruction H k q ?links [x, y]) (ctx_feePayer k) = Inr b"
    using assms(9) [unfolded small_restores_fit_def, rule_format, of "restore_instruction H k q ?links [x, y]" u v]
    by (auto simp: restore_instruction_def ws uv(3) meta_keys assms(10))
  have snap: "\<not> snapshot_absent c (q # existing_of k q [p, q]) r" if "r \<in> set [p, q]" for r
    using that n assms(3) by (auto simp: snapshot_absent_def)
  have check: "check_requested k p = Inr ()"
    using assms(6,7) by (simp add: check_requested_ok live_record_def)
  have sub: "set [p] \<subseteq> set [p, q]" by simp
  have ok: "compileArchiveCandidate H N program c k q [p, q] [p] = Inr e \<longleftrightarrow> e = candidate_of H k c q [p, q] [p] [x, y] b" for e
    unfolding compile_ok [OF assms(1) wf order sub]
    using snap check metas b by (auto simp: req creations assms(4))
  then show "\<exists>e. compileArchiveCandidate H N program c k q [p, q] [p] = Inr e" by blast
  show "step_requested (cand_summary e) = [p] \<and> step_creations (cand_summary e) = [p] \<and>
      step_additional (cand_summary e) = filter (\<lambda>r. r \<notin> set (ctx_targets k)) [p]"
    if "compileArchiveCandidate H N program c k q [p, q] [p] = Inr e"
    using that unfolding ok by (simp add: candidate_of_def Let_def creations req assms(4))
qed

lemma assembled:
  assumes "host_ok H" "wf_archive H a" "\<forall>target \<in> set (ctx_targets k). get (arch_nodes a) target \<noteq> None"
    and "assemble_plan H N program a k candidates = Some (Inr (plan, ex))" "distinct (ctx_targets k)"
  obtains picked where "plan_steps plan = map cand_summary picked" "plan_alreadyPresent plan = present_targets k"
    "\<And>e. e \<in> set picked \<Longrightarrow> \<exists>anchor \<in> set candidates. candidate_from H N program a k anchor e"
    "length picked \<le> length (ctx_targets k)"
    "\<And>target. target \<in> set (ctx_targets k) \<Longrightarrow> target \<in> set (present_targets k) \<or>
      (\<exists>e \<in> set picked. target \<in> set (step_targets (cand_summary e)))"
  using assemble_cases [OF assms(1-3,5), of N program candidates] assms(4) by auto

text \<open>So planning from the archive finds one step: the live branch proves its parent alone.\<close>

lemma child_plan:
  assumes "host_ok H" "child_of H program c p q" "withdrawn H N program t c p q"
    and "parseArchive H input = Inr c" "get (arch_nodes c) p = Some m"
    and "deriveVotePda H (prog_id program) (JBytes (node_id H m)) payer = Inr v"
    and "small_restores_fit N feePayer" "length payer = 32"
  shows "\<exists>plan ex step. planArchiveRestore H N program prepared input
      \<lparr>ropt_targets = [p], ropt_anchor = None, ropt_createAccounts = None\<rparr> payer feePayer t =
      Some (Inr (length prepared, plan), prepared @ [ex], t @ map (read_event H) (keys (arch_nodes c))) \<and>
    plan_alreadyPresent plan = [] \<and> plan_steps plan = [step] \<and> step_anchor step = q \<and> step_targets step = [p] \<and>
    step_requested step = [p] \<and> step_creations step = [p] \<and> step_additional step = []"
proof -
  let ?o = "\<lparr>ropt_targets = [p], ropt_anchor = None, ropt_createAccounts = None\<rparr>"
  let ?cs = "sort_by codeunit_le (keys (arch_nodes c))"
  note child = assms(2) [unfolded child_of_def]
  have "archivePublicKey H (JString p) ''address'' = Inr p"
    using keys_of_order [OF assms(1), of c "[p]"] child assms(5) by (auto split: sum.splits)
  then have inputs: "plan_inputs H program input ?o = Inr (c, [p], ?cs)"
    unfolding plan_inputs_ok using assms(4,5) child by (simp add: anchors_to_try_def)
  obtain maps where maps: "read_result H N program t (keys (arch_nodes c)) maps"
    and run: "planArchiveRestore H N program prepared input ?o payer feePayer t =
      (case assemble_plan H N program c (context_of H c [p] ?o payer feePayer maps) ?cs of
         None \<Rightarrow> None
       | Some (Inl e) \<Rightarrow> Some (Inl (Plain e), prepared, t @ map (read_event H) (keys (arch_nodes c)))
       | Some (Inr (plan, execution)) \<Rightarrow> Some (Inr (length prepared, plan), prepared @ [execution],
           t @ map (read_event H) (keys (arch_nodes c))))"
    using plan_valid [OF assms(1) inputs] by blast
  let ?k = "context_of H c [p] ?o payer feePayer maps"
  have create: "create_accounts (ropt_createAccounts ?o)" by (simp add: create_accounts_def)
  note reads = withdrawn_reads [OF assms(2,3) maps]
  have live: "live_anchor c ?k r \<longleftrightarrow> r = q" for r
    using reads(2,4) child by (auto simp: live_anchor_def)
  note order = child_order [OF assms(2)]
  note compiled = child_compiles [OF assms(1,2,5), of ?k v N, unfolded context_of_simps, OF create reads(4,1,3) assms(6-8)]
  have "q \<in> set ?cs" using child by simp
  then have "\<exists>plan ex. assemble_plan H N program c ?k ?cs = Some (Inr (plan, ex))"
    using assemble_complete [OF assms(1) inputs, of maps payer feePayer N] live order compiled(1) by auto
  then obtain plan ex where plan: "assemble_plan H N program c ?k ?cs = Some (Inr (plan, ex))" by blast
  have wf: "wf_archive H c" "\<forall>target \<in> set (ctx_targets ?k). get (arch_nodes c) target \<noteq> None"
    using child assms(5) by auto
  have "present_targets ?k = []" using reads(4) child by (simp add: present_targets_def)
  moreover obtain picked where picked: "plan_steps plan = map cand_summary picked" "plan_alreadyPresent plan = present_targets ?k"
      "\<And>e. e \<in> set picked \<Longrightarrow> \<exists>anchor \<in> set ?cs. candidate_from H N program c ?k anchor e"
      "length picked \<le> length (ctx_targets ?k)"
      "\<And>target. target \<in> set (ctx_targets ?k) \<Longrightarrow> target \<in> set (present_targets ?k) \<or>
        (\<exists>e \<in> set picked. target \<in> set (step_targets (cand_summary e)))"
    by (rule assembled [OF assms(1) wf plan]) (simp, blast)
  ultimately have present: "plan_alreadyPresent plan = []" and "\<exists>e \<in> set picked. p \<in> set (step_targets (cand_summary e))"
    using picked(5) [of p] by simp_all
  with picked(4) have "length picked = 1" by (cases picked) auto
  then obtain e where e: "picked = [e]" by (auto simp: length_Suc_conv)
  with picked(3) [of e] obtain anchor where cand: "candidate_from H N program c ?k anchor e" by auto
  note e' = candidate_from_step [OF cand]
  have "anchor = q" using cand live by (simp add: candidate_from_def)
  then obtain closure where closure: "dependencyOrder H c [q] True = Inr closure"
    "compileArchiveCandidate H N program c ?k q closure (step_targets (cand_summary e)) = Inr e"
    using e'(4) by blast
  have "closure = [p, q]" using closure(1) order by simp
  have sub: "set (step_targets (cand_summary e)) \<subseteq> set [p, q]" using e'(3) by auto
  have "distinct (step_targets (cand_summary e))"
    using closure(2) compile_ok [OF assms(1) wf(1) _ _ order sub, of program N ?k e] child \<open>closure = _\<close> by auto
  with e'(2,3) have targets: "step_targets (cand_summary e) = [p]"
    by (cases "step_targets (cand_summary e)") (auto simp: subset_singleton_iff)
  with compiled(2) [where e = e] closure(2) \<open>closure = _\<close> have "step_requested (cand_summary e) = [p]"
    "step_creations (cand_summary e) = [p]" "step_additional (cand_summary e) = []" by simp_all
  with run plan picked(1) present e e'(1) targets \<open>anchor = q\<close> show ?thesis by (simp del: map_map)
qed

text \<open>Carrying it out is one transaction. When it is accepted the archive of both records is the result;
  when it fails nothing was completed, and the error says so.\<close>

definition restored_by ::
  "host \<Rightarrow> net \<Rightarrow> hash_archive \<Rightarrow> instruction \<Rightarrow> bytes \<Rightarrow> event list \<Rightarrow> (client_error + restore_result) \<times> event list \<Rightarrow> bool" where
  "restored_by H N c ix feePayer u outcome \<longleftrightarrow> snd outcome = u @ [ESend ix feePayer []] \<and>
     (case net_send N u ix feePayer [] of
        Inr signature \<Rightarrow> \<exists>final. fst outcome = Inr final \<and> result_signatures final = [signature] \<and>
          arch_programId (result_archive final) = arch_programId c \<and>
          mset (arch_nodes (result_archive final)) = mset (arch_nodes c)
      | Inl e \<Rightarrow> \<exists>archive. fst outcome = Inl (ExecutionError [] archive 0 (Plain e)) \<and> arch_nodes archive = [])"

lemma selects_all:
  assumes "wf_archive H c" "selects c (set (keys (arch_nodes c))) b"
  shows "arch_programId b = arch_programId c" "mset (arch_nodes b) = mset (arch_nodes c)"
proof -
  have "part_of b c" by (rule selects_part [OF assms(2)])
  moreover have "part_of c b"
  proof -
    have "get (arch_nodes b) x = get (arch_nodes c) x" for x
    proof (cases "x \<in> set (keys (arch_nodes c))")
      case False
      then have "get (arch_nodes c) x = None" by (simp only: get_None_iff not_False_eq_True)
      with False assms(2) show ?thesis by (simp add: selects_def del: set_map)
    qed (use assms(2) in \<open>simp add: selects_def del: set_map\<close>)
    moreover have "distinct (keys (arch_nodes c))" "arch_programId b = arch_programId c"
      using assms by (simp_all add: wf_archive_def selects_def)
    ultimately show ?thesis by (simp add: part_of_def)
  qed
  ultimately show "arch_programId b = arch_programId c" "mset (arch_nodes b) = mset (arch_nodes c)"
    using part_of_antisym [of b c] by simp_all
qed

lemma selects_none: "selects c {} b \<Longrightarrow> arch_nodes b = []"
  by (cases "arch_nodes b") (auto simp: selects_def get_def split: prod.splits if_splits)

lemma child_restore:
  assumes "host_ok H" "child_of H program c p q" "parseArchive H input = Inr c"
    and "planArchiveRestore H N program prepared input options payer feePayer t = Some (Inr (k, plan), prepared', t')"
    and "plan_steps plan = [step]" "step_anchor step = q" "step_additional step = []" "plan_alreadyPresent plan = []"
    and "prog_sendAndConfirm program"
  shows "\<exists>sent. restores_step H (create_accounts (ropt_createAccounts options)) payer sent step \<and>
    restored_by H N c (prep_instruction sent) feePayer u (executeArchiveRestore H N program prepared' k None payer feePayer False u)"
proof -
  have wf: "wf_archive H c" and keys: "set (keys (arch_nodes c)) = {p, q}" using assms(2) by (auto simp: child_of_def)
  obtain ex closures where k: "k = length prepared" "prepared' = prepared @ [ex]"
    and fields: "exec_connection ex = prog_connection program" "exec_endpoint ex = prog_endpoint program"
      "exec_programId ex = toBase58 H (prog_id program)" "exec_payer ex = toBase58 H payer" "exec_feePayer ex = toBase58 H feePayer"
    and present: "selects c {} (exec_present ex)"
    and steps: "list_all2 (\<lambda>step S. selects c S (prep_archive step)) (exec_steps ex) closures"
      "list_all2 (\<lambda>step S. \<exists>order. dependencyOrder H c [step_anchor step] True = Inr order \<and> S = set order \<and>
        set (step_targets step) \<subseteq> S) [step] closures"
      "map prep_additional (exec_steps ex) = [[]]"
      "list_all2 (restores_step H (create_accounts (ropt_createAccounts options)) payer) (exec_steps ex) [step]"
    using planned_execution [OF assms(1,4)] assms(3,5,7,8) by auto
  obtain sent where ex: "exec_steps ex = [sent]" "prep_additional sent = []" using steps(3) by auto
  have closures: "closures = [{p, q}]"
    using steps(2) child_order [OF assms(2)] assms(6) by (auto simp: list_all2_Cons1)
  have now: "executable_now H program ex payer feePayer False" using fields ex assms(9) by (simp add: executable_now_def)
  obtain r u' where run: "executeArchiveRestore H N program prepared' k None payer feePayer False u = (r, u')"
    by (rule prod.exhaust)
  have "parseArchive H (archive_value (exec_present ex)) = Inr (exec_present ex)"
    by (rule parseArchive_value [OF assms(1) selects_wf [OF assms(1) wf present]])
  with now run have steps_run: "run_steps H N feePayer [] 0 \<lparr>result_signatures = [], result_archive = exec_present ex\<rparr> [sent] u = (r, u')"
    by (simp add: k execute_run bindC_def ex(1))
  have "selects c {p, q} (prep_archive sent)" using steps(1) by (simp add: ex(1) closures)
  then obtain merged where merged: "mergeArchives H (archive_value (exec_present ex)) [archive_value (prep_archive sent)] = Inr merged"
    "selects c ({} \<union> {p, q}) merged"
    using merge_selects [OF assms(1) wf present] by blast
  have "restored_by H N c (prep_instruction sent) feePayer u (r, u')"
  proof (cases "net_send N u (prep_instruction sent) feePayer []")
    case (Inl e)
    with steps_run show ?thesis using selects_none [OF present] by (auto simp: restored_by_def Let_def)
  next
    case (Inr signature)
    with steps_run merged(1) show ?thesis
      using selects_all [OF wf, of merged] merged(2) unfolding keys by (auto simp: restored_by_def Let_def)
  qed
  with run steps(4) show ?thesis by (auto simp: ex(1))
qed

lemma saved_child:
  assumes "host_ok H" "length (prog_id program) = 32" "registerAndBranch H N program bytes updated t = (Inr r, t')"
    and "br_originalPda r = Some p" "q \<in> set (keys (arch_nodes (br_archive r)))" "q \<noteq> p"
  obtains m where "child_of H program (sort_nodes H (br_archive r)) p q"
    "parseArchive H (JString (br_json r)) = Inr (sort_nodes H (br_archive r))"
    "get (arch_nodes (sort_nodes H (br_archive r))) p = Some m"
    "node_id H m = sha256 H (canonical_frame (sha256 H bytes) KHash)"
    "distinct (keys (arch_nodes (br_archive r)))"
proof (rule register_and_branch [OF assms(1-3)])
  fix p' q' es ix ix' address slot address' slot' and m n :: archive_node
  assume r: "p' \<noteq> q'" "br_originalPda r = Some p'"
      "br_archive r = \<lparr>arch_programId = toBase58 H (prog_id program), arch_nodes = [(p', m), (q', n)]\<rparr>"
    and nodes: "node_hash m = hex_of_bytes (sha256 H bytes)" "node_source m = AHash"
      "node_source n = ABranch (hex_of_bytes (node_id H m)) (hex_of_bytes (sha256 H updated)) ''1''"
    and wf: "wf_archive H (br_archive r)" and deps: "nodeDependencies H (br_archive r) n = Inr (Some [p'])"
    and json: "stringifyArchive H (archive_value (br_archive r)) = Inr (br_json r)"
  let ?c = "sort_nodes H (br_archive r)"
  have pq: "p' = p" "q' = q" using r(1,2) assms(4-6) by (auto simp: r(3))
  have parsed: "parseArchive H (JString (br_json r)) = Inr ?c"
    using parse_stringify [OF assms(1) json] by (simp add: parseArchive_value [OF assms(1) wf])
  have d: "distinct (keys (arch_nodes (br_archive r)))" using wf by (simp add: wf_archive_def)
  have get: "get (arch_nodes ?c) p = Some m" "get (arch_nodes ?c) q = Some n"
    unfolding sort_nodes_get [OF d] using assms(6) by (simp_all add: r(3) pq get_def)
  have "set (arch_nodes ?c) = set (arch_nodes (br_archive r))" by (simp add: sort_nodes_def)
  then have keys: "set (keys (arch_nodes ?c)) = {p, q}" by (auto simp: r(3) pq)
  have "nodeDependencies H ?c n = Inr (Some [p])"
    using deps by (simp add: pq nodeDependencies_def node_pda_def nodes(3) del: hex_of_bytes.simps)
  then have "child_of H program ?c p q"
    unfolding child_of_def using parseArchive_wf [OF assms(1) parsed] assms(2,6) get nodes(2,3) keys
    by (simp add: r(3) del: hex_of_bytes.simps)
  moreover have "node_id H m = sha256 H (canonical_frame (sha256 H bytes) KHash)"
    using sha256_length [OF assms(1)] by (simp add: node_id_def nodes(1,2) del: hex_of_bytes.simps)
  ultimately show thesis by (rule that [OF _ parsed get(1) _ d])
qed

section \<open>A demonstration run\<close>

text \<open>A network of two records, a raw hash and its branch, that carries out what it is sent: the hash
  is there from the time it is registered until its only vote is withdrawn, and again after a
  restore; the branch is there from its creation on.\<close>

fun demo_effect :: "event \<Rightarrow> bool \<times> bool \<Rightarrow> bool \<times> bool" where
  "demo_effect (ESubmit ix payer) s = (case ix_call ix of
      IxRegister _ \<Rightarrow> (True, snd s) | IxUnvote \<Rightarrow> (False, snd s) | IxBranch _ _ \<Rightarrow> (fst s, True) | _ \<Rightarrow> s)"
| "demo_effect (ESend ix feePayer signers) s = (True, snd s)"
| "demo_effect _ s = s"

definition demo_state :: "event list \<Rightarrow> bool \<times> bool" where
  "demo_state t = fold demo_effect t (False, False)"

lemma demo_state_append [simp]: "demo_state [] = (False, False)" "demo_state (t @ es) = fold demo_effect es (demo_state t)"
  by (simp_all add: demo_state_def)

lemma demo_effect_reading: "list_all reading es \<Longrightarrow> fold demo_effect es s = s"
proof (induction es)
  case (Cons e es)
  then show ?case by (cases e) simp_all
qed simp

definition demo_leaf_account :: jsval where
  "demo_leaf_account = JObject [(''hash'', JBytes (replicate 32 1)), (''source'', JObject [(''hash'', JObject [])]), (''createdAt'', JBN 5)]"

definition demo_branch_account :: jsval where
  "demo_branch_account = JObject [(''hash'', JBytes (replicate 32 2)), (''source'', JObject [(''branch'', JObject
     [(''previousHashId'', JBytes (demo_id 0 1)), (''payload'', JBytes (replicate 32 2)), (''generation'', JBN 1)])]), (''createdAt'', JBN 6)]"

definition demo_there :: "event list \<Rightarrow> bytes \<Rightarrow> bool" where
  "demo_there t a \<longleftrightarrow> a = demo_id 0 1 \<and> fst (demo_state t) \<or> a = demo_id 2 2 \<and> snd (demo_state t)"

definition demo_pair_net :: net where
  "demo_pair_net = demo_net\<lparr>
     net_fetchNullable := Some (\<lambda>t name a. Inr (if \<not> demo_there t a then None
       else Some (if a = demo_id 2 2 then demo_branch_account else demo_leaf_account))),
     net_accountInfo := (\<lambda>t a slot. Inr (if \<not> demo_there t a then None
       else Some \<lparr>info_owner = replicate 32 9, info_lamports = jint 1, info_executable = False,
         info_rentEpoch = jint 0, info_data = a\<rparr>)),
     net_decode := (\<lambda>d. if d = demo_id 2 2
       then Inr \<lparr>raw_hash = JBytes (replicate 32 2), raw_source = JObject [(''branch'', JObject
           [(''previousHashId'', JBytes (demo_id 0 1)), (''payload'', JBytes (replicate 32 2)), (''generation'', JBN 1)])],
         raw_createdAt = JBN 6, raw_voters = JBN 1, raw_bump = 255\<rparr>
       else net_decode demo_net d)\<rparr>"

lemma demo_branch_wf:
  assumes "0 < d" "d < 10"
  shows "wf_archive demo_host \<lparr>arch_programId = demo_program,
    arch_nodes = [(demo_key (demo_id 2 2), demo_branch\<lparr>node_createdAt := int_to_decimal (int d)\<rparr>)]\<rparr>"
    (is "wf_archive demo_host ?a")
proof -
  let ?n = "demo_branch\<lparr>node_createdAt := int_to_decimal (int d)\<rparr>"
  have "decimal_field nonzero_i64 (int_to_decimal (int d))"
    using assms by (intro decimal_fieldI) (simp add: nonzero_i64_def i64_range_def)
  then have wf: "wf_node demo_host ?n"
    using demo_wf_nodes(2) by (simp add: wf_node_def)
  have i: "node_id demo_host ?n = demo_id 2 2"
    using demo_node_ids(2) by (simp add: node_id_def)
  have "nodeDependencies demo_host ?a ?n = nodeDependencies demo_host ?a demo_branch"
    by (simp add: nodeDependencies_def demo_branch_def del: hex_of_bytes.simps)
  then have deps: "nodeDependencies demo_host ?a ?n = Inr (Some [demo_key (demo_id 0 1)])"
    by (simp add: demo_dependencies)
  have "wf_nodes demo_host ?a" by (simp add: wf_nodes_def wf)
  moreover have "present_deps demo_host ?a ?n = None"
    by (simp add: present_deps_def deps)
  moreover obtain i j g where "node_source ?n = ABranch i j g" by (simp add: demo_branch_def)
  ultimately have "commits demo_host ?a p ?n" for p
    by (simp add: commits_wf [OF demo_host_ok _ wf] deps generation_ok_def commitment_def)
  then have "\<exists>j. inspectArchiveGraph demo_host ?a = Inr j"
    by (simp add: inspectArchiveGraph_ok dependencyOrder_def dependency_search_def deps search.simps)
  moreover have "archive_size demo_host ?a \<le> MAX_ARCHIVE_BYTES"
  proof -
    have decimal: "int_to_decimal (int d) = [digit_char d]" "int_to_decimal 1 = [digit_char 1]"
      using plain_decimal [OF assms(2)] plain_decimal [of 1] by simp_all
    have "plain_char (digit_char d)" using assms(2) by (intro plain_digit) simp
    moreover have "plain_char (digit_char (Suc 0))" by (intro plain_digit) simp
    moreover have "number_text demo_host (Finite (of_int ARCHIVE_VERSION)) = ''1''"
      by (simp add: number_text_def ARCHIVE_VERSION_def int_to_decimal_def nat_to_decimal.simps digit_char_def)
    moreover have "list_all plain_char ARCHIVE_FORMAT" by (simp add: ARCHIVE_FORMAT_def plain_char_def)
    moreover have "length ARCHIVE_FORMAT < 100" by (simp add: ARCHIVE_FORMAT_def)
    ultimately show ?thesis
      unfolding decimal
      by (simp add: archive_size_sum demo_branch_def decimal node_value_def utf8_length_Cons utf8_length_quote
          plain_char_def demo_program_def MAX_ARCHIVE_BYTES_def del: hex_of_bytes.simps)
  qed
  ultimately show ?thesis
    by (simp add: wf_archive_def wf_entry_def wf i key_textI demo_program_def MAX_ARCHIVE_NODES_def)
qed

lemma demo_pair_leaf:
  "readArchiveRecord demo_host demo_pair_net demo_prog (demo_key (demo_id 0 1)) slot t =
     (Inr (if fst (demo_state t) then Some demo_leaf else None), t @ [EAccountInfo (demo_id 0 1) slot])"
proof -
  have "record_node demo_host demo_pair_net demo_prog (demo_key (demo_id 0 1)) (demo_id 0 1) \<lparr>info_owner = replicate 32 9,
      info_lamports = jint 1, info_executable = False, info_rentEpoch = jint 0, info_data = demo_id 0 1\<rparr> = Inr (Some demo_leaf)"
    using demo_single [of 5] canonicalHashId_node [OF demo_wf_nodes(1)] demo_node_ids(1)
    by (simp add: record_node_def demo_pair_net_def demo_net_def valueString_def decodeHashSource_def lower_char_def
        archiveHex_def canonicalHashId_def findPda_def demo_find_def pending_of_def demo_leaf_def Let_def del: hex_of_bytes.simps)
  then show ?thesis
    by (simp add: readArchiveRecord_run) (simp add: demo_pair_net_def placeholder_def SYSTEM_PROGRAM_def demo_there_def)
qed

lemma demo_branch_single:
  assumes "0 < d" "d < 10"
  shows "single_archive demo_host demo_prog (demo_key (demo_id 2 2)) (pending_of demo_branch) (int_to_decimal (int d)) =
    Inr \<lparr>arch_programId = demo_program,
      arch_nodes = [(demo_key (demo_id 2 2), demo_branch\<lparr>node_createdAt := int_to_decimal (int d)\<rparr>)]\<rparr>"
  using single_archive_self [OF demo_host_ok demo_branch_wf [OF assms], of demo_prog]
  by (simp add: demo_program_def pending_of_def)

lemma demo_branch_times: "demo_branch\<lparr>node_createdAt := int_to_decimal 6\<rparr> = demo_branch"
    "node_createdAt demo_branch = int_to_decimal 6"
  by (simp_all add: demo_branch_def)

lemma demo_pair_branch:
  "readArchiveRecord demo_host demo_pair_net demo_prog (demo_key (demo_id 2 2)) slot t =
     (Inr (if snd (demo_state t) then Some demo_branch else None), t @ [EAccountInfo (demo_id 2 2) slot])"
proof -
  let ?h = "replicate 32 2 :: bytes"
  have pending: "pending_of demo_branch = \<lparr>pend_hash = hex_of_bytes ?h,
      pend_source = ABranch (hex_of_bytes (demo_id 0 1)) (hex_of_bytes ?h) (int_to_decimal 1),
      pend_members = None, pend_snapshot = None\<rparr>"
    by (simp add: pending_of_def demo_branch_def)
  have source: "decodeHashSource demo_host (JObject [(''branch'', JObject [(''previousHashId'', JBytes (demo_id 0 1)),
      (''payload'', JBytes ?h), (''generation'', JBN 1)])]) = Inr (SBranch (JBytes (demo_id 0 1)) (JBytes ?h) 1)"
    by (simp add: decodeHashSource_def lower_char_def read_prop_def truthy_def Let_def)
  have "canonicalHashId demo_host (JString (hex_of_bytes ?h)) (jint 2) = Inr (demo_id 2 2)"
    using canonicalHashId_node [OF demo_wf_nodes(2)] demo_node_ids(2) by (simp add: demo_branch_def)
  then have i: "canonicalHashId demo_host (JString (hex_of_bytes ?h))
      (source_object (SBranch (JBytes (demo_id 0 1)) (JBytes ?h) 1)) = Inr (demo_id 2 2)"
    by (simp add: canonicalHashId_def)
  have archived: "archiveSource demo_host (SBranch (JBytes (demo_id 0 1)) (JBytes ?h) 1) =
      Inr (ABranch (hex_of_bytes (demo_id 0 1)) (hex_of_bytes ?h) (int_to_decimal 1))"
    by (simp add: archiveHex_def del: hex_of_bytes.simps)
  have "record_node demo_host demo_pair_net demo_prog (demo_key (demo_id 2 2)) (demo_id 2 2)
      \<lparr>info_owner = replicate 32 9, info_lamports = jint 1, info_executable = False, info_rentEpoch = jint 0,
        info_data = demo_id 2 2\<rparr> = Inr (Some demo_branch)"
    using demo_branch_single [of 6] i
    by (simp add: record_node_def demo_pair_net_def valueString_def source archived archiveHex_def findPda_def
        demo_find_def pending demo_branch_times Let_def del: hex_of_bytes.simps)
  then show ?thesis
    by (simp add: readArchiveRecord_run) (simp add: demo_pair_net_def placeholder_def SYSTEM_PROGRAM_def demo_there_def)
qed

text \<open>A creation of either record.\<close>

lemma demo_pair_submit:
  assumes "validate_creation demo_host demo_prog (pending_of n) = Inr (pending_of n)"
    and "hash_address demo_host demo_prog (completed_node (pending_of n) ''1'') = Inr k"
    and "readArchiveRecord demo_host demo_pair_net demo_prog (demo_key k) (Some 7) (t @ [ESubmit ix payer, EConfirm ''signature'']) =
      (Inr (Some n), (t @ [ESubmit ix payer, EConfirm ''signature'']) @ [EAccountInfo k (Some 7)])"
    and "single_archive demo_host demo_prog (demo_key k) (pending_of n) (node_createdAt n) = Inr a"
  shows "submitCreation demo_host demo_pair_net demo_prog ix (pending_of n) payer t =
    (Inr \<lparr>res_signature = ''signature'', res_archive = a\<rparr>,
     t @ [ESubmit ix payer, EConfirm ''signature'', EAccountInfo k (Some 7)])"
proof -
  have "net_submit demo_pair_net t' ix payer = Inr ''signature''" for t' by (simp add: demo_pair_net_def demo_net_def)
  moreover have "confirm_creation demo_pair_net ''signature'' t' = (Inr \<lparr>conf_err = None, conf_slot = 7\<rparr>, t' @ [EConfirm ''signature''])"
    for t' by (simp add: confirm_creation_def bindC_def requestC_run demo_pair_net_def demo_net_def)
  moreover have "capture_record demo_host demo_pair_net demo_prog (demo_key k) (pending_of n)
      \<lparr>conf_err = None, conf_slot = 7\<rparr> (t @ [ESubmit ix payer, EConfirm ''signature'']) =
      (Inr a, (t @ [ESubmit ix payer, EConfirm ''signature'']) @ [EAccountInfo k (Some 7)])"
    using assms(4) by (simp add: capture_record_def bindC_def assms(3) pureC_run pending_of_def del: append_assoc)
  ultimately show ?thesis
    by (simp add: submitCreation_run assms(1,2) captureCreatedArchive_def bindC_def catchC_def pureC_run Let_def)
qed

definition demo_leaf_only :: hash_archive where
  "demo_leaf_only = \<lparr>arch_programId = demo_program, arch_nodes = [(demo_key (demo_id 0 1), demo_leaf)]\<rparr>"

definition demo_branch_only :: hash_archive where
  "demo_branch_only = \<lparr>arch_programId = demo_program, arch_nodes = [(demo_key (demo_id 2 2), demo_branch)]\<rparr>"

lemma demo_submit_leaf:
  "ix_call ix = IxRegister h \<Longrightarrow> submitCreation demo_host demo_pair_net demo_prog ix (pending_of demo_leaf) payer t =
    (Inr \<lparr>res_signature = ''signature'', res_archive = demo_leaf_only\<rparr>,
     t @ [ESubmit ix payer, EConfirm ''signature'', EAccountInfo (demo_id 0 1) (Some 7)])"
proof (rule demo_pair_submit [OF demo_validate demo_address_leaf])
  show "single_archive demo_host demo_prog (demo_key (demo_id 0 1)) (pending_of demo_leaf) (node_createdAt demo_leaf) =
      Inr demo_leaf_only"
    using demo_single [of 5] by (simp add: demo_leaf_only_def demo_leaf_def)
qed (simp add: demo_pair_leaf)

lemma demo_submit_branch:
  "ix_call ix = IxBranch h v \<Longrightarrow> submitCreation demo_host demo_pair_net demo_prog ix (pending_of demo_branch) payer t =
    (Inr \<lparr>res_signature = ''signature'', res_archive = demo_branch_only\<rparr>,
     t @ [ESubmit ix payer, EConfirm ''signature'', EAccountInfo (demo_id 2 2) (Some 7)])"
proof (rule demo_pair_submit)
  have "nodeId demo_host (completed_node (pending_of demo_branch) ''1'') = nodeId demo_host demo_branch"
    by (simp add: nodeId_def completed_node_def pending_of_def)
  also have "\<dots> = Inr (demo_id 2 2)"
    using nodeId_wf [OF demo_host_ok demo_wf_nodes(2)] by (simp add: demo_node_ids)
  finally show address: "hash_address demo_host demo_prog (completed_node (pending_of demo_branch) ''1'') = Inr (demo_id 2 2)"
    by (simp add: hash_address_def findPda_def demo_find_def)
  have "''1'' = int_to_decimal (int 1)" by (simp add: int_to_decimal_def nat_to_decimal.simps digit_char_def)
  with demo_branch_single [of 1] address
  show "validate_creation demo_host demo_prog (pending_of demo_branch) = Inr (pending_of demo_branch)"
    by (simp add: validate_creation_def pending_of_def)
  show "single_archive demo_host demo_prog (demo_key (demo_id 2 2)) (pending_of demo_branch) (node_createdAt demo_branch) =
      Inr demo_branch_only"
    using demo_branch_single [of 6] by (simp add: demo_branch_only_def demo_branch_times)
qed (simp add: demo_pair_branch)

abbreviation demo_one :: bytes where "demo_one \<equiv> replicate 32 1"
abbreviation demo_two :: bytes where "demo_two \<equiv> replicate 32 2"

lemma demo_pair_digests:
  "demo_sha256 demo_one = demo_one" "demo_sha256 demo_two = demo_two"
  "sha256 demo_host (canonical_frame demo_one KHash) = demo_id 0 1"
  "sha256 demo_host (canonical_frame demo_two KBranch) = demo_id 2 2"
  by (simp_all add: demo_sha256_def canonical_frame_def)

lemma demo_pdas:
  assumes "length k = 32"
  shows "hashPda demo_host demo_prog (JBytes k) = Inr k" "votePda demo_host demo_prog (JBytes k) w = Inr k"
  using assms by (simp_all add: hashPda_def votePda_def deriveVotePda_def findPda_def demo_find_def)

lemma demo_pair_register:
  "register demo_host demo_pair_net demo_prog (JBytes demo_one) None t =
    (Inr \<lparr>res_signature = ''signature'', res_archive = demo_leaf_only\<rparr>,
     t @ [ESubmit \<lparr>ix_call = IxRegister demo_one, ix_accounts = [(''hashAccount'', demo_id 0 1), (''voteInfo'', demo_id 0 1),
       (''user'', replicate 32 4), (''systemProgram'', SYSTEM_PROGRAM)], ix_remaining = []\<rparr> None,
       EConfirm ''signature'', EAccountInfo (demo_id 0 1) (Some 7)])"
proof -
  have "deriveGenesisHashId demo_host (JBytes demo_one) = Inr (demo_id 0 1)"
    using deriveGenesisHashId_JBytes [of demo_one demo_host] demo_pair_digests(3) by simp
  moreover have "\<lparr>pend_hash = hex_of_bytes demo_one, pend_source = AHash, pend_members = None, pend_snapshot = None\<rparr> =
      pending_of demo_leaf"
    by (simp add: pending_of_def demo_leaf_def)
  moreover have "archiveHex demo_host (JBytes demo_one) = Inr (hex_of_bytes demo_one)" by (simp add: archiveHex_def)
  moreover have "to32Bytes demo_host (JBytes demo_one) = Inr demo_one" by simp
  moreover have "length (demo_id 0 1) = 32" by simp
  ultimately show ?thesis
    by (simp only: register_def demo_pdas demo_submit_leaf instruction.select_convs bindC_def pureC_run lifted_simps Let_def
        prod.case sum.case instructionPayer_def option.case demo_prog_simps)
qed

lemma demo_fetch:
  "fst (demo_state t) \<Longrightarrow> fetchHashAccount demo_host demo_pair_net demo_prog (JBytes (demo_id 0 1)) t =
    (Inr (Some demo_leaf_account), t @ [EFetchNullable HashAccount (demo_id 0 1)])"
  "snd (demo_state t) \<Longrightarrow> fetchHashAccount demo_host demo_pair_net demo_prog (JBytes (demo_id 2 2)) t =
    (Inr (Some demo_branch_account), t @ [EFetchNullable HashAccount (demo_id 2 2)])"
  by (simp_all add: fetchHashAccount_def demo_pdas bindC_def pureC_run fetchNullableAccount_def requestC_run
      demo_pair_net_def demo_there_def)

lemma demo_account_fields:
  "account_field demo_leaf_account ''hash'' = JBytes demo_one" "account_field demo_leaf_account ''createdAt'' = JBN 5"
  "decodeHashSource demo_host (account_field demo_leaf_account ''source'') = Inr SHash"
  "account_field demo_branch_account ''hash'' = JBytes demo_two" "account_field demo_branch_account ''createdAt'' = JBN 6"
  "decodeHashSource demo_host (account_field demo_branch_account ''source'') =
     Inr (SBranch (JBytes (demo_id 0 1)) (JBytes demo_two) 1)"
  by (simp_all add: demo_leaf_account_def demo_branch_account_def account_field_def read_prop_def decodeHashSource_def
      lower_char_def truthy_def Let_def)

lemma demo_branch_hash:
  "deriveBranchHash demo_host (JBytes (demo_id 0 1)) (JBigInt 5) (JBigInt 0) (jint 0) (JBytes demo_two) = Inr demo_two"
  "deriveBranchHash demo_host (JBytes (demo_id 0 1)) (JBN 5) (JBigInt 0) (jint 0) (JBytes demo_two) = Inr demo_two"
  "canonicalHashId demo_host (JBytes demo_two) (jint 2) = Inr (demo_id 2 2)"
  by (simp_all add: deriveBranchHash_def asI64_def asU64_def branch_frame_def demo_sha256_def canonicalHashId_def
      canonical_frame_def)

lemma demo_pair_child:
  assumes "fst (demo_state t)"
  shows "\<exists>u. branch demo_host demo_pair_net demo_prog (JBytes (demo_id 0 1)) (JBytes demo_two) False None t =
    (Inr \<lparr>res_signature = ''signature'', res_archive = demo_branch_only\<rparr>, u) \<and> demo_state u = (True, True)"
proof -
  let ?parent = "\<lparr>parent_createdAt = 5, parent_generation = 0, parent_sourceKind = KHash\<rparr>"
  have parent: "branchParentMetadata demo_host demo_leaf_account = Inr ?parent"
    by (simp add: branchParentMetadata_def demo_leaf_account_def account_field_def read_prop_def nullish_def
        decodeHashSource_def lower_char_def generationFromSource_def)
  have kinds: "jint (int (kind_number KHash)) = jint 0" "jint (int (kind_number KBranch)) = jint 2" by simp_all
  have source: "archiveSource demo_host (SBranch (JBytes (demo_id 0 1)) (JBytes demo_two) (0 + 1)) =
      Inr (ABranch (hex_of_bytes (demo_id 0 1)) (hex_of_bytes demo_two) (int_to_decimal 1))"
    by (simp add: archiveHex_def del: hex_of_bytes.simps)
  have draft: "\<lparr>pend_hash = hex_of_bytes demo_two, pend_source = ABranch (hex_of_bytes (demo_id 0 1)) (hex_of_bytes demo_two)
      (int_to_decimal 1), pend_members = None, pend_snapshot = None\<rparr> = pending_of demo_branch"
    by (simp add: pending_of_def demo_branch_def)
  have len: "length (demo_id 0 1) = 32" "length (demo_id 2 2) = 32" by simp_all
  have hex: "archiveHex demo_host (JBytes demo_two) = Inr (hex_of_bytes demo_two)" by (simp add: archiveHex_def)
  have b32: "to32Bytes demo_host (JBytes (demo_id 0 1)) = Inr (demo_id 0 1)" "to32Bytes demo_host (JBytes demo_two) = Inr demo_two"
    by simp_all
  show ?thesis
    by (simp only: branch_def b32 demo_pdas [OF len(1)] demo_pdas [OF len(2)] demo_fetch(1) [OF assms] parent kinds demo_branch_hash hex source
        draft demo_submit_branch instruction.select_convs bindC_def pureC_run lifted_simps Let_def prod.case sum.case option.case
        parent_metadata.select_convs) (use assms in \<open>simp add: prod_eq_iff\<close>)
qed

definition demo_pair :: hash_archive where
  "demo_pair = \<lparr>arch_programId = demo_program,
     arch_nodes = [(demo_key (demo_id 0 1), demo_leaf), (demo_key (demo_id 2 2), demo_branch)]\<rparr>"

lemma demo_pair_parts:
  "part_of demo_leaf_only demo_archive" "part_of demo_branch_only demo_archive" "part_of demo_pair demo_archive"
  by (simp_all add: part_of_def demo_nodes demo_leaf_only_def demo_branch_only_def demo_pair_def)

lemma demo_pair_wf: "wf_archive demo_host demo_leaf_only" "wf_archive demo_host demo_branch_only" "wf_archive demo_host demo_pair"
  by (rule wf_archive_part [OF demo_host_ok demo_archives_wf(1)], rule demo_pair_parts)+

lemma demo_pair_merged:
  "mergeArchives demo_host (archive_value demo_leaf_only) [archive_value demo_branch_only] = Inr demo_pair"
proof -
  have "union_of (arch_nodes demo_leaf_only) (arch_nodes demo_branch_only) (arch_nodes demo_pair)"
    by (simp add: union_of_def demo_leaf_only_def demo_branch_only_def demo_pair_def)
  moreover have "arch_programId demo_pair = demo_program" "arch_programId demo_leaf_only = demo_program"
    "arch_programId demo_branch_only = demo_program"
    by (simp_all add: demo_pair_def demo_leaf_only_def demo_branch_only_def)
  ultimately show ?thesis
    using demo_pair_wf(3)
    by (simp add: merge_parsed [OF demo_host_ok parseArchive_value [OF demo_host_ok demo_pair_wf(1)]
        parseArchive_value [OF demo_host_ok demo_pair_wf(2)]])
qed

lemma demo_registered:
  "\<exists>u. register demo_host demo_pair_net demo_prog (JBytes demo_one) None t =
    (Inr \<lparr>res_signature = ''signature'', res_archive = demo_leaf_only\<rparr>, u) \<and> fst (demo_state u)"
  by (simp only: demo_pair_register) simp

lemma demo_branched:
  "\<exists>r t. registerAndBranch demo_host demo_pair_net demo_prog demo_one demo_two [] = (Inr r, t) \<and>
     br_originalPda r = Some (demo_key (demo_id 0 1)) \<and> br_archive r = demo_pair \<and> demo_state t = (True, True)"
proof -
  have genesis: "deriveGenesisHashId demo_host (JBytes demo_one) = Inr (demo_id 0 1)"
    using deriveGenesisHashId_JBytes [of demo_one demo_host] demo_pair_digests(3) by simp
  obtain json where json: "stringifyArchive demo_host (archive_value demo_pair) = Inr json"
    by (rule stringify_wf [OF demo_host_ok demo_pair_wf(3)])
  have digests: "sha256 demo_host demo_one = demo_one" "sha256 demo_host demo_two = demo_two"
    using demo_pair_digests(1,2) by simp_all
  obtain u t where "register demo_host demo_pair_net demo_prog (JBytes demo_one) None [] =
      (Inr \<lparr>res_signature = ''signature'', res_archive = demo_leaf_only\<rparr>, t)"
    "branch demo_host demo_pair_net demo_prog (JBytes (demo_id 0 1)) (JBytes demo_two) False None t =
      (Inr \<lparr>res_signature = ''signature'', res_archive = demo_branch_only\<rparr>, u)" and state: "demo_state u = (True, True)"
    using demo_registered [of "[]"] demo_pair_child by blast
  then have "registerAndBranch demo_host demo_pair_net demo_prog demo_one demo_two [] =
      (Inr \<lparr>br_signatures = [''signature'', ''signature''], br_archive = demo_pair, br_json = json,
        br_originalPda = first_key (arch_nodes demo_leaf_only)\<rparr>, u)"
    by (simp only: registerAndBranch_def digests genesis json demo_pair_merged bindC_def pureC_run lifted_simps Let_def
        prod.case sum.case returnC_def creation_result.select_convs)
  with state show ?thesis by (simp add: demo_leaf_only_def first_key_def)
qed

section \<open>Files\<close>

text \<open>\<open>registerFile\<close> returns the record it registered: one submission, the one-node archive
  at the returned address, and then only reads.\<close>

lemma registerFile_created:
  assumes "host_ok H" "length (prog_id program) = 32" "registerFile H N program bytes t = (Inr r, t')"
  shows "\<exists>ix m slot es. rf_fileHash r = sha256 H bytes \<and>
    rf_hashId r = sha256 H (canonical_frame (rf_fileHash r) KHash) \<and> hashPda H program (JBytes (rf_hashId r)) = Inr (rf_address r) \<and>
    res_archive r = \<lparr>arch_programId = toBase58 H (prog_id program), arch_nodes = [(toBase58 H (rf_address r), m)]\<rparr> \<and>
    node_hash m = hex_of_bytes (rf_fileHash r) \<and> node_source m = AHash \<and> list_all reading es \<and>
    t' = t @ [ESubmit ix None, EConfirm (res_signature r), EAccountInfo (rf_address r) (Some slot)] @ es"
proof -
  let ?h = "sha256 H bytes"
  let ?id = "sha256 H (canonical_frame ?h KHash)"
  have len: "length ?h = 32" by (simp add: sha256_length assms(1))
  have genesis: "deriveGenesisHashId H (JBytes ?h) = Inr ?id" using len by simp
  obtain created account u where reg: "register H N program (JBytes ?h) None t = (Inr created, u)"
    and fetch: "fetchHashAccount H N program (JBytes ?id) u = (Inr (Some account), t')"
    and r: "hashPda H program (JBytes ?id) = Inr (rf_address r)" "rf_fileHash r = ?h" "rf_hashId r = ?id"
      "res_signature r = res_signature created" "res_archive r = res_archive created"
    using assms(3) by (auto simp: registerFile_def Let_def client_ok genesis simp del: hex_of_bytes.simps split: option.splits)
  obtain ix address m slot where m: "u = t @ [ESubmit ix None, EConfirm (res_signature created), EAccountInfo address (Some slot)]"
    "res_archive created = \<lparr>arch_programId = toBase58 H (prog_id program), arch_nodes = [(toBase58 H address, m)]\<rparr>"
    "node_hash m = hex_of_bytes ?h" "node_source m = AHash" "hashPda H program (JBytes ?id) = Inr address"
    by (rule register_node [OF assms(1,2) reg len])
  obtain es where "t' = u @ es" "list_all reading es" using emitsD [OF emits_fetch fetch] by blast
  with m r show ?thesis by (auto simp del: hex_of_bytes.simps)
qed

lemma branchFromFile_run:
  assumes "branchFromFile H N program parentId payload t = (Inr r, t')"
  obtains parent child childSource created u u' where
    "decodeHashSource H (account_field parent ''source'') = Inr SHash"
    "canonicalHashId H (account_field parent ''hash'') (source_object SHash) = Inr (bf_parentId r)"
    "decodeHashSource H (account_field child ''source'') = Inr childSource"
    "bf_proof r = branch_proof child childSource parent SHash KHash"
    "branch H N program parentId payload False None u = (Inr created, u')"
    "res_signature r = res_signature created" "res_archive r = res_archive created"
proof -
  obtain parent parentSource parentKind child childSource created u u' where
    r: "decodeHashSource H (account_field parent ''source'') = Inr parentSource" "source_kind parentSource = KHash"
      "hashSourceKindOf (source_object parentSource) = Inr parentKind"
      "canonicalHashId H (account_field parent ''hash'') (source_object parentSource) = Inr (bf_parentId r)"
      "decodeHashSource H (account_field child ''source'') = Inr childSource"
      "bf_proof r = branch_proof child childSource parent parentSource parentKind"
      "branch H N program parentId payload False None u = (Inr created, u')"
      "res_signature r = res_signature created" "res_archive r = res_archive created"
    using assms by (auto simp: branchFromFile_def client_ok split: option.splits if_splits)
  have "parentSource = SHash" using r(2) by (cases parentSource) simp_all
  moreover from this have "parentKind = KHash" using r(3) by simp
  ultimately show thesis using r that by blast
qed

lemma toBytes_to32Bytes:
  assumes "toBytes H v = Inr b" "to32Bytes H v = Inr h" "length b = 32"
  shows "b = h"
proof (cases v)
  case (JString s)
  then have "even (length s)" "is_hex s" "b = bytes_of_hex s"
    using assms(1) by (auto simp: toBytes_def publicKeyBytes_def decodeHex_def split: if_splits)
  moreover from this have "length s = 64" using assms(3) by (auto simp: length_bytes_of_hex)
  ultimately show ?thesis using assms(2) JString by (simp add: to32Bytes_def decodeFixed32_def length_bytes_of_hex split: if_splits)
qed (use assms in \<open>auto simp: toBytes_def to32Bytes_def publicKeyBytes_def decodeFixed32_def split: if_splits\<close>)

lemma branch_proof_encoded:
  assumes "prepareRestore H (branch_proof child childSource parent SHash KHash) createAccounts = Inr e"
  obtains a b h c payload where "proofEncoded e = [a, b]" "to32Bytes H (account_field parent ''hash'') = Inr h"
    "toBytes H (account_field parent ''hash'') = Inr payload"
    "wl_params a = Some (WPBranch \<lparr>wf_hash = h, wf_sourceKind = 0, wf_createdAt = c, wf_generation = 0\<rparr>)"
    "b = \<lparr>wl_hash = h, wl_source = WHash, wl_createdAt = c, wl_params = Some (WPHash payload)\<rparr>"
    "restoredIds e = (if createAccounts then [sha256 H (canonical_frame h KHash)] else [])"
proof -
  let ?p = "\<lparr>link_hash = account_field parent ''hash'', link_source = SHash,
    link_createdAt = account_field parent ''createdAt'', link_params = Some (PHash (account_field parent ''hash''))\<rparr>"
  obtain l where links: "branch_proof child childSource parent SHash KHash = [l, ?p]" "link_params l = Some (PBranch
      \<lparr>fp_hash = account_field parent ''hash'', fp_sourceKind = jint 0, fp_createdAt = account_field parent ''createdAt'',
        fp_generation = JBigInt 0\<rparr>)"
    by (simp_all add: branch_proof_def)
  have e: "mapE (encode_link H) [l, ?p] = Inr (proofEncoded e)"
    "mapE (link_id H) (if createAccounts then [?p] else []) = Inr (restoredIds e)"
    using assms unfolding prepareRestore_ok restore_selection_def links(1) by (auto simp del: mapE.simps split: if_splits)
  obtain a b where ab: "proofEncoded e = [a, b]" "encode_link H l = Inr a" "encode_link H ?p = Inr b"
    by (cases "encode_link H l"; cases "encode_link H ?p") (use e(1) that in \<open>auto dest: sym\<close>)
  obtain h c payload where b: "to32Bytes H (account_field parent ''hash'') = Inr h"
    "asI64 H (account_field parent ''createdAt'') = Inr c" "toBytes H (account_field parent ''hash'') = Inr payload"
    "b = \<lparr>wl_hash = h, wl_source = WHash, wl_createdAt = c, wl_params = Some (WPHash payload)\<rparr>"
    using ab(3) by (auto simp: encode_link_def simp del: asI64_ok)
  have "wl_params a = Some (WPBranch \<lparr>wf_hash = h, wf_sourceKind = 0, wf_createdAt = c, wf_generation = 0\<rparr>)"
    using ab(2) b(1,2) by (auto simp: encode_link_def links(2) encodeFingerprint_def normalizeSourceKind_def asU64_def simp del: asI64_ok)
  moreover have "restoredIds e = (if createAccounts then [sha256 H (canonical_frame h KHash)] else [])"
    using e(2) b(1) to32Bytes_length [OF b(1)]
    by (auto simp: link_id_def canonicalHashId_def split: if_splits dest!: sym [of "[_]"])
  ultimately show thesis using that ab(1) b by blast
qed

text \<open>C14: the proof \<open>branchFromFile\<close> returns restores the parent from the branch. Whatever the
  accounts it was made from contain, if \<open>prepareRestore\<close> accepts the proof then it
  has two links and asks for exactly the returned parent id; the second link is a raw hash
  whose id is that parent id and whose payload is the hash itself, and the parameters of the branch fingerprint
  exactly that link: its hash, its kind, its creation time and generation 0.\<close>

theorem branchFromFile_proof:
  assumes "host_ok H" "branchFromFile H N program parentId payload t = (Inr r, t')"
    and "prepareRestore H (bf_proof r) createAccounts = Inr e"
  shows "\<exists>anchor parent payload'. proofEncoded e = [anchor, parent] \<and>
    restoredIds e = (if createAccounts then [bf_parentId r] else []) \<and>
    wl_source parent = WHash \<and> wl_params parent = Some (WPHash payload') \<and>
    (length payload' = 32 \<longrightarrow> payload' = wl_hash parent) \<and>
    bf_parentId r = sha256 H (canonical_frame (wl_hash parent) KHash) \<and>
    wl_params anchor = Some (WPBranch \<lparr>wf_hash = wl_hash parent, wf_sourceKind = 0,
      wf_createdAt = wl_createdAt parent, wf_generation = 0\<rparr>)"
proof (rule branchFromFile_run [OF assms(2)])
  fix parent child childSource
  assume r: "canonicalHashId H (account_field parent ''hash'') (source_object SHash) = Inr (bf_parentId r)"
    "bf_proof r = branch_proof child childSource parent SHash KHash"
  then have id: "bf_parentId r = sha256 H (canonical_frame h KHash)"
    if "to32Bytes H (account_field parent ''hash'') = Inr h" for h
    using that by (simp add: canonicalHashId_def)
  show ?thesis
    by (rule branch_proof_encoded [OF assms(3) [unfolded r(2)]]) (use id toBytes_to32Bytes in fastforce)
qed

lemma branchFromFile_proof_witness:
  "\<exists>r s t e. fst (register demo_host demo_pair_net demo_prog (JBytes demo_one) None []) =
       Inr \<lparr>res_signature = ''signature'', res_archive = demo_leaf_only\<rparr> \<and>
     s = snd (register demo_host demo_pair_net demo_prog (JBytes demo_one) None []) \<and>
     branchFromFile demo_host demo_pair_net demo_prog (JBytes (demo_id 0 1)) (JBytes demo_two) s = (Inr r, t) \<and>
     prepareRestore demo_host (bf_proof r) True = Inr e \<and> restoredIds e = [bf_parentId r] \<and> bf_parentId r = demo_id 0 1"
proof -
  let ?source = "SBranch (JBytes (demo_id 0 1)) (JBytes demo_two) 1"
  let ?proof = "branch_proof demo_branch_account ?source demo_leaf_account SHash KHash"
  obtain s where s: "register demo_host demo_pair_net demo_prog (JBytes demo_one) None [] =
      (Inr \<lparr>res_signature = ''signature'', res_archive = demo_leaf_only\<rparr>, s)" "fst (demo_state s)"
    using demo_registered [of "[]"] by blast
  then have "fst (demo_state (s @ [EFetchNullable HashAccount (demo_id 0 1)]))" by simp
  from demo_pair_child [OF this] obtain u where child: "branch demo_host demo_pair_net demo_prog (JBytes (demo_id 0 1)) (JBytes demo_two)
      False None (s @ [EFetchNullable HashAccount (demo_id 0 1)]) = (Inr \<lparr>res_signature = ''signature'', res_archive = demo_branch_only\<rparr>, u)"
    and "demo_state u = (True, True)"
    by blast
  then have there: "snd (demo_state u)" by simp
  have ids: "canonicalHashId demo_host (JBytes demo_one) (source_object SHash) = Inr (demo_id 0 1)"
    "deriveBranchHashId demo_host (JBytes demo_two) = Inr (demo_id 2 2)"
    "hashSourceKindOf (source_object SHash) = Inr KHash" "source_kind SHash = KHash" "jint (int (kind_number KHash)) = jint 0"
    using demo_branch_hash(3)
    by (simp_all add: canonicalHashId_def canonical_frame_def demo_sha256_def deriveBranchHashId_def)
  have run: "branchFromFile demo_host demo_pair_net demo_prog (JBytes (demo_id 0 1)) (JBytes demo_two) s =
      (Inr \<lparr>res_signature = ''signature'', res_archive = demo_branch_only, bf_childId = demo_id 2 2,
        bf_parentId = demo_id 0 1, bf_proof = ?proof\<rparr>, u @ [EFetchNullable HashAccount (demo_id 2 2)])"
    using child by (simp only: branchFromFile_def demo_fetch(1) [OF s(2)] demo_fetch(2) [OF there] demo_account_fields demo_branch_hash ids bindC_def pureC_run
        lifted_simps Let_def prod.case sum.case option.case returnC_def creation_result.select_convs if_False not_True_eq_False simp_thms)
  obtain ws where ws: "mapE (encode_link demo_host) ?proof = Inr ws"
    by (simp add: branch_proof_def encode_link_def encodeFingerprint_def normalizeSourceKind_def demo_account_fields
        asI64_def asU64_def toBytes_def publicKeyBytes_def)
  have links: "mapE (link_id demo_host) ?proof = Inr [demo_id 2 2, demo_id 0 1]"
    by (simp add: branch_proof_def link_id_def demo_account_fields canonicalHashId_def canonical_frame_def demo_sha256_def)
  have "prepareRestore demo_host ?proof True =
      Inr \<lparr>proofEncoded = ws, anchorId = demo_id 2 2, restoredIds = [demo_id 0 1]\<rparr>"
    using ws links unfolding prepareRestore_ok by (simp add: branch_proof_def restore_selection_def)
  then obtain e where e: "prepareRestore demo_host ?proof True = Inr e" by blast
  from branchFromFile_proof [OF demo_host_ok run, of True e] e run s(1) show ?thesis by auto
qed

section \<open>The archive workflow\<close>

text \<open>C12: \<open>registerAndBranch\<close> returns a complete archive of both records. A successful run submits two
  transactions and between them only reads; each is confirmed and its record read at the slot of the confirmation.
  The archive has two nodes: the raw hash of the first file, at \<open>originalPda\<close>, and its branch with
  the digest of the second file as payload, generation 1, and the hash that commits to the
  archived original. Its inspection misses nothing, and the returned text parses to the same nodes.\<close>

theorem registerAndBranch_archive:
  assumes "host_ok H" "length (prog_id program) = 32" "registerAndBranch H N program bytes updated t = (Inr r, t')"
  shows "\<exists>m n p q es ix ix' a slot a' slot'. p \<noteq> q \<and> br_originalPda r = Some p \<and>
    br_archive r = \<lparr>arch_programId = toBase58 H (prog_id program), arch_nodes = [(p, m), (q, n)]\<rparr> \<and>
    node_hash m = hex_of_bytes (sha256 H bytes) \<and> node_source m = AHash \<and>
    node_source n = ABranch (hex_of_bytes (node_id H m)) (hex_of_bytes (sha256 H updated)) ''1'' \<and>
    node_hash n = hex_of_bytes (branch_digest H m (hex_of_bytes (sha256 H updated))) \<and>
    inspectArchive H (archive_value (br_archive r)) =
      Inr \<lparr>insp_complete = True, insp_missingNodes = [], insp_missingWitnesses = []\<rparr> \<and>
    parseArchive H (JString (br_json r)) = Inr (sort_nodes H (br_archive r)) \<and>
    length (br_signatures r) = 2 \<and> list_all reading es \<and>
    t' = t @ [ESubmit ix None, EConfirm (hd (br_signatures r)), EAccountInfo a (Some slot)] @ es @
      [ESubmit ix' None, EConfirm (last (br_signatures r)), EAccountInfo a' (Some slot')]"
proof (rule register_and_branch [OF assms], goal_cases)
  case (1 m n p q es ix ix' a slot a' slot')
  have "parseArchive H (JString (br_json r)) = Inr (sort_nodes H (br_archive r))"
    using parse_stringify [OF assms(1) 1(11)] by (simp add: parseArchive_value [OF assms(1) 1(8)])
  with 1 show ?case by blast
qed

lemma registerAndBranch_archive_witness:
  "\<exists>r t json. registerAndBranch demo_host demo_pair_net demo_prog demo_one demo_two [] = (Inr r, t) \<and>
     length (br_signatures r) = 2 \<and> length (arch_nodes (br_archive r)) = 2 \<and>
     parseArchive demo_host (JString (br_json r)) = Inr (sort_nodes demo_host demo_pair)"
proof -
  obtain r t where run: "registerAndBranch demo_host demo_pair_net demo_prog demo_one demo_two [] = (Inr r, t)"
    "br_archive r = demo_pair"
    using demo_branched by blast
  have "length (prog_id demo_prog) = 32" by simp
  moreover have "length (arch_nodes demo_pair) = 2" by (simp add: demo_pair_def)
  ultimately show ?thesis using registerAndBranch_archive [OF demo_host_ok _ run(1)] run by auto
qed

text \<open>C11: what \<open>registerAndBranch\<close> returns is enough to get the original record back. When that record
  reads as absent and its branch as unchanged at the two reads of a later planning, the saved text
  alone restores it: \<open>previewRestore\<close> of the text makes these two reads only and stores a plan of one
  step, anchored at the branch, that requests and creates exactly the original and needs no
  additional records, provided that its vote account can be derived and that a restore
  instruction of two links and two accounts fits into a transaction. Executing the plan sends one
  transaction, the Restore of the step's proof from the branch, charged to the wallet: if the
  network accepts it, the result is its signature and the archive of both records; if not, the
  error reports that nothing was completed.\<close>

theorem registerAndBranch_restorable:
  assumes "host_ok H" "length (prog_id program) = 32" "registerAndBranch H N program bytes updated t = (Inr r, t')"
    and "br_originalPda r = Some p" "q \<in> set (keys (arch_nodes (br_archive r)))" "q \<noteq> p"
    and "\<forall>es. list_all reading es \<and> length es < 2 \<longrightarrow> read_at H N program (u @ es) p = Inr None \<and>
      (\<exists>x n. read_at H N program (u @ es) q = Inr (Some x) \<and> get (arch_nodes (br_archive r)) q = Some n \<and> sameArchiveRecord H x n)"
    and "deriveVotePda H (prog_id program) (JBytes (sha256 H (canonical_frame (sha256 H bytes) KHash))) (prog_wallet program) = Inr v"
    and "small_restores_fit N (prog_wallet program)" "length (prog_wallet program) = 32"
    and "prog_sendAndConfirm program"
  shows "\<exists>plan step prepared' u' ix encoded key. previewRestore H N program prepared (br_json r) p u =
      Some (Inr (length prepared, plan), prepared', u') \<and>
    list_all reading (drop (length u) u') \<and> length u' = length u + 2 \<and> take (length u) u' = u \<and>
    plan_alreadyPresent plan = [] \<and> plan_steps plan = [step] \<and> step_anchor step = q \<and> step_targets step = [p] \<and>
    step_requested step = [p] \<and> step_creations step = [p] \<and> step_additional step = [] \<and>
    prepareRestore H (step_proof step) True = Inr encoded \<and> ix_call ix = IxRestore (proofEncoded encoded) \<and>
    publicKeyOf H q = Inr key \<and> get (ix_accounts ix) ''anchorHashAccount'' = Some key \<and>
    get (ix_accounts ix) ''payer'' = Some (prog_wallet program) \<and>
    (case (net_send N u' ix (prog_wallet program) [],
        executeRestorePlan H N program prepared' (length prepared) None None u') of
       (Inr signature, outcome, w) \<Rightarrow> w = u' @ [ESend ix (prog_wallet program) []] \<and>
         (\<exists>final. outcome = Inr final \<and> result_signatures final = [signature] \<and>
           arch_programId (result_archive final) = arch_programId (br_archive r) \<and>
           mset (arch_nodes (result_archive final)) = mset (arch_nodes (br_archive r)))
     | (Inl e, outcome, w) \<Rightarrow> w = u' @ [ESend ix (prog_wallet program) []] \<and>
         (\<exists>archive. outcome = Inl (ExecutionError [] archive 0 (Plain e)) \<and> arch_nodes archive = []))"
proof -
  let ?c = "sort_nodes H (br_archive r)" and ?w = "prog_wallet program"
    and ?o = "\<lparr>ropt_targets = [p], ropt_anchor = None, ropt_createAccounts = None\<rparr>"
  obtain m where child: "child_of H program ?c p q" and parsed: "parseArchive H (JString (br_json r)) = Inr ?c"
    and m: "get (arch_nodes ?c) p = Some m" "node_id H m = sha256 H (canonical_frame (sha256 H bytes) KHash)"
    and d: "distinct (keys (arch_nodes (br_archive r)))"
    by (rule saved_child [OF assms(1-6)])
  have withdrawn: "withdrawn H N program u ?c p q"
    using assms(7) unfolding withdrawn_def sort_nodes_get [OF d] .
  have "wf_archive H ?c" using child by (simp add: child_of_def)
  note cval = parseArchive_value [OF assms(1) this]
  obtain plan ex step where plan: "planArchiveRestore H N program prepared (archive_value ?c) ?o ?w ?w u =
      Some (Inr (length prepared, plan), prepared @ [ex], u @ map (read_event H) (keys (arch_nodes ?c)))"
    "plan_alreadyPresent plan = []" "plan_steps plan = [step]" "step_anchor step = q" "step_targets step = [p]"
    "step_requested step = [p]" "step_creations step = [p]" "step_additional step = []"
    using child_plan [OF assms(1) child withdrawn cval m(1) assms(8) [folded m(2)] assms(9,10), where prepared = prepared] by blast
  let ?u = "u @ map (read_event H) (keys (arch_nodes ?c))"
  have "set (keys (arch_nodes ?c)) = {p, q}" "distinct (keys (arch_nodes ?c))"
    using child by (auto simp: child_of_def wf_archive_def)
  then have "length (keys (arch_nodes ?c)) = 2" using assms(6) distinct_card by fastforce
  then have reads: "list_all reading (drop (length u) ?u)" "length ?u = length u + 2" "take (length u) ?u = u"
    by (simp_all add: list_all_iff read_event_def)
  obtain sent where sent: "restores_step H True ?w sent step"
    "restored_by H N ?c (prep_instruction sent) ?w ?u
       (executeArchiveRestore H N program (prepared @ [ex]) (length prepared) None ?w ?w False ?u)"
    using child_restore [OF assms(1) child cval plan(1,3,4,8,2) assms(11), of ?u] by (auto simp: create_accounts_def)
  from sent(1) plan(4) obtain encoded key where ix: "prepareRestore H (step_proof step) True = Inr encoded" "publicKeyOf H q = Inr key"
    "ix_call (prep_instruction sent) = IxRestore (proofEncoded encoded)"
    "get (ix_accounts (prep_instruction sent)) ''anchorHashAccount'' = Some key"
    "get (ix_accounts (prep_instruction sent)) ''payer'' = Some ?w"
    by (auto simp: restores_step_def)
  have preview: "previewRestore H N program prepared (br_json r) p u = Some (Inr (length prepared, plan), prepared @ [ex], ?u)"
    using plan(1) by (simp add: previewRestore_def parsed planRestore_def instructionPayer_def del: map_map)
  have "executeRestorePlan H N program (prepared @ [ex]) (length prepared) None None ?u =
      executeArchiveRestore H N program (prepared @ [ex]) (length prepared) None ?w ?w False ?u"
    by (simp add: executeRestorePlan_def instructionPayer_def)
  with sent(2) have outcome: "case (net_send N ?u (prep_instruction sent) ?w [],
        executeRestorePlan H N program (prepared @ [ex]) (length prepared) None None ?u) of
       (Inr signature, outcome, w) \<Rightarrow> w = ?u @ [ESend (prep_instruction sent) ?w []] \<and>
         (\<exists>final. outcome = Inr final \<and> result_signatures final = [signature] \<and>
           arch_programId (result_archive final) = arch_programId (br_archive r) \<and>
           mset (arch_nodes (result_archive final)) = mset (arch_nodes (br_archive r)))
     | (Inl e, outcome, w) \<Rightarrow> w = ?u @ [ESend (prep_instruction sent) ?w []] \<and>
         (\<exists>archive. outcome = Inl (ExecutionError [] archive 0 (Plain e)) \<and> arch_nodes archive = [])"
    by (auto simp: restored_by_def sort_nodes_def split: sum.splits prod.splits)
  show ?thesis using preview reads plan(2-8) ix outcome by blast
qed

text \<open>The hash is registered and branched, its vote withdrawn, and restored: it is there again.\<close>

lemma demo_unvote:
  "unvote demo_host demo_pair_net demo_prog (JBytes (demo_id 0 1)) None t = (Inr ''signature'', t @ [ESubmit \<lparr>ix_call = IxUnvote,
     ix_accounts = [(''hashAccount'', demo_id 0 1), (''voteInfo'', demo_id 0 1), (''user'', replicate 32 4),
       (''systemProgram'', SYSTEM_PROGRAM)], ix_remaining = []\<rparr> None])"
proof -
  have "length (demo_id 0 1) = 32" "to32Bytes demo_host (JBytes (demo_id 0 1)) = Inr (demo_id 0 1)" by simp_all
  moreover have "net_submit demo_pair_net u ix payer = Inr ''signature''" for u ix payer by (simp add: demo_pair_net_def demo_net_def)
  ultimately show ?thesis
    by (simp only: unvote_def vote_instruction_def demo_pdas bindE_simps bindC_def pureC_run lifted_simps submitInstruction_def
        requestC_run instructionPayer_def option.case demo_prog_simps prod.case sum.case)
qed

lemma registerAndBranch_restorable_witness:
  "\<exists>r t signature u plan step prepared v ix final w.
     registerAndBranch demo_host demo_pair_net demo_prog demo_one demo_two [] = (Inr r, t) \<and>
     unvote demo_host demo_pair_net demo_prog (JBytes (demo_id 0 1)) None t = (Inr signature, u) \<and>
     previewRestore demo_host demo_pair_net demo_prog [] (br_json r) (demo_key (demo_id 0 1)) u =
       Some (Inr (0, plan), prepared, v) \<and> plan_steps plan = [step] \<and> step_anchor step = demo_key (demo_id 2 2) \<and>
     executeRestorePlan demo_host demo_pair_net demo_prog prepared 0 None None v = (Inr final, w) \<and>
     w = v @ [ESend ix (replicate 32 4) []] \<and> mset (arch_nodes (result_archive final)) = mset (arch_nodes demo_pair) \<and>
     read_at demo_host demo_pair_net demo_prog v (demo_key (demo_id 0 1)) = Inr None \<and>
     read_at demo_host demo_pair_net demo_prog w (demo_key (demo_id 0 1)) = Inr (Some demo_leaf)"
proof -
  obtain r t where run: "registerAndBranch demo_host demo_pair_net demo_prog demo_one demo_two [] = (Inr r, t)"
    and r: "br_originalPda r = Some (demo_key (demo_id 0 1))" "br_archive r = demo_pair" and t: "demo_state t = (True, True)"
    using demo_branched by blast
  obtain signature u where unvoted: "unvote demo_host demo_pair_net demo_prog (JBytes (demo_id 0 1)) None t = (Inr signature, u)"
    and u: "demo_state u = (False, True)"
    by (rule that [OF demo_unvote]) (simp add: t)
  have len: "length (prog_id demo_prog) = 32" by simp
  have q: "demo_key (demo_id 2 2) \<in> set (keys (arch_nodes (br_archive r)))" "demo_key (demo_id 2 2) \<noteq> demo_key (demo_id 0 1)"
    by (simp_all add: r demo_pair_def)
  have withdrawn: "\<forall>es. list_all reading es \<and> length es < 2 \<longrightarrow>
      read_at demo_host demo_pair_net demo_prog (u @ es) (demo_key (demo_id 0 1)) = Inr None \<and>
      (\<exists>x n. read_at demo_host demo_pair_net demo_prog (u @ es) (demo_key (demo_id 2 2)) = Inr (Some x) \<and>
        get (arch_nodes (br_archive r)) (demo_key (demo_id 2 2)) = Some n \<and> sameArchiveRecord demo_host x n)"
    by (simp add: read_at_def demo_pair_leaf demo_pair_branch demo_effect_reading u r demo_pair_def get_def sameArchiveRecord_def)
  have vote: "deriveVotePda demo_host (prog_id demo_prog) (JBytes (sha256 demo_host
      (canonical_frame (sha256 demo_host demo_one) KHash))) (prog_wallet demo_prog) = Inr (demo_id 0 1)"
    by (simp add: deriveVotePda_def findPda_def demo_find_def demo_sha256_def canonical_frame_def)
  have net: "small_restores_fit demo_pair_net (prog_wallet demo_prog)" "length (prog_wallet demo_prog) = 32"
    "prog_sendAndConfirm demo_prog"
    by (simp_all add: small_restores_fit_def demo_pair_net_def demo_net_def demo_prog_def)
  have accepted: "net_send demo_pair_net v ix key signers = Inr ''signature''" for v ix key signers
    by (simp add: demo_pair_net_def demo_net_def)
  note carried = registerAndBranch_restorable [OF demo_host_ok len run r(1) q withdrawn vote net, where prepared = "[]"]
  obtain plan step prepared v ix where restored:
    "previewRestore demo_host demo_pair_net demo_prog [] (br_json r) (demo_key (demo_id 0 1)) u = Some (Inr (0, plan), prepared, v)"
    "list_all reading (drop (length u) v)" "take (length u) v = u" "plan_steps plan = [step]" "step_anchor step = demo_key (demo_id 2 2)"
    and executed: "case executeRestorePlan demo_host demo_pair_net demo_prog prepared 0 None None v of (outcome, w) \<Rightarrow>
      w = v @ [ESend ix (replicate 32 4) []] \<and> (\<exists>final. outcome = Inr final \<and> result_signatures final = [''signature''] \<and>
        arch_programId (result_archive final) = arch_programId demo_pair \<and> mset (arch_nodes (result_archive final)) = mset (arch_nodes demo_pair))"
    using carried [unfolded accepted r(2) demo_prog_simps prod.case sum.case list.size(3)]
    by (elim exE conjE) (rule that, assumption+)
  obtain final w where sent:
    "executeRestorePlan demo_host demo_pair_net demo_prog prepared 0 None None v = (Inr final, w)"
    "w = v @ [ESend ix (replicate 32 4) []]" "mset (arch_nodes (result_archive final)) = mset (arch_nodes demo_pair)"
    using executed by (cases "executeRestorePlan demo_host demo_pair_net demo_prog prepared 0 None None v") auto
  have "v = u @ drop (length u) v" using restored(3) by (metis append_take_drop_id)
  then have v: "demo_state v = (False, True)" using demo_effect_reading [OF restored(2)] u by (metis demo_state_append(2))
  show ?thesis
    using run unvoted restored(1,4,5) sent v by (auto simp: read_at_def demo_pair_leaf)
qed

end
