(* ===== verification/Patterns.thy ===== *)
theory Patterns
  imports JsonText
begin

text \<open>
  What the scripts use of regular expressions: white space and line terminators, and matching at
  the start of a line.
\<close>

text \<open>\<open>\s\<close> and the line terminators among code units below 256.\<close>

definition js_space :: "char \<Rightarrow> bool" where
  "js_space c \<longleftrightarrow> (let n = of_char c :: nat in 9 \<le> n \<and> n \<le> 13 \<or> n = 32 \<or> n = 160)"

definition line_end :: "char \<Rightarrow> bool" where
  "line_end c \<longleftrightarrow> c = CHR 0x0A \<or> c = CHR 0x0D"

text \<open>The first match of a pattern that starts with \<open>^\<close> under the flag \<open>m\<close>: the matcher is tried at
  the start of the text and after each line terminator.\<close>

fun match_lines :: "(string \<Rightarrow> 'a option) \<Rightarrow> bool \<Rightarrow> string \<Rightarrow> 'a option" where
  "match_lines m start [] = (if start then m [] else None)"
| "match_lines m start (c # s) = (case (if start then m (c # s) else None) of
      Some x \<Rightarrow> Some x
    | None \<Rightarrow> match_lines m (line_end c) s)"

definition line_start :: "string \<Rightarrow> bool" where
  "line_start before \<longleftrightarrow> before = [] \<or> line_end (last before)"

lemma match_lines_sound:
  "match_lines m start s = Some x \<Longrightarrow>
     \<exists>before rest. s = before @ rest \<and> m rest = Some x \<and> (before = [] \<and> start \<or> before \<noteq> [] \<and> line_end (last before))"
proof (induction s arbitrary: start)
  case Nil
  then show ?case by (auto split: if_splits)
next
  case (Cons c s)
  show ?case
  proof (cases "if start then m (c # s) else None")
    case (Some y)
    with Cons.prems have "start" "m (c # s) = Some x" by (auto split: if_splits)
    then show ?thesis by (intro exI [of _ "[]"] exI [of _ "c # s"]) simp
  next
    case None
    with Cons.prems have "match_lines m (line_end c) s = Some x" by simp
    from Cons.IH [OF this] obtain before rest where
      "s = before @ rest" "m rest = Some x" "before = [] \<and> line_end c \<or> before \<noteq> [] \<and> line_end (last before)" by blast
    then show ?thesis by (intro exI [of _ "c # before"] exI [of _ rest]) auto
  qed
qed

lemma match_lines_start:
  assumes "match_lines m True s = Some x"
  obtains before rest where "s = before @ rest" "m rest = Some x" "line_start before"
  using match_lines_sound [OF assms] by (auto simp: line_start_def)

lemma strip_prefix_Some: "strip_prefix p s = Some r \<longleftrightarrow> s = p @ r"
  by (auto simp: strip_prefix_def) (metis append_take_drop_id)

lemma spaces_dropped: "\<exists>w. s = w @ dropWhile js_space s \<and> list_all js_space w"
  by (rule exI [of _ "takeWhile js_space s"]) (auto simp: list_all_iff dest: set_takeWhileD)

text \<open>A loop that returns the first result it finds.\<close>

fun first_some :: "('a \<Rightarrow> 'b option) \<Rightarrow> 'a list \<Rightarrow> 'b option" where
  "first_some f [] = None"
| "first_some f (x # xs) = (case f x of None \<Rightarrow> first_some f xs | Some y \<Rightarrow> Some y)"

lemma first_some_cong [fundef_cong]:
  "xs = ys \<Longrightarrow> (\<And>x. x \<in> set ys \<Longrightarrow> f x = g x) \<Longrightarrow> first_some f xs = first_some g ys"
  by (induction ys arbitrary: xs) (auto split: option.splits)

lemma first_some_None: "first_some f xs = None \<longleftrightarrow> (\<forall>x \<in> set xs. f x = None)"
  by (induction xs) (auto split: option.splits)

lemma first_some_Some: "first_some f xs = Some y \<Longrightarrow> \<exists>x \<in> set xs. f x = Some y"
  by (induction xs) (auto split: option.splits)

end
