(* ===== verification/IdlCheck.thy ===== *)
theory IdlCheck
  imports Patterns
begin

text \<open>
  \<open>scripts/check-idl.cjs\<close>: the gate that compares the generated IDL with its baseline and
  the program addresses of \<open>Anchor.toml\<close> with the baseline's. The file system, the working
  directory and the messages of \<open>JSON.parse\<close> are parameters.
\<close>

section \<open>Normal form and comparison\<close>

text \<open>\<open>normalize\<close> of the script. A JSON object holds each key once, so assigning the sorted keys to a
  new object lists its entries sorted.\<close>

fun normalize_idl :: "jsval \<Rightarrow> jsval" where
  "normalize_idl (JArray vs) = JArray (map normalize_idl vs)"
| "normalize_idl (JObject es) =
     JObject (sort_by (\<lambda>(j, _) (k, _). codeunit_le j k)
       (map (\<lambda>(k, v). (k, normalize_idl v)) (filter (\<lambda>(k, _). k \<noteq> ''docs'') es)))"
| "normalize_idl v = v"

lemma element_size: "v \<in> set vs \<Longrightarrow> size v < Suc (size_list size vs)"
  by (simp add: less_Suc_eq_le size_list_estimation')

lemma get_size: "get es key = Some v \<Longrightarrow> size v < size (JObject es)"
proof -
  assume "get es key = Some v"
  then have "(key, v) \<in> set es" by (rule get_mem)
  then show ?thesis by (induction es) auto
qed

text \<open>
  \<open>firstDifference\<close> on JSON values. \<open>Object.is\<close> decides equality of the values that are neither
  arrays nor objects; on two of those the loops find no difference when they are one and the same.
  \<open>key in value\<close> sees inherited names too, but those hold functions, which differ from every JSON
  value, and the location is the same.
\<close>

function firstDifference :: "jsval \<Rightarrow> jsval \<Rightarrow> string \<Rightarrow> string option" where
  "firstDifference expected actual location = (case (expected, actual) of
      (JArray es, JArray as) \<Rightarrow>
        if length es \<noteq> length as then Some (location @ ''.length'')
        else first_some (\<lambda>i. firstDifference (es ! i) (as ! i) (location @ ''['' @ nat_to_decimal i @ '']'')) [0..<length es]
    | (JObject es, JObject as) \<Rightarrow>
        first_some (\<lambda>key.
            case get es key of
              None \<Rightarrow> Some (location @ ''.'' @ key)
            | Some v \<Rightarrow> (case get as key of
                None \<Rightarrow> Some (location @ ''.'' @ key)
              | Some w \<Rightarrow> firstDifference v w (location @ ''.'' @ key)))
          (sort_by codeunit_le (remdups (keys es @ keys as)))
    | (JArray es, _) \<Rightarrow> Some location
    | (JObject es, _) \<Rightarrow> Some location
    | _ \<Rightarrow> if expected = actual then None else Some location)"
  by pat_completeness auto
termination
  by (relation "measure (size \<circ> fst)") (auto dest!: get_size intro!: element_size nth_mem)

declare firstDifference.simps [simp del]

text \<open>\<open>util.isDeepStrictEqual\<close> on JSON values.\<close>

function isDeepStrictEqual :: "jsval \<Rightarrow> jsval \<Rightarrow> bool" where
  "isDeepStrictEqual actual expected = (case (actual, expected) of
      (JArray vs, JArray ws) \<Rightarrow>
        length vs = length ws \<and> (\<forall>i \<in> set [0..<length vs]. isDeepStrictEqual (vs ! i) (ws ! i))
    | (JObject es, JObject fs) \<Rightarrow>
        set (keys es) = set (keys fs) \<and>
        (\<forall>key \<in> set (keys es). case get es key of
            None \<Rightarrow> False
          | Some v \<Rightarrow> (case get fs key of None \<Rightarrow> False | Some w \<Rightarrow> isDeepStrictEqual v w))
    | _ \<Rightarrow> actual = expected)"
  by pat_completeness auto
termination
  by (relation "measure (size \<circ> fst)") (auto dest!: get_size intro!: element_size nth_mem)

declare isDeepStrictEqual.simps [simp del]

section \<open>The program address of a cluster\<close>

text \<open>\<open>\[programs\.CLUSTER\]\s*\n([^\[]*)\<close>: the white space matched by \<open>\s*\<close> ends before the last
  line feed of the run.\<close>

definition match_section :: "string \<Rightarrow> string \<Rightarrow> string option" where
  "match_section cluster s = (case strip_prefix (''[programs.'' @ cluster @ '']'') s of
      None \<Rightarrow> None
    | Some r \<Rightarrow>
        let space = takeWhile js_space r; rest = dropWhile js_space r in
        if CHR 0x0A \<notin> set space then None
        else Some (takeWhile (\<lambda>c. c \<noteq> CHR ''['') (rev (takeWhile (\<lambda>c. c \<noteq> CHR 0x0A) (rev space)) @ rest)))"

text \<open>\<open>\s*hash_timestamp\s*=\s*"([1-9A-HJ-NP-Za-km-z]+)"\s*(?:#.*)?$\<close>.\<close>

definition line_tail :: "string \<Rightarrow> bool" where
  "line_tail s \<longleftrightarrow> (let rest = dropWhile js_space s in
     rest = [] \<or> hd rest = CHR ''#'' \<or> list_ex line_end (takeWhile js_space s))"

definition match_entry :: "string \<Rightarrow> string option" where
  "match_entry s = (case strip_prefix ''hash_timestamp'' (dropWhile js_space s) of
      None \<Rightarrow> None
    | Some r1 \<Rightarrow> (case strip_prefix ''='' (dropWhile js_space r1) of
        None \<Rightarrow> None
      | Some r2 \<Rightarrow> (case strip_prefix [CHR 0x22] (dropWhile js_space r2) of
          None \<Rightarrow> None
        | Some r3 \<Rightarrow>
            let address = takeWhile base58_char r3 in
            (case strip_prefix [CHR 0x22] (dropWhile base58_char r3) of
               None \<Rightarrow> None
             | Some r4 \<Rightarrow> if address \<noteq> [] \<and> line_tail r4 then Some address else None))))"

definition configuredAddress :: "string \<Rightarrow> string \<Rightarrow> string result" where
  "configuredAddress cluster config =
     (case match_lines (match_section cluster) True config of
        None \<Rightarrow> Inl (Error (''Missing program address for '' @ cluster))
      | Some section \<Rightarrow> (case match_lines match_entry True section of
          None \<Rightarrow> Inl (Error (''Missing program address for '' @ cluster))
        | Some address \<Rightarrow> Inr address))"

text \<open>\<open>address\<close> is whatever the baseline has under that name.\<close>

definition check_cluster :: "jsval \<Rightarrow> string \<Rightarrow> string \<Rightarrow> unit result" where
  "check_cluster address config cluster =
     bindE (configuredAddress cluster config) (\<lambda>configured.
     if JString configured \<noteq> address
     then Inl (Error (''Program address for '' @ cluster @ '' must match the IDL baseline.''))
     else Inr ())"

definition checkConfiguredAddresses :: "jsval \<Rightarrow> string \<Rightarrow> unit result" where
  "checkConfiguredAddresses address config =
     bindE (mapE (check_cluster address config) [''devnet'', ''testnet'', ''localnet'']) (\<lambda>_. Inr ())"

section \<open>The program\<close>

text \<open>\<open>path.resolve(projectRoot, p)\<close>, the contents of the files, and the message of the
  \<open>SyntaxError\<close> of a text that is not JSON.\<close>

record environment =
  env_resolve :: "string \<Rightarrow> string"
  env_files :: "string \<Rightarrow> string option"
  env_syntax :: "string \<Rightarrow> string"

record idl_options =
  idl_actual :: string
  idl_baseline :: string

fun parse_arguments :: "environment \<Rightarrow> idl_options \<Rightarrow> string list \<Rightarrow> idl_options result" where
  "parse_arguments env options [] = Inr options"
| "parse_arguments env options (argument # rest) =
     (if argument \<notin> {''--actual'', ''--baseline''} then Inl (Error (''unknown argument: '' @ argument))
      else (case rest of
          [] \<Rightarrow> Inl (Error (argument @ '' requires a path''))
        | value # rest' \<Rightarrow>
            if value = [] then Inl (Error (argument @ '' requires a path''))
            else if argument = ''--actual''
              then parse_arguments env (options\<lparr>idl_actual := env_resolve env value\<rparr>) rest'
              else parse_arguments env (options\<lparr>idl_baseline := env_resolve env value\<rparr>) rest'))"

definition parseArguments :: "environment \<Rightarrow> string list \<Rightarrow> idl_options result" where
  "parseArguments env argv = parse_arguments env
     \<lparr>idl_actual = env_resolve env ''target/idl/hash_timestamp.json'',
       idl_baseline = env_resolve env ''tests/fixtures/idl.json''\<rparr> argv"

definition readJson :: "host \<Rightarrow> environment \<Rightarrow> string \<Rightarrow> string \<Rightarrow> jsval result" where
  "readJson H env filePath label = (case env_files env filePath of
      None \<Rightarrow> Inl (Error (label @ '' IDL not found: '' @ filePath))
    | Some text \<Rightarrow> (case json_parse H text of
        None \<Rightarrow> Inl (Error (label @ '' IDL is not valid JSON: '' @ env_syntax env text))
      | Some v \<Rightarrow> Inr v))"

text \<open>\<open>value.name\<close> for the names the program reads, none of which is inherited.\<close>

definition field :: "jsval \<Rightarrow> string \<Rightarrow> jsval result" where
  "field v name = (case v of
      JObject obj \<Rightarrow> Inr (read_prop obj name)
    | JNull \<Rightarrow> Inl (HostError ''TypeError'')
    | JUndefined \<Rightarrow> Inl (HostError ''TypeError'')
    | _ \<Rightarrow> Inr JUndefined)"

text \<open>How a run ends: a match names the version it printed, a mismatch its location. The exit code
  is 0 for a match only.\<close>

datatype verdict = Matches jsval | Mismatch string

definition check_idl :: "host \<Rightarrow> environment \<Rightarrow> string list \<Rightarrow> verdict result" where
  "check_idl H env argv =
     bindE (parseArguments env argv) (\<lambda>options.
     bindE (readJson H env (idl_baseline options) ''baseline'') (\<lambda>baseline.
     let expected = normalize_idl baseline in
     bindE (field expected ''address'') (\<lambda>address.
     bindE (case env_files env (env_resolve env ''Anchor.toml'') of
         None \<Rightarrow> Inl (HostError ''readFileSync'')
       | Some config \<Rightarrow> checkConfiguredAddresses address config) (\<lambda>_.
     bindE (readJson H env (idl_actual options) ''generated'') (\<lambda>generated.
     let actual = normalize_idl generated in
     if \<not> isDeepStrictEqual actual expected
     then Inr (Mismatch (case firstDifference expected actual ''IDL'' of None \<Rightarrow> ''IDL'' | Some d \<Rightarrow> d))
     else
       bindE (field expected ''metadata'') (\<lambda>metadata.
       bindE (field metadata ''version'') (\<lambda>version. Inr (Matches version))))))))"

section \<open>The same contract\<close>

text \<open>Two values are the same but for the order of object entries and for the entries with a name in
  \<open>D\<close>, at any depth.\<close>

definition scalar :: "jsval \<Rightarrow> bool" where
  "scalar v = (case v of JArray _ \<Rightarrow> False | JObject _ \<Rightarrow> False | _ \<Rightarrow> True)"

inductive same_json :: "string set \<Rightarrow> jsval \<Rightarrow> jsval \<Rightarrow> bool" for D where
  same_scalar: "scalar v \<Longrightarrow> same_json D v v"
| same_array: "length vs = length ws \<Longrightarrow> (\<And>i. i < length vs \<Longrightarrow> same_json D (vs ! i) (ws ! i)) \<Longrightarrow>
    same_json D (JArray vs) (JArray ws)"
| same_object: "(\<And>k. k \<notin> D \<Longrightarrow> get es k = None \<longleftrightarrow> get fs k = None) \<Longrightarrow>
    (\<And>k v w. k \<notin> D \<Longrightarrow> get es k = Some v \<Longrightarrow> get fs k = Some w \<Longrightarrow> same_json D v w) \<Longrightarrow>
    same_json D (JObject es) (JObject fs)"

inductive_simps same_json_array [simp]: "same_json D (JArray vs) w"
inductive_simps same_json_object [simp]: "same_json D (JObject es) w"

lemma same_json_scalar [simp]: "scalar v \<Longrightarrow> same_json D v w \<longleftrightarrow> v = w"
  by (auto simp: scalar_def elim: same_json.cases intro: same_json.intros)

lemma scalar_simps [simp]: "\<not> scalar (JArray vs)" "\<not> scalar (JObject es)"
  by (simp_all add: scalar_def)

lemma value_cases:
  obtains (array) vs where "v = JArray vs" | (object) es where "v = JObject es" | (scalar) "scalar v"
  by (cases v) (auto simp: scalar_def)

text \<open>Both comparisons of the program decide equality up to the order of entries.\<close>

lemma same_entries:
  "(\<forall>key \<in> set (keys es) \<union> set (keys fs). case get es key of None \<Rightarrow> False
      | Some v \<Rightarrow> (case get fs key of None \<Rightarrow> False | Some w \<Rightarrow> P v w)) \<longleftrightarrow>
   (\<forall>k. get es k = None \<longleftrightarrow> get fs k = None) \<and> (\<forall>k v w. get es k = Some v \<longrightarrow> get fs k = Some w \<longrightarrow> P v w)"
    (is "?l \<longleftrightarrow> ?r")
proof
  assume l: ?l
  have "get es k = None \<longleftrightarrow> get fs k = None" for k
    using bspec [OF l, of k] unfolding Un_iff
    by (cases "get es k"; cases "get fs k") (auto dest: get_key)
  moreover have "P v w" if "get es k = Some v" "get fs k = Some w" for k v w
    using bspec [OF l, of k] that get_key [OF that(1)] by auto
  ultimately show ?r by blast
next
  assume r: ?r
  show ?l
  proof
    fix k assume "k \<in> set (keys es) \<union> set (keys fs)"
    then have "get es k \<noteq> None \<or> get fs k \<noteq> None" by (simp only: get_None_iff Un_iff not_not)
    with r obtain v w where "get es k = Some v" "get fs k = Some w" by (metis option.exhaust)
    with r show "case get es k of None \<Rightarrow> False | Some v \<Rightarrow> (case get fs k of None \<Rightarrow> False | Some w \<Rightarrow> P v w)" by simp
  qed
qed

lemma same_entries':
  "set (keys es) = set (keys fs) \<and> (\<forall>key \<in> set (keys es). case get es key of None \<Rightarrow> False
      | Some v \<Rightarrow> (case get fs key of None \<Rightarrow> False | Some w \<Rightarrow> P v w)) \<longleftrightarrow>
   (\<forall>k. get es k = None \<longleftrightarrow> get fs k = None) \<and> (\<forall>k v w. get es k = Some v \<longrightarrow> get fs k = Some w \<longrightarrow> P v w)"
proof (cases "set (keys es) = set (keys fs)")
  case True
  then show ?thesis using same_entries [of es fs P] by (simp only: Un_absorb simp_thms)
next
  case False
  then have "\<not> (\<forall>k. get es k = None \<longleftrightarrow> get fs k = None)" unfolding get_None_iff by blast
  with False show ?thesis by blast
qed

lemma firstDifference_None: "firstDifference e a l = None \<longleftrightarrow> same_json {} e a"
proof (induction e a l rule: firstDifference.induct)
  case (1 e a l)
  show ?case
  proof (cases e rule: value_cases)
    case (array es)
    with 1(1) show ?thesis
      by (cases a) (auto simp: firstDifference.simps [of "JArray es"] first_some_None)
  next
    case (object es)
    show ?thesis
    proof (cases a)
      case (JObject fs)
      have ih: "firstDifference v w (l @ ''.'' @ k) = None \<longleftrightarrow> same_json {} v w" if "get es k = Some v" "get fs k = Some w" for k v w
        using 1(2) [OF refl object JObject _ that] get_key [OF that(1)] by simp
      have "firstDifference e a l = None \<longleftrightarrow> (\<forall>key \<in> set (keys es) \<union> set (keys fs). case get es key of None \<Rightarrow> False
          | Some v \<Rightarrow> (case get fs key of None \<Rightarrow> False | Some w \<Rightarrow> same_json {} v w))" (is "_ \<longleftrightarrow> (\<forall>key \<in> _. ?c key)")
      proof -
        have "(case get es key of None \<Rightarrow> Some (l @ ''.'' @ key) | Some v \<Rightarrow> (case get fs key of
            None \<Rightarrow> Some (l @ ''.'' @ key) | Some w \<Rightarrow> firstDifference v w (l @ ''.'' @ key))) = None \<longleftrightarrow> ?c key" for key
          using ih by (auto split: option.split)
        then show ?thesis
          unfolding object JObject by (subst firstDifference.simps)
            (simp only: prod.case jsval.case first_some_None set_sort_by set_remdups set_append)
      qed
      then show ?thesis unfolding same_entries by (simp add: object JObject)
    qed (simp_all add: object firstDifference.simps [of "JObject es"])
  next
    case scalar
    then show ?thesis
      by (subst firstDifference.simps) (cases e; cases a; simp add: scalar_def)
  qed
qed

lemma same_json_sym: "same_json D v w \<Longrightarrow> same_json D w v"
proof (induction rule: same_json.induct)
  case (same_array vs ws)
  then show ?case by (intro same_json.same_array) simp_all
next
  case (same_object es fs)
  then show ?case by (intro same_json.same_object) blast+
qed (rule same_json.same_scalar)

lemma isDeepStrictEqual_iff: "isDeepStrictEqual a e \<longleftrightarrow> same_json {} a e"
proof (induction a e rule: isDeepStrictEqual.induct)
  case (1 a e)
  show ?case
  proof (cases a rule: value_cases)
    case (array vs)
    with 1(1) show ?thesis
      by (cases e) (auto simp: isDeepStrictEqual.simps [of "JArray vs"])
  next
    case (object es)
    show ?thesis
    proof (cases e)
      case (JObject fs)
      have ih: "isDeepStrictEqual v w \<longleftrightarrow> same_json {} v w" if "get es k = Some v" "get fs k = Some w" for k v w
        using 1(2) [OF refl object JObject _ that] get_key [OF that(1)] by simp
      have "isDeepStrictEqual a e \<longleftrightarrow> set (keys es) = set (keys fs) \<and> (\<forall>key \<in> set (keys es). case get es key of None \<Rightarrow> False
          | Some v \<Rightarrow> (case get fs key of None \<Rightarrow> False | Some w \<Rightarrow> isDeepStrictEqual v w))"
        unfolding object JObject by (subst isDeepStrictEqual.simps) simp
      then show ?thesis unfolding same_entries' using ih by (simp add: object JObject)
    qed (simp_all add: object isDeepStrictEqual.simps [of "JObject es"])
  next
    case scalar
    then show ?thesis
      by (subst isDeepStrictEqual.simps) (cases e; cases a; simp add: scalar_def)
  qed
qed

section \<open>Normal forms\<close>

lemma get_insert_entry:
  "get (insert_by (\<lambda>(j, _) (k, _). codeunit_le j k) (k, v) es) k' = (if k' = k then Some v else get es k')"
  by (induction es) (auto split: if_splits)

lemma get_sorted_entries [simp]: "get (sort_by (\<lambda>(j, _) (k, _). codeunit_le j k) es) k = get es k"
  by (induction es) (auto simp: get_insert_entry)

lemma get_normalized:
  "get (map (\<lambda>(k, v). (k, f v)) (filter (\<lambda>(k, _). k \<noteq> ''docs'') es)) k =
     (if k = ''docs'' then None else map_option f (get es k))"
  by (induction es) auto

lemma normalize_scalar [simp]: "scalar v \<Longrightarrow> normalize_idl v = v" "scalar (normalize_idl v) \<longleftrightarrow> scalar v"
  by (cases v; simp add: scalar_def)+

lemma normalize_eq_scalar: "scalar v \<Longrightarrow> v = normalize_idl b \<longleftrightarrow> v = b"
  by (metis normalize_scalar)

text \<open>The documentation and the order of entries are all that normal forms forget.\<close>

lemma same_normalized: "same_json {} (normalize_idl a) (normalize_idl b) \<longleftrightarrow> same_json {''docs''} a b"
proof (induction a arbitrary: b rule: normalize_idl.induct)
  case (1 vs)
  then show ?case by (cases b) (auto simp: scalar_def)
next
  case (2 es)
  show ?case
  proof (cases b)
    case (JObject fs)
    have ih: "same_json {} (normalize_idl v) (normalize_idl w) \<longleftrightarrow> same_json {''docs''} v w"
      if "k \<noteq> ''docs''" "get es k = Some v" for k v w
      by (rule 2) (use that get_mem [OF that(2)] in auto)
    have "same_json {} (normalize_idl (JObject es)) (normalize_idl b) \<longleftrightarrow>
        (\<forall>k. k \<noteq> ''docs'' \<longrightarrow> (get es k = None \<longleftrightarrow> get fs k = None)) \<and>
        (\<forall>k v w. k \<noteq> ''docs'' \<longrightarrow> get es k = Some v \<longrightarrow> get fs k = Some w \<longrightarrow> same_json {} (normalize_idl v) (normalize_idl w))"
      unfolding JObject normalize_idl.simps same_json_object by (auto simp: get_normalized)
    then show ?thesis using ih unfolding JObject same_json_object by auto
  qed (auto simp: scalar_def)
qed (simp_all add: normalize_eq_scalar scalar_def)

section \<open>Locations\<close>

datatype path_step = Key string | Index nat

fun value_at :: "path_step list \<Rightarrow> jsval \<Rightarrow> jsval option" where
  "value_at [] v = Some v"
| "value_at (Key k # p) v = (case v of
      JObject es \<Rightarrow> (case get es k of None \<Rightarrow> None | Some w \<Rightarrow> value_at p w) | _ \<Rightarrow> None)"
| "value_at (Index i # p) v = (case v of
      JArray vs \<Rightarrow> if i < length vs then value_at p (vs ! i) else None | _ \<Rightarrow> None)"

fun step_text :: "path_step \<Rightarrow> string" where
  "step_text (Key k) = ''.'' @ k"
| "step_text (Index i) = ''['' @ nat_to_decimal i @ '']''"

definition path_text :: "path_step list \<Rightarrow> string" where
  "path_text p = concat (map step_text p)"

text \<open>At the path one value is missing, or both are there and differ.\<close>

definition differs :: "path_step list \<Rightarrow> jsval \<Rightarrow> jsval \<Rightarrow> bool" where
  "differs p e a \<longleftrightarrow> (value_at p e \<noteq> None \<or> value_at p a \<noteq> None) \<and>
     (\<forall>v w. value_at p e = Some v \<longrightarrow> value_at p a = Some w \<longrightarrow> \<not> same_json {} v w)"

definition lengths_differ :: "path_step list \<Rightarrow> jsval \<Rightarrow> jsval \<Rightarrow> bool" where
  "lengths_differ p e a \<longleftrightarrow> (\<exists>vs ws. value_at p e = Some (JArray vs) \<and> value_at p a = Some (JArray ws) \<and> length vs \<noteq> length ws)"

lemma firstDifference_Some:
  "firstDifference e a l = Some d \<Longrightarrow>
     \<exists>p. d = l @ path_text p \<and> differs p e a \<or> d = l @ path_text p @ ''.length'' \<and> lengths_differ p e a"
proof (induction e a l arbitrary: d rule: firstDifference.induct)
  case (1 e a l)
  then have differ: "\<not> same_json {} e a" by (metis firstDifference_None option.discI)
  have here: ?case if "d = l"
    by (rule exI [of _ "[]"]) (use that differ in \<open>simp add: path_text_def differs_def\<close>)
  show ?case
  proof (cases e rule: value_cases)
    case (array es)
    show ?thesis
    proof (cases a)
      case (JArray fs)
      show ?thesis
      proof (cases "length es = length fs")
        case True
        obtain i where i: "i < length es" "firstDifference (es ! i) (fs ! i) (l @ ''['' @ nat_to_decimal i @ '']'') = Some d"
          using 1(3) True unfolding array JArray
          by (subst (asm) firstDifference.simps) (auto dest!: first_some_Some)
        from 1(1) [OF refl array JArray _ _ i(2)] i(1) True obtain p where
          "d = l @ ''['' @ nat_to_decimal i @ '']'' @ path_text p \<and> differs p (es ! i) (fs ! i) \<or>
           d = l @ ''['' @ nat_to_decimal i @ '']'' @ path_text p @ ''.length'' \<and> lengths_differ p (es ! i) (fs ! i)" by auto
        then show ?thesis
          by (intro exI [of _ "Index i # p"])
            (use i(1) True array JArray in \<open>auto simp: path_text_def differs_def lengths_differ_def\<close>)
      next
        case False
        then show ?thesis using 1(3) unfolding array JArray
          by (subst (asm) firstDifference.simps) (intro exI [of _ "[]"], auto simp: path_text_def lengths_differ_def)
      qed
    qed (use here 1(3) array in \<open>simp_all add: firstDifference.simps [of "JArray es"]\<close>)
  next
    case (object es)
    show ?thesis
    proof (cases a)
      case (JObject fs)
      obtain k where k: "k \<in> set (keys es) \<or> k \<in> set (keys fs)" "(case get es k of None \<Rightarrow> Some (l @ ''.'' @ k)
          | Some v \<Rightarrow> (case get fs k of None \<Rightarrow> Some (l @ ''.'' @ k)
             | Some w \<Rightarrow> firstDifference v w (l @ ''.'' @ k))) = Some d"
        using 1(3) unfolding object JObject
        by (subst (asm) firstDifference.simps) (auto dest!: first_some_Some)
      show ?thesis
      proof (cases "get es k = None \<or> get fs k = None")
        case True
        moreover have "get es k \<noteq> None \<or> get fs k \<noteq> None" using k(1) unfolding get_None_iff by blast
        ultimately have "d = l @ path_text [Key k] \<and> differs [Key k] e a"
          using k(2) object JObject by (auto simp: path_text_def differs_def split: option.splits)
        then show ?thesis by blast
      next
        case False
        then obtain v w where vw: "get es k = Some v" "get fs k = Some w" by auto
        with k(2) have "firstDifference v w (l @ ''.'' @ k) = Some d" by simp
        from 1(2) [OF refl object JObject _ vw this] k(1) obtain p where
          "d = l @ ''.'' @ k @ path_text p \<and> differs p v w \<or> d = l @ ''.'' @ k @ path_text p @ ''.length'' \<and> lengths_differ p v w"
          by auto
        then show ?thesis
          by (intro exI [of _ "Key k # p"])
            (use vw object JObject in \<open>auto simp: path_text_def differs_def lengths_differ_def\<close>)
      qed
    qed (use here 1(3) object in \<open>simp_all add: firstDifference.simps [of "JObject es"]\<close>)
  next
    case scalar
    with 1(3) have "d = l"
      by (subst (asm) firstDifference.simps) (cases e; cases a; simp add: scalar_def split: if_splits)
    then show ?thesis by (rule here)
  qed
qed

section \<open>What the patterns match\<close>

lemma match_section_sound:
  assumes "match_section cluster s = Some body"
  obtains gap rest where "s = ''[programs.'' @ cluster @ '']'' @ gap @ [CHR 0x0A] @ body @ rest"
    "list_all js_space gap" "CHR ''['' \<notin> set body"
proof -
  let ?not_lf = "\<lambda>c. c \<noteq> CHR 0x0A" and ?open = "\<lambda>c. c \<noteq> CHR ''[''"
  obtain r where r: "s = ''[programs.'' @ cluster @ '']'' @ r" "CHR 0x0A \<in> set (takeWhile js_space r)"
    "body = takeWhile ?open (rev (takeWhile ?not_lf (rev (takeWhile js_space r))) @ dropWhile js_space r)"
    using assms by (auto simp: match_section_def strip_prefix_Some Let_def split: option.splits if_splits)
  let ?space = "takeWhile js_space r" and ?tail = "rev (takeWhile ?not_lf (rev (takeWhile js_space r))) @ dropWhile js_space r"
  obtain u w where u: "?space = u @ CHR 0x0A # w" "CHR 0x0A \<notin> set w" using split_list_last [OF r(2)] by blast
  then have w: "rev (takeWhile ?not_lf (rev ?space)) = w" by (subst u(1)) (auto simp: takeWhile_append)
  have "r = ?space @ dropWhile js_space r" by simp
  then have "r = u @ [CHR 0x0A] @ ?tail" unfolding w using u(1) by (metis append.assoc append_Cons append_Nil)
  also have "?tail = body @ dropWhile ?open ?tail" unfolding r(3) by simp
  finally have "s = ''[programs.'' @ cluster @ '']'' @ u @ [CHR 0x0A] @ body @ dropWhile ?open ?tail" using r(1) by simp
  moreover have "list_all js_space u"
  proof -
    have "set u \<subseteq> set ?space" unfolding u(1) by auto
    then show ?thesis by (auto simp: list_all_iff dest: set_takeWhileD)
  qed
  moreover have "CHR ''['' \<notin> set body" unfolding r(3) by (auto dest: set_takeWhileD)
  ultimately show thesis by (rule that)
qed

lemma match_entry_sound:
  assumes "match_entry s = Some address"
  obtains w1 w2 w3 rest where
    "s = w1 @ ''hash_timestamp'' @ w2 @ ''='' @ w3 @ [CHR 0x22] @ address @ [CHR 0x22] @ rest"
    "list_all js_space w1" "list_all js_space w2" "list_all js_space w3"
    "address \<noteq> []" "list_all base58_char address" "line_tail rest"
proof -
  obtain r1 r2 r3 r4 where r: "dropWhile js_space s = ''hash_timestamp'' @ r1" "dropWhile js_space r1 = ''='' @ r2"
    "dropWhile js_space r2 = [CHR 0x22] @ r3" "dropWhile base58_char r3 = [CHR 0x22] @ r4"
    "address = takeWhile base58_char r3" "address \<noteq> []" "line_tail r4"
    using assms by (auto simp: match_entry_def strip_prefix_Some Let_def split: option.splits if_splits)
  obtain w1 where w1: "s = w1 @ dropWhile js_space s" "list_all js_space w1" using spaces_dropped by blast
  obtain w2 where w2: "r1 = w2 @ dropWhile js_space r1" "list_all js_space w2" using spaces_dropped by blast
  obtain w3 where w3: "r2 = w3 @ dropWhile js_space r2" "list_all js_space w3" using spaces_dropped by blast
  have "r3 = address @ [CHR 0x22] @ r4" using r(4,5) by (metis takeWhile_dropWhile_id)
  with w1(1) w2(1) w3(1) r(1-3)
  have "s = w1 @ ''hash_timestamp'' @ w2 @ ''='' @ w3 @ [CHR 0x22] @ address @ [CHR 0x22] @ r4" by (metis append.assoc)
  moreover have "list_all base58_char address" unfolding r(5) by (auto simp: list_all_iff dest: set_takeWhileD)
  ultimately show thesis using w1(2) w2(2) w3(2) r(6,7) that by blast
qed

section \<open>Properties\<close>

text \<open>The three clusters of the configuration name the address of the baseline.\<close>

definition addresses_match :: "jsval object \<Rightarrow> string \<Rightarrow> bool" where
  "addresses_match baseline config \<longleftrightarrow> (\<forall>cluster \<in> {''devnet'', ''testnet'', ''localnet''}.
     \<exists>address. get baseline ''address'' = Some (JString address) \<and> configuredAddress cluster config = Inr address)"

lemma checked_addresses:
  "checkConfiguredAddresses (read_prop baseline ''address'') config = Inr () \<longleftrightarrow> addresses_match baseline config"
proof -
  have "JString address = read_prop baseline ''address'' \<longleftrightarrow> get baseline ''address'' = Some (JString address)" for address
    by (auto simp: read_prop_def split: option.splits)
  then have "check_cluster (read_prop baseline ''address'') config cluster = Inr () \<longleftrightarrow>
      (\<exists>address. get baseline ''address'' = Some (JString address) \<and> configuredAddress cluster config = Inr address)" for cluster
    by (auto simp: check_cluster_def)
  then show ?thesis
    unfolding checkConfiguredAddresses_def addresses_match_def bindE_ok mapE.simps by (simp del: bindE_ok add: bindE_ok [where y = "[]"])
qed

lemma normalized_object: "normalize_idl (JObject es) = JObject fs \<Longrightarrow> k \<noteq> ''docs'' \<Longrightarrow> get fs k = map_option normalize_idl (get es k)"
  by (auto simp: get_normalized)

lemma normalized_address:
  assumes "normalize_idl (JObject es) = JObject fs"
  shows "addresses_match fs config \<longleftrightarrow> addresses_match es config"
proof -
  have "normalize_idl v = JString s \<longleftrightarrow> v = JString s" for v s
    using normalize_eq_scalar [of "JString s" v] by (auto simp: scalar_def)
  then have "get fs ''address'' = Some (JString s) \<longleftrightarrow> get es ''address'' = Some (JString s)" for s
    using normalized_object [OF assms, of "''address''"] by (cases "get es ''address''") auto
  then show ?thesis by (simp only: addresses_match_def)
qed

text \<open>C36: the verdict of the IDL gate is right. Once the arguments are accepted, both IDLs read and the
  configuration found, a run reports a match exactly when the three clusters are configured with the
  baseline's address, the two IDLs are the same up to documentation and the order of object entries
  at every depth, and the baseline has metadata; it reports a mismatch exactly when the addresses
  agree and the IDLs are not the same, and the location it prints is a path at which the normal
  forms differ: one of them has no value there, the values are not the same, or two arrays differ
  in length.\<close>

theorem check_idl_verdict:
  assumes "parseArguments env argv = Inr options"
    and "readJson H env (idl_baseline options) ''baseline'' = Inr (JObject baseline)"
    and "readJson H env (idl_actual options) ''generated'' = Inr generated"
    and "env_files env (env_resolve env ''Anchor.toml'') = Some config"
  shows "((\<exists>version. check_idl H env argv = Inr (Matches version)) \<longleftrightarrow> addresses_match baseline config \<and>
      same_json {''docs''} (JObject baseline) generated \<and>
      (\<exists>metadata. get baseline ''metadata'' = Some metadata \<and> metadata \<notin> {JNull, JUndefined})) \<and>
    ((\<exists>location. check_idl H env argv = Inr (Mismatch location)) \<longleftrightarrow> addresses_match baseline config \<and>
      \<not> same_json {''docs''} (JObject baseline) generated) \<and>
    (\<forall>location. check_idl H env argv = Inr (Mismatch location) \<longrightarrow>
      (\<exists>p. location = ''IDL'' @ path_text p \<and> differs p (normalize_idl (JObject baseline)) (normalize_idl generated) \<or>
        location = ''IDL'' @ path_text p @ ''.length'' \<and>
          lengths_differ p (normalize_idl (JObject baseline)) (normalize_idl generated)))"
proof -
  obtain fs where fs: "normalize_idl (JObject baseline) = JObject fs" by simp
  let ?d = "firstDifference (JObject fs) (normalize_idl generated) ''IDL''"
  have same: "isDeepStrictEqual (normalize_idl generated) (JObject fs) \<longleftrightarrow> same_json {''docs''} (JObject baseline) generated"
    "?d = None \<longleftrightarrow> same_json {''docs''} (JObject baseline) generated"
    unfolding isDeepStrictEqual_iff firstDifference_None fs [symmetric] same_normalized [symmetric]
    by (blast intro: same_json_sym)+
  have metadata: "(\<exists>m v. field (JObject fs) ''metadata'' = Inr m \<and> field m ''version'' = Inr v) \<longleftrightarrow>
      (\<exists>metadata. get baseline ''metadata'' = Some metadata \<and> metadata \<notin> {JNull, JUndefined})"
    using normalized_object [OF fs, of "''metadata''"]
    by (cases "get baseline ''metadata''"; cases "the (get baseline ''metadata'')") (auto simp: field_def read_prop_def)
  have addresses: "checkConfiguredAddresses (read_prop fs ''address'') config = Inr () \<longleftrightarrow> addresses_match baseline config"
    unfolding checked_addresses by (rule normalized_address [OF fs])
  have run: "check_idl H env argv = bindE (checkConfiguredAddresses (read_prop fs ''address'') config) (\<lambda>_.
      if \<not> same_json {''docs''} (JObject baseline) generated
      then Inr (Mismatch (case ?d of None \<Rightarrow> ''IDL'' | Some d \<Rightarrow> d))
      else bindE (field (JObject fs) ''metadata'') (\<lambda>m. bindE (field m ''version'') (\<lambda>v. Inr (Matches v))))"
    unfolding check_idl_def assms(1-4) bindE_simps fs Let_def same(1) option.case by (simp add: field_def)
  show ?thesis
  proof (intro conjI)
    show "(\<exists>version. check_idl H env argv = Inr (Matches version)) \<longleftrightarrow> addresses_match baseline config \<and>
        same_json {''docs''} (JObject baseline) generated \<and>
        (\<exists>metadata. get baseline ''metadata'' = Some metadata \<and> metadata \<notin> {JNull, JUndefined})"
      unfolding run metadata [symmetric] addresses [symmetric] by (auto simp del: same_json_object split: if_splits)
    show "(\<exists>location. check_idl H env argv = Inr (Mismatch location)) \<longleftrightarrow> addresses_match baseline config \<and>
        \<not> same_json {''docs''} (JObject baseline) generated"
      unfolding run addresses [symmetric] by (auto simp del: same_json_object split: if_splits)
    show "\<forall>location. check_idl H env argv = Inr (Mismatch location) \<longrightarrow>
        (\<exists>p. location = ''IDL'' @ path_text p \<and> differs p (normalize_idl (JObject baseline)) (normalize_idl generated) \<or>
          location = ''IDL'' @ path_text p @ ''.length'' \<and>
            lengths_differ p (normalize_idl (JObject baseline)) (normalize_idl generated))"
    proof (intro allI impI)
      fix location assume "check_idl H env argv = Inr (Mismatch location)"
      with same(2) have "?d = Some location" unfolding run by (auto simp del: same_json_object split: if_splits)
      from firstDifference_Some [OF this] show "\<exists>p. location = ''IDL'' @ path_text p \<and>
          differs p (normalize_idl (JObject baseline)) (normalize_idl generated) \<or>
          location = ''IDL'' @ path_text p @ ''.length'' \<and>
            lengths_differ p (normalize_idl (JObject baseline)) (normalize_idl generated)" unfolding fs .
    qed
  qed
qed

text \<open>A baseline, the generated IDL with documentation and another order of entries, and one with another
  instruction list.\<close>

definition demo_idl :: jsval where
  "demo_idl = JObject [(''address'', JString ''AB''), (''metadata'', JObject [(''version'', JString ''2'')]),
     (''instructions'', JArray [JString ''vote''])]"

definition demo_idl_documented :: jsval where
  "demo_idl_documented = JObject [(''docs'', JArray []), (''instructions'', JArray [JString ''vote'']),
     (''address'', JString ''AB''), (''metadata'', JObject [(''version'', JString ''2'')])]"

definition demo_cluster :: "string \<Rightarrow> string" where
  "demo_cluster cluster = ''[programs.'' @ cluster @ '']'' @ [CHR 0x0A] @ ''hash_timestamp = '' @ [CHR 0x22] @ ''AB'' @
     [CHR 0x22, CHR 0x0A]"

definition demo_environment :: "host \<Rightarrow> environment" where
  "demo_environment H = \<lparr>env_resolve = (\<lambda>p. p),
     env_files = (\<lambda>p. if p = ''tests/fixtures/idl.json'' then Some (json_text H demo_idl)
       else if p = ''target/idl/hash_timestamp.json'' then Some (json_text H demo_idl_documented)
       else if p = ''Anchor.toml'' then Some (demo_cluster ''devnet'' @ demo_cluster ''testnet'' @ demo_cluster ''localnet'')
       else None),
     env_syntax = (\<lambda>text. ''Unexpected token'')\<rparr>"

lemma demo_configured:
  "cluster \<in> {''devnet'', ''testnet'', ''localnet''} \<Longrightarrow>
     configuredAddress cluster (demo_cluster ''devnet'' @ demo_cluster ''testnet'' @ demo_cluster ''localnet'') = Inr ''AB''"
  by (auto simp: configuredAddress_def demo_cluster_def match_section_def match_entry_def strip_prefix_def js_space_def
      line_end_def base58_char_def line_tail_def)

lemma check_idl_verdict_witness:
  "\<exists>H version. check_idl H (demo_environment H) [] = Inr (Matches version)"
proof -
  fix H
  let ?o = "\<lparr>idl_actual = ''target/idl/hash_timestamp.json'', idl_baseline = ''tests/fixtures/idl.json''\<rparr>"
  obtain es where es: "demo_idl = JObject es" "addresses_match es (demo_cluster ''devnet'' @ demo_cluster ''testnet'' @ demo_cluster ''localnet'')"
    "get es ''metadata'' = Some (JObject [(''version'', JString ''2'')])"
    using demo_configured by (auto simp: demo_idl_def addresses_match_def)
  have same: "same_json {''docs''} (JObject es) demo_idl_documented"
    unfolding es(1) [symmetric] demo_idl_def demo_idl_documented_def by (auto simp: scalar_def)
  have "parseArguments (demo_environment H) [] = Inr ?o"
    by (simp add: parseArguments_def demo_environment_def)
  moreover have "json_ok demo_idl" "json_ok demo_idl_documented" by (simp_all add: demo_idl_def demo_idl_documented_def)
  then have "json_parse H (json_text H demo_idl) = Some (JObject es)"
    "json_parse H (json_text H demo_idl_documented) = Some demo_idl_documented"
    using json_compact.dec_enc es(1) by simp_all
  then have "readJson H (demo_environment H) (idl_baseline ?o) ''baseline'' = Inr (JObject es)"
    "readJson H (demo_environment H) (idl_actual ?o) ''generated'' = Inr demo_idl_documented"
    by (simp_all add: readJson_def demo_environment_def)
  moreover have "env_files (demo_environment H) (env_resolve (demo_environment H) ''Anchor.toml'') =
      Some (demo_cluster ''devnet'' @ demo_cluster ''testnet'' @ demo_cluster ''localnet'')"
    by (simp add: demo_environment_def)
  ultimately show ?thesis
    using check_idl_verdict [of "demo_environment H" "[]" ?o H es demo_idl_documented] es(2,3) same by blast
qed

text \<open>C37: the address of a cluster is read from its own section. An address \<open>configuredAddress\<close>
  returns is non-empty Base58 text, and the configuration has a line that starts with the header of
  that cluster, then only white space to the end of a line, then a body without any further
  header, in which a line assigns that address to \<open>hash_timestamp\<close> with at most a comment
  after it.\<close>

theorem configuredAddress_sound:
  assumes "configuredAddress cluster config = Inr address"
  shows "\<exists>before gap body after lines w1 w2 w3 rest.
    config = before @ ''[programs.'' @ cluster @ '']'' @ gap @ [CHR 0x0A] @ body @ after \<and>
    (before = [] \<or> line_end (last before)) \<and> list_all js_space gap \<and> CHR ''['' \<notin> set body \<and>
    body = lines @ w1 @ ''hash_timestamp'' @ w2 @ ''='' @ w3 @ [CHR 0x22] @ address @ [CHR 0x22] @ rest \<and>
    (lines = [] \<or> line_end (last lines)) \<and> list_all js_space w1 \<and> list_all js_space w2 \<and> list_all js_space w3 \<and>
    line_tail rest \<and> address \<noteq> [] \<and> list_all base58_char address"
proof -
  obtain body where body: "match_lines (match_section cluster) True config = Some body"
    "match_lines match_entry True body = Some address"
    using assms by (auto simp: configuredAddress_def split: option.splits)
  obtain before s where s: "config = before @ s" "match_section cluster s = Some body" "line_start before"
    by (rule match_lines_start [OF body(1)])
  obtain lines e where e: "body = lines @ e" "match_entry e = Some address" "line_start lines"
    by (rule match_lines_start [OF body(2)])
  obtain gap after where sec: "s = ''[programs.'' @ cluster @ '']'' @ gap @ [CHR 0x0A] @ body @ after"
    "list_all js_space gap" "CHR ''['' \<notin> set body"
    by (rule match_section_sound [OF s(2)])
  obtain w1 w2 w3 rest where ent: "e = w1 @ ''hash_timestamp'' @ w2 @ ''='' @ w3 @ [CHR 0x22] @ address @ [CHR 0x22] @ rest"
    "list_all js_space w1" "list_all js_space w2" "list_all js_space w3" "address \<noteq> []" "list_all base58_char address" "line_tail rest"
    by (rule match_entry_sound [OF e(2)])
  have "config = before @ ''[programs.'' @ cluster @ '']'' @ gap @ [CHR 0x0A] @ body @ after" using s(1) sec(1) by simp
  moreover have "body = lines @ w1 @ ''hash_timestamp'' @ w2 @ ''='' @ w3 @ [CHR 0x22] @ address @ [CHR 0x22] @ rest"
    using e(1) ent(1) by simp
  ultimately show ?thesis
    using s(3) e(3) sec(2,3) ent(2-7) unfolding line_start_def by blast
qed

lemma configuredAddress_sound_witness:
  "\<exists>before after. demo_cluster ''devnet'' @ demo_cluster ''testnet'' @ demo_cluster ''localnet'' =
     before @ ''[programs.testnet]'' @ after"
  using configuredAddress_sound [OF demo_configured, of "''testnet''"] by fastforce

end
