(* ===== verification/ArchGuard.thy ===== *)
theory ArchGuard
  imports DepSearch Patterns
begin

text \<open>
  \<open>scripts/check-architecture.cjs\<close>: the guard over the layers of the sources. The sources are a
  map from paths to texts; the module names TypeScript's lexer finds in a text are a parameter.
\<close>

section \<open>Lexical patterns\<close>

text \<open>\<open>\b\<close> between the previous character, if any, and the text that follows.\<close>

definition word_char :: "char \<Rightarrow> bool" where
  "word_char c \<longleftrightarrow> (let n = of_char c :: nat in
     48 \<le> n \<and> n \<le> 57 \<or> 65 \<le> n \<and> n \<le> 90 \<or> n = 95 \<or> 97 \<le> n \<and> n \<le> 122)"

definition boundary :: "char option \<Rightarrow> string \<Rightarrow> bool" where
  "boundary prev s \<longleftrightarrow> (case prev of None \<Rightarrow> False | Some c \<Rightarrow> word_char c) \<noteq> (s \<noteq> [] \<and> word_char (hd s))"

text \<open>A pattern is what it accepts at a position; \<open>occurs\<close> tries every position.\<close>

type_synonym pattern = "char option \<Rightarrow> string \<Rightarrow> bool"

fun occurs :: "pattern \<Rightarrow> char option \<Rightarrow> string \<Rightarrow> bool" where
  "occurs p prev [] = p prev []"
| "occurs p prev (c # s) = (p prev (c # s) \<or> occurs p (Some c) s)"

text \<open>\<open>\b(?:w1|w2|...)\b\<close>, for words that start and end with a word character.\<close>

definition words :: "string list \<Rightarrow> pattern" where
  "words ws prev s \<longleftrightarrow> boundary prev s \<and>
     list_ex (\<lambda>w. case strip_prefix w s of None \<Rightarrow> False | Some r \<Rightarrow> boundary (Some (last w)) r) ws"

text \<open>\<open>\b(?:w1|w2|...)\s*c\<close>.\<close>

definition words_before :: "string list \<Rightarrow> char \<Rightarrow> pattern" where
  "words_before ws c prev s \<longleftrightarrow> boundary prev s \<and>
     list_ex (\<lambda>w. case strip_prefix w s of None \<Rightarrow> False
       | Some r \<Rightarrow> (case dropWhile js_space r of [] \<Rightarrow> False | d # _ \<Rightarrow> d = c)) ws"

definition either :: "pattern \<Rightarrow> pattern \<Rightarrow> pattern" where
  "either p q prev s \<longleftrightarrow> p prev s \<or> q prev s"

definition account_mechanics :: pattern where
  "account_mechanics = either
     (words [''try_borrow_data'', ''try_borrow_lamports'', ''try_borrow_mut_data'', ''try_borrow_mut_lamports'',
        ''to_account_info'', ''invoke_signed'', ''invoke'', ''CpiContext''])
     (words_before [''Clock::get'', ''Rent::get''] CHR ''('')"

definition upper_layers :: pattern where
  "upper_layers = words [''crate::runtime'', ''crate::instructions'']"

definition cpi_or_sysvars :: pattern where
  "cpi_or_sysvars = either (words [''CpiContext'', ''program::invoke'', ''program::invoke_signed''])
     (words_before [''Clock::get'', ''Rent::get''] CHR ''('')"

definition live_accounts :: pattern where
  "live_accounts = either (words [''AccountInfo'', ''UncheckedAccount'']) (words_before [''Account'', ''Context''] CHR ''<'')"

definition scenarios :: pattern where
  "scenarios = either (words [''crate::instructions'']) (words_before [''Context''] CHR ''<'')"

text \<open>\<open>replace(/\/\*[\s\S]*?\*\//g, "")\<close>: a comment that is not closed stays.\<close>

fun after_close :: "string \<Rightarrow> string option" where
  "after_close (c # d # s) = (if c = CHR ''*'' \<and> d = CHR ''/'' then Some s else after_close (d # s))"
| "after_close _ = None"

lemma after_close_shorter: "after_close s = Some r \<Longrightarrow> length r < length s"
  by (induction s rule: after_close.induct) (auto split: if_splits)

function strip_blocks :: "string \<Rightarrow> string" where
  "strip_blocks s = (case s of
      c # d # r \<Rightarrow>
        if c = CHR ''/'' \<and> d = CHR ''*''
        then (case after_close r of None \<Rightarrow> c # strip_blocks (d # r) | Some r' \<Rightarrow> strip_blocks r')
        else c # strip_blocks (d # r)
    | _ \<Rightarrow> s)"
  by pat_completeness auto
termination by (relation "measure length") (auto dest: after_close_shorter)

declare strip_blocks.simps [simp del]

text \<open>\<open>replace(/\/\/[^\n]*/g, "")\<close>.\<close>

function strip_lines :: "string \<Rightarrow> string" where
  "strip_lines s = (case s of
      c # d # r \<Rightarrow>
        if c = CHR ''/'' \<and> d = CHR ''/'' then strip_lines (dropWhile (\<lambda>e. e \<noteq> CHR 0x0A) r)
        else c # strip_lines (d # r)
    | _ \<Rightarrow> s)"
  by pat_completeness auto
termination by (relation "measure length") (auto intro: le_less_trans [OF length_dropWhile_le])

declare strip_lines.simps [simp del]

definition ends_with :: "string \<Rightarrow> string \<Rightarrow> bool" where
  "ends_with suffix s \<longleftrightarrow> length suffix \<le> length s \<and> drop (length s - length suffix) s = suffix"

definition starts_with :: "string \<Rightarrow> string \<Rightarrow> bool" where
  "starts_with p s \<longleftrightarrow> strip_prefix p s \<noteq> None"

section \<open>Rules for Rust sources\<close>

text \<open>The two groups of the path pattern
  \<open>^programs\/hash-timestamp\/src\/(instructions|protocol|runtime|state)\/(.+)\.rs$\<close>.\<close>

definition rust_layer :: "string \<Rightarrow> (string \<times> string) option" where
  "rust_layer file = (case strip_prefix ''programs/hash-timestamp/src/'' file of
      None \<Rightarrow> None
    | Some r \<Rightarrow> first_some (\<lambda>layer. case strip_prefix (layer @ ''/'') r of
          None \<Rightarrow> None
        | Some n \<Rightarrow>
            let name = take (length n - 3) n in
            if ends_with ''.rs'' n \<and> name \<noteq> [] \<and> list_all (\<lambda>c. \<not> line_end c) name then Some (layer, name) else None)
        [''instructions'', ''protocol'', ''runtime'', ''state''])"

text \<open>\<open>/(^|\/)tests\.rs$|_tests\.rs$/\<close>.\<close>

definition test_file :: "string \<Rightarrow> bool" where
  "test_file file \<longleftrightarrow> file = ''tests.rs'' \<or> ends_with ''/tests.rs'' file \<or> ends_with ''_tests.rs'' file"

definition forbid :: "string \<Rightarrow> string \<Rightarrow> pattern \<Rightarrow> string \<Rightarrow> string list" where
  "forbid file code pattern message = (if occurs pattern None code then [file @ '': '' @ message] else [])"

definition rust_errors :: "string \<Rightarrow> string \<Rightarrow> string list" where
  "rust_errors file code = (case rust_layer file of
      None \<Rightarrow> []
    | Some (layer, name) \<Rightarrow>
        if test_file file then []
        else
          (if layer = ''instructions'' then
             (if CHR ''/'' \<in> set name then [file @ '': instructions must remain flat contexts and scenarios''] else []) @
             forbid file code account_mechanics ''move account mechanics into runtime''
           else []) @
          (if layer = ''protocol'' \<or> layer = ''state'' then
             forbid file code upper_layers ''value layers cannot depend on runtime or instructions'' @
             forbid file code cpi_or_sysvars ''value layers cannot perform CPI or read sysvars'' @
             (if layer = ''protocol'' then forbid file code live_accounts ''protocol cannot access live accounts'' else [])
           else []) @
          (if layer = ''runtime'' then
             forbid file code scenarios ''runtime must not own instruction contexts or scenarios''
           else []))"

section \<open>Rules for SDK sources\<close>

text \<open>\<open>path.posix\<close> on relative paths.\<close>

fun split_on :: "char \<Rightarrow> string \<Rightarrow> string list" where
  "split_on d [] = [[]]"
| "split_on d (c # s) = (if c = d then [] # split_on d s
     else (case split_on d s of [] \<Rightarrow> [[c]] | t # ts \<Rightarrow> (c # t) # ts))"

definition push_segment :: "string list \<Rightarrow> string \<Rightarrow> string list" where
  "push_segment segments t =
     (if t = [] \<or> t = ''.'' then segments
      else if t = ''..'' \<and> segments \<noteq> [] \<and> last segments \<noteq> ''..'' then butlast segments
      else segments @ [t])"

definition posix_normalize :: "string \<Rightarrow> string" where
  "posix_normalize p =
     (let t = join ''/'' (foldl push_segment [] (split_on CHR ''/'' p)) in
      (if t = [] then ''.'' else t) @ (if p \<noteq> [] \<and> last p = CHR ''/'' then ''/'' else []))"

definition posix_dirname :: "string \<Rightarrow> string" where
  "posix_dirname p = (let directory = butlast (split_on CHR ''/'' p) in
     if directory = [] then ''.'' else join ''/'' directory)"

definition sdk_dependency :: "string \<Rightarrow> string \<Rightarrow> string" where
  "sdk_dependency file name = posix_normalize (posix_dirname file @ ''/'' @ name) @ ''.ts''"

definition sdk_dependencies :: "(string \<Rightarrow> string list) \<Rightarrow> string \<Rightarrow> string \<Rightarrow> string list" where
  "sdk_dependencies importedFiles file original =
     map (sdk_dependency file) (filter (starts_with ''.'') (importedFiles original))"

definition dependency_errors :: "string \<Rightarrow> string \<Rightarrow> string list" where
  "dependency_errors file dependency =
     (if dependency \<in> {''app/sdk/hashTimestamp.ts'', ''app/sdk/hashUtils.ts'', ''app/sdk/client.ts''}
      then [file @ '': internal modules must import leaves, not public fa'' @ [CHR 0xE7] @ ''ades or client''] else []) @
     (if starts_with ''app/sdk/protocol/'' file \<and> \<not> starts_with ''app/sdk/protocol/'' dependency \<and>
         dependency \<noteq> ''app/sdk/types.ts''
      then [file @ '': SDK protocol may depend only on protocol values and types''] else [])"

definition sdk_errors :: "string \<Rightarrow> string list \<Rightarrow> string list" where
  "sdk_errors file dependencies =
     (if file \<in> {''app/sdk/hashTimestamp.ts'', ''app/sdk/hashUtils.ts''} then []
      else concat (map (dependency_errors file) dependencies))"

section \<open>Cycles\<close>

text \<open>
  The recursion of \<open>walk\<close> on a list of files: \<open>active\<close> holds the files whose walk is under way, the
  state is the set of visited files in insertion order and the errors found.
\<close>

function walk :: "string list object \<Rightarrow> string set \<Rightarrow> string list \<Rightarrow> string list \<times> string list \<Rightarrow> string list \<times> string list" where
  "walk graph active [] state = state"
| "walk graph active (file # files) state =
     walk graph active files
       (if file \<in> active then (fst state, snd state @ [file @ '': SDK dependency cycle''])
        else if file \<in> set (fst state) then state
        else (case walk graph (insert file active) (case get graph file of None \<Rightarrow> [] | Some ds \<Rightarrow> ds) state of
            (visited, errors) \<Rightarrow> (visited @ [file], errors)))"
  by pat_completeness auto
termination
proof (relation "measures [\<lambda>(graph, active, files, state). card (set (keys graph) - active),
    \<lambda>(graph, active, files, state). length files]", goal_cases)
  case (2 graph active f files state)
  show ?case
  proof (cases "get graph f")
    case None
    then have "set (keys graph) - insert f active = set (keys graph) - active" unfolding get_None_iff by blast
    with None show ?thesis by simp
  next
    case (Some ds)
    then have "f \<in> set (keys graph)" by (rule get_key)
    with 2 have "card (set (keys graph) - insert f active) < card (set (keys graph) - active)"
      by (intro psubset_card_mono) auto
    then show ?thesis by simp
  qed
qed simp_all

section \<open>The guard\<close>

definition inspect_file ::
  "(string \<Rightarrow> string list) \<Rightarrow> string list \<times> string list object \<Rightarrow> string \<times> string \<Rightarrow> string list \<times> string list object" where
  "inspect_file importedFiles state entry = (case state of (errors, graph) \<Rightarrow> case entry of (file, original) \<Rightarrow>
     let code = strip_lines (strip_blocks original);
         errors1 = errors @ rust_errors file code in
     if starts_with ''app/sdk/'' file
     then let dependencies = sdk_dependencies importedFiles file original in
       (errors1 @ sdk_errors file dependencies, put graph file dependencies)
     else (errors1, graph))"

definition inspectSources :: "(string \<Rightarrow> string list) \<Rightarrow> string object \<Rightarrow> string list" where
  "inspectSources importedFiles sources =
     (case foldl (inspect_file importedFiles) ([], []) sources of
        (errors, graph) \<Rightarrow> snd (walk graph {} (keys graph) ([], errors)))"

section \<open>What the walk finds\<close>

text \<open>The import graph, in the vocabulary of the dependency search.\<close>

abbreviation import_edges :: "string list object \<Rightarrow> (string \<times> string) set" where
  "import_edges graph \<equiv> edges graph (\<lambda>ds. Inr (Some ds))"

lemma import_edge: "(f, d) \<in> import_edges graph \<longleftrightarrow> (\<exists>ds. get graph f = Some ds \<and> d \<in> set ds)"
  by (simp add: edges_def)

abbreviation imported :: "string list object \<Rightarrow> string \<Rightarrow> string list" where
  "imported graph f \<equiv> (case get graph f of None \<Rightarrow> [] | Some ds \<Rightarrow> ds)"

lemma imported_edges: "d \<in> set (imported graph f) \<longleftrightarrow> (f, d) \<in> import_edges graph"
  by (cases "get graph f") (auto simp: import_edge)

text \<open>The state after the first file of a list.\<close>

definition walk_file :: "string list object \<Rightarrow> string set \<Rightarrow> string \<Rightarrow> string list \<times> string list \<Rightarrow> string list \<times> string list" where
  "walk_file graph active f state =
     (if f \<in> active then (fst state, snd state @ [f @ '': SDK dependency cycle''])
      else if f \<in> set (fst state) then state
      else (case walk graph (insert f active) (imported graph f) state of (visited, errors) \<Rightarrow> (visited @ [f], errors)))"

lemma walk_Cons: "walk graph active (f # files) state = walk graph active files (walk_file graph active f state)"
  by (simp add: walk_file_def)

lemmas walk_induct = walk.induct [of "\<lambda>graph active files state. P graph active files state" for P]

text \<open>Errors are only appended, and each names a file on a cycle.\<close>

definition cycles :: "string list object \<Rightarrow> string list \<Rightarrow> bool" where
  "cycles graph errs \<longleftrightarrow>
     (\<forall>m \<in> set errs. \<exists>f. m = f @ '': SDK dependency cycle'' \<and> (f, f) \<in> (import_edges graph)\<^sup>+)"

lemma walk_errors:
  assumes "\<forall>a \<in> active. \<forall>f \<in> set files. (a, f) \<in> (import_edges graph)\<^sup>+"
  shows "\<exists>errs. snd (walk graph active files state) = snd state @ errs \<and>
    cycles graph errs"
  using assms
proof (induction graph active files state rule: walk.induct)
  case (2 graph active f files state)
  have "\<exists>errs. snd (walk_file graph active f state) = snd state @ errs \<and>
    cycles graph errs"
  proof (cases "f \<in> active \<or> f \<in> set (fst state)")
    case True
    with 2(3) show ?thesis by (auto simp: walk_file_def cycles_def)
  next
    case False
    have "\<forall>a \<in> insert f active. \<forall>d \<in> set (imported graph f). (a, d) \<in> (import_edges graph)\<^sup>+"
    proof (intro ballI)
      fix a d assume a: "a \<in> insert f active" and "d \<in> set (imported graph f)"
      then have d: "(f, d) \<in> import_edges graph" by (simp only: imported_edges)
      from a show "(a, d) \<in> (import_edges graph)\<^sup>+"
        using 2(3) trancl_into_trancl [OF _ d] r_into_trancl [OF d] by auto
    qed
    from 2(1) [OF _ _ this] False show ?thesis by (auto simp: walk_file_def split: prod.split)
  qed
  moreover have "\<exists>errs. snd (walk graph active files (walk_file graph active f state)) = snd (walk_file graph active f state) @ errs \<and>
    cycles graph errs"
    using 2(2) 2(3) unfolding walk_file_def by simp
  ultimately obtain errs1 errs2 where "snd (walk graph active (f # files) state) = snd state @ errs1 @ errs2"
    "cycles graph errs1" "cycles graph errs2"
    unfolding walk_Cons by auto
  then show ?case by (intro exI [of _ "errs1 @ errs2"]) (auto simp: cycles_def)
qed (simp add: cycles_def)

text \<open>A walk without errors has visited its files, dependencies first.\<close>

definition walked :: "string list object \<Rightarrow> string set \<Rightarrow> string list \<Rightarrow> bool" where
  "walked graph active visited \<longleftrightarrow> topological graph (\<lambda>ds. Inr (Some ds)) True visited \<and> distinct visited \<and>
     active \<inter> set visited = {}"

lemma walk_grows: "length (snd state) \<le> length (snd (walk graph active files state)) \<and>
    set (fst state) \<subseteq> set (fst (walk graph active files state))"
proof (induction graph active files state rule: walk.induct)
  case (2 graph active f files state)
  have "length (snd state) \<le> length (snd (walk_file graph active f state)) \<and> set (fst state) \<subseteq> set (fst (walk_file graph active f state))"
    using 2(1) by (auto simp: walk_file_def split: prod.split)
  moreover have "length (snd (walk_file graph active f state)) \<le> length (snd (walk graph active files (walk_file graph active f state))) \<and>
      set (fst (walk_file graph active f state)) \<subseteq> set (fst (walk graph active files (walk_file graph active f state)))"
    using 2(2) unfolding walk_file_def .
  ultimately show ?case unfolding walk_Cons by (meson order_trans)
qed simp

lemma walk_visits:
  assumes "walked graph active (fst state)" "length (snd (walk graph active files state)) = length (snd state)"
  shows "walked graph active (fst (walk graph active files state)) \<and> set files \<subseteq> set (fst (walk graph active files state))"
  using assms
proof (induction graph active files state rule: walk.induct)
  case (2 graph active f files state)
  let ?s = "walk_file graph active f state"
  have "length (snd state) \<le> length (snd ?s)"
    using walk_grows [of state graph "insert f active" "imported graph f"] by (auto simp: walk_file_def split: prod.split)
  moreover have "length (snd ?s) \<le> length (snd (walk graph active files ?s))" using walk_grows by blast
  ultimately have quiet: "length (snd ?s) = length (snd state)" "length (snd (walk graph active files ?s)) = length (snd ?s)"
    using 2(4) unfolding walk_Cons by simp_all
  have step: "walked graph active (fst ?s) \<and> f \<in> set (fst ?s)"
  proof (cases "f \<in> active \<or> f \<in> set (fst state)")
    case True
    with quiet(1) 2(3) show ?thesis by (auto simp: walk_file_def)
  next
    case False
    let ?inner = "walk graph (insert f active) (imported graph f) state"
    have s: "?s = (fst ?inner @ [f], snd ?inner)" using False by (simp add: walk_file_def split: prod.split)
    have "walked graph (insert f active) (fst state)" using 2(3) False by (simp add: walked_def)
    with 2(1) False quiet(1) have "walked graph (insert f active) (fst ?inner)" "set (imported graph f) \<subseteq> set (fst ?inner)"
      by (auto simp: s)
    then have "walked graph active (fst ?inner @ [f])"
      using False by (auto simp: walked_def topological_snoc imported_edges [symmetric])
    then show ?thesis by (simp add: s)
  qed
  then have "walked graph active (fst (walk graph active files ?s)) \<and> set files \<subseteq> set (fst (walk graph active files ?s))"
    using 2(2) quiet(2) unfolding walk_file_def by blast
  then show ?case using step walk_grows [of ?s graph active files] unfolding walk_Cons by auto
qed simp

text \<open>From nothing visited, the walk over all files decides whether the graph is acyclic.\<close>

lemma walk_decides:
  "snd (walk graph {} (keys graph) ([], errors)) = errors \<longleftrightarrow> acyclic (import_edges graph)"
proof -
  let ?w = "walk graph {} (keys graph) ([], errors)"
  obtain errs where errs: "snd ?w = errors @ errs"
    "cycles graph errs"
    using walk_errors [of "{}" "keys graph" graph "([], errors)"] by auto
  have "acyclic (import_edges graph)" if "errs = []"
  proof -
    have "walked graph {} (fst ?w)" "set (keys graph) \<subseteq> set (fst ?w)"
      using walk_visits [of graph "{}" "([], errors)" "keys graph"] errs(1) that by (auto simp: walked_def)
    then have "(f, f) \<notin> (import_edges graph)\<^sup>+" if "f \<in> set (keys graph)" for f
      using that by (intro topological_acyclic [where req = True]) (auto simp: walked_def)
    moreover have "f \<in> set (keys graph)" if "(f, f) \<in> (import_edges graph)\<^sup>+" for f
      using that by (meson edge_present tranclD)
    ultimately show ?thesis unfolding acyclic_def by blast
  qed
  moreover have "errs = []" if "acyclic (import_edges graph)"
    using errs(2) that by (cases errs) (auto simp: acyclic_def cycles_def)
  ultimately show ?thesis using errs(1) by auto
qed

section \<open>What the guard accepts\<close>

definition source_code :: "string \<Rightarrow> string" where
  "source_code original = strip_lines (strip_blocks original)"

definition file_errors :: "(string \<Rightarrow> string list) \<Rightarrow> string \<times> string \<Rightarrow> string list" where
  "file_errors importedFiles entry = (case entry of (f, original) \<Rightarrow>
     rust_errors f (source_code original) @
     (if starts_with ''app/sdk/'' f then sdk_errors f (sdk_dependencies importedFiles f original) else []))"

text \<open>Who imports whom among the SDK files.\<close>

definition sdk_imports :: "(string \<Rightarrow> string list) \<Rightarrow> string object \<Rightarrow> (string \<times> string) set" where
  "sdk_imports importedFiles sources = {(f, d). \<exists>original. get sources f = Some original \<and> starts_with ''app/sdk/'' f \<and>
     d \<in> set (sdk_dependencies importedFiles f original)}"

lemma inspect_files:
  "\<exists>graph'. foldl (inspect_file importedFiles) (errors, graph) sources =
      (errors @ concat (map (file_errors importedFiles) sources), graph') \<and>
    (distinct (keys sources) \<longrightarrow> (\<forall>f. get graph' f = (case get sources f of
        Some original \<Rightarrow> if starts_with ''app/sdk/'' f then Some (sdk_dependencies importedFiles f original) else get graph f
      | None \<Rightarrow> get graph f)))"
proof (induction sources arbitrary: errors graph)
  case (Cons entry sources)
  obtain f original where entry: "entry = (f, original)" by (cases entry)
  let ?graph = "if starts_with ''app/sdk/'' f then put graph f (sdk_dependencies importedFiles f original) else graph"
  have first: "inspect_file importedFiles (errors, graph) entry = (errors @ file_errors importedFiles entry, ?graph)"
    by (simp add: inspect_file_def file_errors_def source_code_def entry Let_def)
  obtain graph' where rest: "foldl (inspect_file importedFiles) (errors @ file_errors importedFiles entry, ?graph) sources =
      ((errors @ file_errors importedFiles entry) @ concat (map (file_errors importedFiles) sources), graph')"
    "distinct (keys sources) \<longrightarrow> (\<forall>f. get graph' f = (case get sources f of
        Some original \<Rightarrow> if starts_with ''app/sdk/'' f then Some (sdk_dependencies importedFiles f original) else get ?graph f
      | None \<Rightarrow> get ?graph f))"
    using Cons.IH by blast
  have "foldl (inspect_file importedFiles) (errors, graph) (entry # sources) =
      (errors @ concat (map (file_errors importedFiles) (entry # sources)), graph')"
    using first rest(1) by simp
  moreover have "get graph' g = (case get (entry # sources) g of
        Some original \<Rightarrow> if starts_with ''app/sdk/'' g then Some (sdk_dependencies importedFiles g original) else get graph g
      | None \<Rightarrow> get graph g)" if "distinct (keys (entry # sources))" for g
  proof -
    have "get sources f = None" using that by (simp add: entry get_None_iff)
    with rest(2) that show ?thesis by (auto simp: entry split: option.split)
  qed
  ultimately show ?case by blast
qed simp

lemma guard_result:
  assumes "distinct (keys sources)"
  obtains errs where "inspectSources importedFiles sources = concat (map (file_errors importedFiles) sources) @ errs"
    "errs = [] \<longleftrightarrow> acyclic (sdk_imports importedFiles sources)"
    "\<forall>m \<in> set errs. \<exists>f. m = f @ '': SDK dependency cycle'' \<and> (f, f) \<in> (sdk_imports importedFiles sources)\<^sup>+"
proof -
  obtain graph where graph: "foldl (inspect_file importedFiles) ([], []) sources =
      (concat (map (file_errors importedFiles) sources), graph)"
    "\<forall>f. get graph f = (case get sources f of
        Some original \<Rightarrow> if starts_with ''app/sdk/'' f then Some (sdk_dependencies importedFiles f original) else get [] f
      | None \<Rightarrow> get [] f)"
    using inspect_files [of importedFiles "[]" "[]" sources] assms by auto
  have "(f, d) \<in> import_edges graph \<longleftrightarrow> (f, d) \<in> sdk_imports importedFiles sources" for f d
    using spec [OF graph(2), of f] by (cases "get sources f") (auto simp: import_edge sdk_imports_def split: if_splits)
  then have edges: "import_edges graph = sdk_imports importedFiles sources" by auto
  let ?errors = "concat (map (file_errors importedFiles) sources)"
  have run: "inspectSources importedFiles sources = snd (walk graph {} (keys graph) ([], ?errors))"
    by (simp add: inspectSources_def graph(1))
  obtain errs where errs: "snd (walk graph {} (keys graph) ([], ?errors)) = ?errors @ errs" "cycles graph errs"
    using walk_errors [of "{}" "keys graph" graph "([], ?errors)"] by auto
  show thesis
    by (rule that [of errs]) (use run errs walk_decides [of graph ?errors] in \<open>auto simp: edges cycles_def\<close>)
qed

lemma unless_Nil: "(if b then xs else []) = [] \<longleftrightarrow> (b \<longrightarrow> xs = [])" "(if b then [] else xs) = [] \<longleftrightarrow> b \<or> xs = []"
  "[x] = [] \<longleftrightarrow> False"
  by simp_all

lemma rust_errors_Nil:
  "rust_errors f code = [] \<longleftrightarrow> (\<forall>layer name. rust_layer f = Some (layer, name) \<longrightarrow> \<not> test_file f \<longrightarrow>
     (layer = ''instructions'' \<longrightarrow> CHR ''/'' \<notin> set name \<and> \<not> occurs account_mechanics None code) \<and>
     (layer = ''protocol'' \<or> layer = ''state'' \<longrightarrow>
        \<not> occurs upper_layers None code \<and> \<not> occurs cpi_or_sysvars None code) \<and>
     (layer = ''protocol'' \<longrightarrow> \<not> occurs live_accounts None code) \<and>
     (layer = ''runtime'' \<longrightarrow> \<not> occurs scenarios None code))"
proof (cases "rust_layer f")
  case None
  then show ?thesis by (simp add: rust_errors_def)
next
  case (Some found)
  obtain layer name where found: "found = (layer, name)" by (cases found)
  have "(\<forall>l n. Some (layer, name) = Some (l, n) \<longrightarrow> P l n) \<longleftrightarrow> P layer name" for P by blast
  then show ?thesis
    unfolding rust_errors_def forbid_def Some found option.case prod.case by (simp only: append_is_Nil_conv unless_Nil) argo
qed

lemma sdk_errors_Nil:
  "sdk_errors f ds = [] \<longleftrightarrow> (f \<in> {''app/sdk/hashTimestamp.ts'', ''app/sdk/hashUtils.ts''} \<or> (\<forall>d \<in> set ds.
     d \<notin> {''app/sdk/hashTimestamp.ts'', ''app/sdk/hashUtils.ts'', ''app/sdk/client.ts''} \<and>
     (starts_with ''app/sdk/protocol/'' f \<longrightarrow> starts_with ''app/sdk/protocol/'' d \<or> d = ''app/sdk/types.ts'')))"
proof -
  have "dependency_errors f d = [] \<longleftrightarrow> d \<notin> {''app/sdk/hashTimestamp.ts'', ''app/sdk/hashUtils.ts'', ''app/sdk/client.ts''} \<and>
      (starts_with ''app/sdk/protocol/'' f \<longrightarrow> starts_with ''app/sdk/protocol/'' d \<or> d = ''app/sdk/types.ts'')" for d
    by (simp only: dependency_errors_def append_is_Nil_conv) (simp split: if_splits)
  then show ?thesis by (auto simp: sdk_errors_def)
qed

lemma import_rules:
  "(\<forall>f original. get sources f = Some original \<longrightarrow> starts_with p f \<longrightarrow> F f \<or> (\<forall>d \<in> set (deps f original). Q f d)) \<longleftrightarrow>
   (\<forall>(f, d) \<in> {(f, d). \<exists>original. get sources f = Some original \<and> starts_with p f \<and> d \<in> set (deps f original)}.
      \<not> F f \<longrightarrow> Q f d)"
  by fastforce

section \<open>Properties\<close>

text \<open>C38: the guard reports nothing exactly when the layers are respected. That is when no instruction
  module is nested or touches account mechanics, no protocol or state module mentions an upper
  layer, a cross-program call or a sysvar, no protocol module a live account, no runtime module an
  instruction context; when every SDK file but the two facades imports no facade and not the
  client, and a protocol file only protocol files and the types; and when the import graph of the
  SDK is acyclic. Every cycle it reports is one: the named file reaches itself by imports.\<close>

theorem inspectSources_accepts:
  assumes "distinct (keys sources)"
  shows "(inspectSources importedFiles sources = [] \<longleftrightarrow>
      (\<forall>f original. get sources f = Some original \<longrightarrow> (\<forall>layer name. rust_layer f = Some (layer, name) \<longrightarrow> \<not> test_file f \<longrightarrow>
         (layer = ''instructions'' \<longrightarrow> CHR ''/'' \<notin> set name \<and> \<not> occurs account_mechanics None (source_code original)) \<and>
         (layer = ''protocol'' \<or> layer = ''state'' \<longrightarrow>
            \<not> occurs upper_layers None (source_code original) \<and> \<not> occurs cpi_or_sysvars None (source_code original)) \<and>
         (layer = ''protocol'' \<longrightarrow> \<not> occurs live_accounts None (source_code original)) \<and>
         (layer = ''runtime'' \<longrightarrow> \<not> occurs scenarios None (source_code original)))) \<and>
      (\<forall>(f, d) \<in> sdk_imports importedFiles sources. f \<notin> {''app/sdk/hashTimestamp.ts'', ''app/sdk/hashUtils.ts''} \<longrightarrow>
         d \<notin> {''app/sdk/hashTimestamp.ts'', ''app/sdk/hashUtils.ts'', ''app/sdk/client.ts''} \<and>
         (starts_with ''app/sdk/protocol/'' f \<longrightarrow> starts_with ''app/sdk/protocol/'' d \<or> d = ''app/sdk/types.ts'')) \<and>
      acyclic (sdk_imports importedFiles sources)) \<and>
    (\<forall>m \<in> set (inspectSources importedFiles sources).
      (\<exists>f original. get sources f = Some original \<and> m \<in> set (rust_errors f (source_code original)) \<union>
         set (sdk_errors f (sdk_dependencies importedFiles f original))) \<or>
      (\<exists>f. m = f @ '': SDK dependency cycle'' \<and> (f, f) \<in> (sdk_imports importedFiles sources)\<^sup>+))"
proof -
  obtain errs where errs: "inspectSources importedFiles sources = concat (map (file_errors importedFiles) sources) @ errs"
    "errs = [] \<longleftrightarrow> acyclic (sdk_imports importedFiles sources)"
    "\<forall>m \<in> set errs. \<exists>f. m = f @ '': SDK dependency cycle'' \<and> (f, f) \<in> (sdk_imports importedFiles sources)\<^sup>+"
    by (rule guard_result [OF assms])
  have entries: "(\<forall>entry \<in> set sources. P entry) \<longleftrightarrow> (\<forall>f original. get sources f = Some original \<longrightarrow> P (f, original))" for P
    using get_iff_mem [OF assms] by auto
  have files: "concat (map (file_errors importedFiles) sources) = [] \<longleftrightarrow> (\<forall>f original. get sources f = Some original \<longrightarrow>
      rust_errors f (source_code original) = [] \<and>
      (starts_with ''app/sdk/'' f \<longrightarrow> sdk_errors f (sdk_dependencies importedFiles f original) = []))"
    by (simp add: entries) (auto simp: file_errors_def)
  have sdk: "(\<forall>f original. get sources f = Some original \<longrightarrow> starts_with ''app/sdk/'' f \<longrightarrow>
        sdk_errors f (sdk_dependencies importedFiles f original) = []) \<longleftrightarrow>
      (\<forall>(f, d) \<in> sdk_imports importedFiles sources. f \<notin> {''app/sdk/hashTimestamp.ts'', ''app/sdk/hashUtils.ts''} \<longrightarrow>
         d \<notin> {''app/sdk/hashTimestamp.ts'', ''app/sdk/hashUtils.ts'', ''app/sdk/client.ts''} \<and>
         (starts_with ''app/sdk/protocol/'' f \<longrightarrow> starts_with ''app/sdk/protocol/'' d \<or> d = ''app/sdk/types.ts''))"
    unfolding sdk_errors_Nil sdk_imports_def by (rule import_rules)
  have rules: "concat (map (file_errors importedFiles) sources) = [] \<longleftrightarrow>
      (\<forall>f original. get sources f = Some original \<longrightarrow> rust_errors f (source_code original) = []) \<and>
      (\<forall>f original. get sources f = Some original \<longrightarrow> starts_with ''app/sdk/'' f \<longrightarrow>
        sdk_errors f (sdk_dependencies importedFiles f original) = [])"
    unfolding files by blast
  have found: "m \<in> set errs \<or> (\<exists>f original. get sources f = Some original \<and> m \<in> set (rust_errors f (source_code original)) \<union>
         set (sdk_errors f (sdk_dependencies importedFiles f original)))" if "m \<in> set (inspectSources importedFiles sources)" for m
    using that get_iff_mem [OF assms] unfolding errs(1) by (auto simp: file_errors_def split: if_splits)
  have quiet: "inspectSources importedFiles sources = [] \<longleftrightarrow>
      concat (map (file_errors importedFiles) sources) = [] \<and> acyclic (sdk_imports importedFiles sources)"
    unfolding errs(1) errs(2) [symmetric] by simp
  show ?thesis
  proof (intro conjI ballI)
    fix m assume "m \<in> set (inspectSources importedFiles sources)"
    from found [OF this] errs(3) show "(\<exists>f original. get sources f = Some original \<and>
        m \<in> set (rust_errors f (source_code original)) \<union> set (sdk_errors f (sdk_dependencies importedFiles f original))) \<or>
      (\<exists>f. m = f @ '': SDK dependency cycle'' \<and> (f, f) \<in> (sdk_imports importedFiles sources)\<^sup>+)" by blast
  qed (unfold quiet rules sdk rust_errors_Nil conj_assoc, rule refl)
qed

text \<open>Two modules that import each other, one through its parent directory.\<close>

definition demo_sources :: "string object" where
  "demo_sources = [(''app/sdk/rent.ts'', ''r''), (''app/sdk/archive/codec.ts'', ''c'')]"

definition demo_imported :: "string \<Rightarrow> string list" where
  "demo_imported original = (if original = ''r'' then [''./archive/codec''] else [''../rent'', ''fs''])"

lemma demo_dependencies_sdk:
  "sdk_dependencies demo_imported ''app/sdk/rent.ts'' ''r'' = [''app/sdk/archive/codec.ts'']"
  "sdk_dependencies demo_imported ''app/sdk/archive/codec.ts'' ''c'' = [''app/sdk/rent.ts'']"
  by code_simp+

lemma inspectSources_accepts_witness:
  "inspectSources demo_imported demo_sources \<noteq> []"
proof -
  have "starts_with ''app/sdk/'' ''app/sdk/rent.ts''" "starts_with ''app/sdk/'' ''app/sdk/archive/codec.ts''" by code_simp+
  then have "(''app/sdk/rent.ts'', ''app/sdk/archive/codec.ts'') \<in> sdk_imports demo_imported demo_sources"
    "(''app/sdk/archive/codec.ts'', ''app/sdk/rent.ts'') \<in> sdk_imports demo_imported demo_sources"
    unfolding sdk_imports_def by (simp_all add: demo_sources_def demo_dependencies_sdk)
  then have "(''app/sdk/rent.ts'', ''app/sdk/rent.ts'') \<in> (sdk_imports demo_imported demo_sources)\<^sup>+"
    by (rule trancl_into_trancl [OF r_into_trancl])
  then have "\<not> acyclic (sdk_imports demo_imported demo_sources)" unfolding acyclic_def by blast
  moreover have "distinct (keys demo_sources)" by (simp add: demo_sources_def)
  ultimately show ?thesis using inspectSources_accepts [of demo_sources demo_imported] by blast
qed

end
