(* ===== verification/Spec2Isabelle.thy ===== *)
theory Spec2Isabelle
  imports WorkflowProof WireProof IdlCheck ArchGuard
begin

text \<open>
  \<^bold>\<open>Verification of the hash-timestamp SDK.\<close>

  \<^bold>\<open>The program.\<close> hash-timestamp records hashes on Solana. This development verifies its TypeScript
  SDK under \<open>app/sdk\<close>, the workflows of its \<open>examples/\<close>, and the two gates of its build,
  \<open>scripts/check-idl.cjs\<close> and \<open>scripts/check-architecture.cjs\<close>. The parts are:

    \<^item> the \<^emph>\<open>protocol values\<close> (\<open>protocol/\<close>, \<open>types.ts\<close>): normalization of caller-supplied
      bytes, keys and integers, the digests that identify records, and the program addresses
      derived from them;
    \<^item> the \<^emph>\<open>wire\<close> (\<open>encoding.ts\<close>, \<open>wire.ts\<close>, \<open>restore.ts\<close>): what is handed to Anchor for a
      Restore instruction and what is read back from the IDL;
    \<^item> the \<^emph>\<open>archive\<close> (\<open>archive/\<close>): a portable, self-authenticating set of records, its strict
      codec, its dependency graph, union, selection and proof compilation;
    \<^item> the \<^emph>\<open>client\<close> (\<open>client.ts\<close>, \<open>client/\<close>): creations that capture the record they create, and
      restorations that are planned read-only and then carried out step by step;
    \<^item> the \<^emph>\<open>workflows\<close> (\<open>examples/\<close>): how an application registers, branches, saves receipts and
      restores, as compositions of the above.

  Values flow upward: the client normalizes its arguments with the protocol, derives addresses,
  submits one instruction built by Anchor and reads the record back into an archive; the planner
  compiles proofs of an archive into instructions with the proof compiler and the encoder, and the
  executor merges what was restored with the archive operations.

  \<^bold>\<open>Theories and sources.\<close>

    \<^item> \<open>Prelude\<close>: errors, the error-passing combinators \<open>bindE\<close>, \<open>mapE\<close>, \<open>foldE\<close>, objects used as
      dictionaries, sorting, and the interfaces \<open>codec\<close>, \<open>fixed_codec\<close>, \<open>comparison\<close> and
      \<open>partial_join\<close>, each interpreted on the definitions of the theory that provides it.
      \<open>JsValue\<close>: JavaScript values and the host record. \<open>TextCodec\<close>: decimal, hexadecimal and
      64-bit texts. \<open>JsonText\<close>: \<open>JSON.stringify\<close> and \<open>JSON.parse\<close>.
    \<^item> \<open>Normalization\<close>: \<open>protocol/normalization.ts\<close>. \<open>HashSource\<close>: \<open>types.ts\<close>,
      \<open>protocol/source.ts\<close>. \<open>Hashes\<close>: \<open>protocol/hashes.ts\<close>, \<open>protocol/addresses.ts\<close>; every
      framing is shown injective.
    \<^item> \<open>Encoding\<close>: \<open>encoding.ts\<close>, \<open>wire.ts\<close>, \<open>restore.ts\<close>. \<open>WireProof\<close>: the widths of what is
      encoded and the bounds of amounts.
    \<^item> \<open>ArchiveModel\<close>: \<open>archive/model.ts\<close>, \<open>archive/values.ts\<close>. \<open>DepSearch\<close>, \<open>Graph\<close>:
      \<open>archive/graph.ts\<close>. \<open>KeyScan\<close>, \<open>Codec\<close>: \<open>archive/codec.ts\<close>. \<open>ArchiveText\<close>: its
      round trips. \<open>Operations\<close>: \<open>archive/operations.ts\<close>, with \<open>Merge\<close>, \<open>Parts\<close>,
      \<open>Unions\<close> (the union as a join of records) and \<open>Selection\<close>. \<open>RestoreProof\<close>,
      \<open>ProofImport\<close>: \<open>archive/proof.ts\<close> and its round trip through \<open>archiveFromProof\<close>.
    \<^item> \<open>ClientBase\<close>: the client's world (below), \<open>client/transactions.ts\<close>, \<open>client/accounts.ts\<close>,
      \<open>rent.ts\<close>. \<open>Aggregate\<close>: \<open>client/aggregate.ts\<close>. \<open>Capture\<close>: \<open>client/archive.ts\<close>.
      \<open>Candidate\<close>: \<open>client/archive-candidate.ts\<close>, \<open>archive/planning.ts\<close>. \<open>RestorePlan\<close>:
      \<open>client/archive-restore.ts\<close>, with \<open>PlanLoops\<close> (its loops), \<open>Planning\<close> and \<open>Execution\<close>
      (what it promises). \<open>Client\<close>: \<open>client.ts\<close> and the results of \<open>types.ts\<close>; \<open>ClientProof\<close>: its
      methods one by one and as a step relation over sessions.
    \<^item> \<open>Workflows\<close>: \<open>examples/archive-usage.ts\<close> and \<open>examples/sdk-usage.ts\<close>, and the interface
      \<open>receipt_log\<close> of a saved text that only grows. \<open>WorkflowProof\<close>: what the workflows guarantee.
    \<^item> \<open>IdlCheck\<close>: \<open>scripts/check-idl.cjs\<close>. \<open>ArchGuard\<close>: \<open>scripts/check-architecture.cjs\<close>, whose
      cycle search is judged on the graph vocabulary of \<open>DepSearch\<close>. \<open>Patterns\<close>: the regular
      expressions both use, each written as a matcher.
    \<^item> \<open>DemoHost\<close>, \<open>DemoArchive\<close> and the demonstration network of \<open>Capture\<close>: concrete instances of
      the parameters, at which the witnesses apply the properties.

  Definitions keep the names of the functions they translate; a definition without a counterpart of
  its own (a loop body, a callback) follows the function it belongs to.

  \<^bold>\<open>Modelling choices.\<close>

    \<^item> A field whose TypeScript type is a union of representations holds a \<open>jsval\<close>. Characters are code
      units below 256; a finite number is a rational, so what is proved holds for every double. A
      plain object is the list of its entries in enumeration order; keys are addresses or field
      names, never array indices and never \<open>__proto__\<close>.
    \<^item> A thrown value is \<open>Inl\<close>; every \<open>throw\<close>, \<open>TypeError\<close> on a missing value and failure of a
      library call is a branch.
    \<^item> Code outside the repository is a parameter: the \<open>host\<close> (SHA-256, Base58, program-address
      search, \<open>localeCompare\<close>, texts of composite values) and the \<open>net\<close> (RPC node, Anchor program,
      provider). \<open>host_ok\<close> collects what is assumed of the host, all of it documented; what is
      assumed of the network and about digest collisions is stated in the property that needs it.
    \<^item> A transaction leaves the SDK in one of two ways, and the requests tell them apart: \<open>ESubmit\<close> is
      Anchor's \<open>builder.rpc()\<close>, \<open>ESend\<close> the SDK's own \<open>provider.sendAndConfirm\<close>. Both reach the
      network through the provider.
    \<^item> An asynchronous method maps the list of requests made so far to a result and the longer list.
      The answers of the \<open>net\<close> may depend on all earlier requests. Requests of one \<open>Promise.all\<close> are
      made in the order of the array; a request records the account and the minimum slot, not the
      commitment level.
    \<^item> The \<open>WeakMap\<close> of prepared plans is a list; the identity of a plan object is its index, so a
      plan that was not made by the planner is an index beyond the list.
    \<^item> Loops are structural recursion, or \<open>function\<close>s with a measure (the search of \<open>dependencyOrder\<close>
      by the unvisited nodes, the greedy choice by the targets left, chunked reads by the keys
      left). The only loop without one, the halving of selections, is a \<open>partial_function\<close>;
      \<open>PlanLoops\<close> proves that it returns whatever the compiler of candidates answers. No
      definition uses fuel.
    \<^item> The comparator of candidates divides integers exactly; doubles separate quotients of integers
      this small.

  \<^bold>\<open>What is shown.\<close> Normalization and encodings: accepted inputs, ranges, canonical texts, injective
  framings, well-typed wire values. Archives: a decoded archive is normalized; printing and parsing
  are inverse in both layouts; a text is decoded as the JSON value it denotes, whatever its white
  space and the spelling of its strings and numbers, and refused when an object repeats a key; the graph inspection agrees with the protocol digests; the dependency
  order is the reachable closure, dependencies first, and exists exactly when the closure is known
  and acyclic. Operations: merging is the least upper bound of records, associative, commutative,
  absorbing, total on parts of one archive, and otherwise names a true conflict: two records of one
  address that are both present and differ in a field, or in a witness both have (a witness only one
  side has is merged in); selections are closed. Proofs: a compiled proof is the closure of its
  anchor with the parameters and fingerprints of the archived records, is accepted by the encoder,
  and importing it gives the closure back. Client: a creation is submitted at most once, only after
  its validation succeeded, and its signature is never lost; a plan covers every target from live
  anchors, or the error names exactly the targets left over and the reason each of their anchors
  failed for; planning always returns and only reads; an execution sends a prefix of the prepared
  instructions under its guards and accounts for what it restored; in any session of method calls every transaction,
  submitted or sent, is the one instruction of a method call or the prepared instruction of a plan
  step, charged to the account that signs for it. Workflows: registering and branching returns a
  complete archive of both records; while the original reads as absent and the branch as live, its
  saved text is enough to plan the restoration of the original with two reads, and carrying it out
  sends one Restore and returns both records if the network accepts it (assumed: restore
  instructions of two small links fit into a transaction, \<open>small_restores_fit\<close>); receipts can be
  appended in any order, repeatedly, without losing one; the proof of a file branch describes the
  parent it restores. The gates: the verdict on an IDL and the location it prints are right; the
  architecture guard is silent exactly when the layer rules hold and the imports are acyclic.

  \<^bold>\<open>Not modelled.\<close> \<open>archive.ts\<close>, \<open>hashTimestamp.ts\<close> and \<open>hashUtils.ts\<close> only re-export;
  \<open>createClient\<close> of \<open>examples/sdk-usage.ts\<close> only constructs the client, and
  \<open>migrations/deploy.ts\<close> only sets Anchor's provider; the types \<open>types.ts\<close> and \<open>wire.ts\<close> derive from the generated IDL have no definitions of
  their own (fetched accounts are JavaScript values, wire values have their own records); the scripts'
  reading of files is I/O (what they read is a parameter); the on-chain program under \<open>programs/\<close>
  is Rust; the tests are not verified.
\<close>

end
